(* ===== verification/Alarm_Prelude.thy ===== *)
theory Alarm_Prelude
  imports Main "HOL-Library.Word"
begin

text \<open>
  Shared vocabulary of the development: the machine types of the Rust sources, the parts of the
  Rust standard library the daemon calls (byte encodings, UTF-8 validation, slice access, integer
  parsing, process environment, clock and \<open>Duration\<close> arithmetic), and the generic lemmas on
  them.  Strings are UTF-8 byte sequences (HOL characters are bytes), a \<open>usize\<close> is a \<open>nat\<close>
  below \<open>2 ^ 64\<close>, an \<open>i64\<close> is a 64-bit word read by \<open>sint\<close>, a \<open>Duration\<close> is its
  number of nanoseconds.
\<close>

section \<open>Types and collections\<close>

type_synonym u8 = "8 word"
type_synonym u16 = "16 word"
type_synonym u32 = "32 word"
type_synonym u64 = "64 word"
type_synonym i64 = "64 word"
type_synonym bytes = "u8 list"
type_synonym duration = nat

named_theorems codec_simps \<open>unfolding of the byte codec\<close>
named_theorems store_simps \<open>facts about the persistent store\<close>
named_theorems ctl_simps \<open>unfolding of the control object's atomic actions\<close>

section \<open>Results\<close>

text \<open>\<open>Result<T, E>\<close> is \<open>'e + 'a\<close> with \<open>Inl\<close> for \<open>Err\<close>; \<open>bind_r\<close> is the
  operator \<open>?\<close> and \<open>map_err\<close> the method of that name.\<close>

definition bind_r :: "'e + 'a \<Rightarrow> ('a \<Rightarrow> 'e + 'b) \<Rightarrow> 'e + 'b" where
  "bind_r r f = (case r of Inl e \<Rightarrow> Inl e | Inr a \<Rightarrow> f a)"

definition map_err :: "('e \<Rightarrow> 'f) \<Rightarrow> 'e + 'a \<Rightarrow> 'f + 'a" where
  "map_err g r = (case r of Inl e \<Rightarrow> Inl (g e) | Inr a \<Rightarrow> Inr a)"

definition ok_or :: "'e \<Rightarrow> 'a option \<Rightarrow> 'e + 'a" where
  "ok_or e x = (case x of None \<Rightarrow> Inl e | Some a \<Rightarrow> Inr a)"

lemma bind_r_simps [simp]:
  "bind_r (Inl e) f = Inl e"
  "bind_r (Inr a) f = f a"
  by (simp_all add: bind_r_def)

lemma map_err_simps [simp]:
  "map_err g (Inl e) = Inl (g e)"
  "map_err g (Inr a) = Inr a"
  by (simp_all add: map_err_def)

lemma ok_or_simps [simp]:
  "ok_or e None = Inl e"
  "ok_or e (Some a) = Inr a"
  by (simp_all add: ok_or_def)

lemma bind_r_eq_Inr: "bind_r r f = Inr b \<longleftrightarrow> (\<exists>a. r = Inr a \<and> f a = Inr b)"
  by (cases r) auto

lemma map_err_eq_Inr [simp]: "map_err g r = Inr b \<longleftrightarrow> r = Inr b"
  by (cases r) auto

lemma ok_or_eq_Inr [simp]: "ok_or e x = Inr b \<longleftrightarrow> x = Some b"
  by (cases x) auto

section \<open>Bytes and characters\<close>

definition byte_of_char :: "char \<Rightarrow> u8" where
  "byte_of_char c = word_of_nat (of_char c)"

definition char_of_byte :: "u8 \<Rightarrow> char" where
  "char_of_byte b = char_of (unat b)"

lemma unat_byte_of_char [simp]: "unat (byte_of_char c) = of_char c"
  unfolding byte_of_char_def
  by (simp add: unat_of_nat of_char_mod_256)

lemma char_of_byte_of_char [simp]: "char_of_byte (byte_of_char c) = c"
  by (simp add: char_of_byte_def)

lemma unat_byte_less: "unat (b :: u8) < 256"
  using unsigned_less[of b, where 'a = nat] by simp

lemma byte_of_char_of_byte [simp]: "byte_of_char (char_of_byte b) = b"
proof -
  have "unat b < 256"
    by (rule unat_byte_less)
  then show ?thesis
    by (simp add: byte_of_char_def char_of_byte_def)
qed

lemma byte_of_char_eq_iff [simp]: "byte_of_char c = byte_of_char d \<longleftrightarrow> c = d"
  by (metis char_of_byte_of_char)

text \<open>\<open>str::as_bytes\<close>.\<close>

definition as_bytes :: "string \<Rightarrow> bytes" where
  "as_bytes s = map byte_of_char s"

lemma length_as_bytes [simp]: "length (as_bytes s) = length s"
  by (simp add: as_bytes_def)

lemma map_char_of_byte_as_bytes [simp]: "map char_of_byte (as_bytes s) = s"
  by (simp add: as_bytes_def comp_def)

section \<open>UTF-8\<close>

text \<open>The validity check of \<open>core::str::from_utf8\<close>, on byte values: which first byte allows
  which second byte, and how many continuation bytes follow.\<close>

definition utf8_cont :: "nat \<Rightarrow> bool" where
  "utf8_cont b \<longleftrightarrow> 128 \<le> b \<and> b \<le> 191"

definition utf8_second3 :: "nat \<Rightarrow> nat \<Rightarrow> bool" where
  "utf8_second3 a b \<longleftrightarrow>
     (if a = 224 then 160 \<le> b \<and> b \<le> 191
      else if a = 237 then 128 \<le> b \<and> b \<le> 159
      else utf8_cont b)"

definition utf8_second4 :: "nat \<Rightarrow> nat \<Rightarrow> bool" where
  "utf8_second4 a b \<longleftrightarrow>
     (if a = 240 then 144 \<le> b \<and> b \<le> 191
      else if a = 244 then 128 \<le> b \<and> b \<le> 143
      else utf8_cont b)"

fun utf8_valid :: "nat list \<Rightarrow> bool" where
  "utf8_valid [] = True"
| "utf8_valid (a # r) =
     (if a < 128 then utf8_valid r
      else if 194 \<le> a \<and> a \<le> 223 then
        (case r of b # r' \<Rightarrow> utf8_cont b \<and> utf8_valid r' | _ \<Rightarrow> False)
      else if 224 \<le> a \<and> a \<le> 239 then
        (case r of b # c # r' \<Rightarrow> utf8_second3 a b \<and> utf8_cont c \<and> utf8_valid r' | _ \<Rightarrow> False)
      else if 240 \<le> a \<and> a \<le> 244 then
        (case r of b # c # d # r' \<Rightarrow>
           utf8_second4 a b \<and> utf8_cont c \<and> utf8_cont d \<and> utf8_valid r' | _ \<Rightarrow> False)
      else False)"

text \<open>Every Rust \<open>String\<close> satisfies \<open>rust_str\<close>.\<close>

definition rust_str :: "string \<Rightarrow> bool" where
  "rust_str s \<longleftrightarrow> utf8_valid (map of_char s)"

definition from_utf8 :: "bytes \<Rightarrow> string option" where
  "from_utf8 bs = (if utf8_valid (map unat bs) then Some (map char_of_byte bs) else None)"

lemma map_unat_as_bytes [simp]: "map unat (as_bytes s) = map of_char s"
  by (simp add: as_bytes_def comp_def)

lemma from_utf8_as_bytes [simp]:
  "from_utf8 (as_bytes s) = (if rust_str s then Some s else None)"
  by (simp add: from_utf8_def rust_str_def)

lemma as_bytes_map_char_of_byte [simp]: "as_bytes (map char_of_byte bs) = bs"
  by (simp add: as_bytes_def comp_def)

lemma from_utf8_Some: "from_utf8 bs = Some s \<Longrightarrow> as_bytes s = bs \<and> rust_str s"
  unfolding from_utf8_def rust_str_def
  by (metis as_bytes_map_char_of_byte map_unat_as_bytes option.distinct(1) option.inject)

lemma utf8_valid_ascii: "(\<forall>b \<in> set bs. b < 128) \<Longrightarrow> utf8_valid bs"
  by (induction bs) auto

lemma rust_str_prefix_ascii:
  assumes "\<forall>c \<in> set p. of_char c < (128 :: nat)"
  shows "rust_str (p @ s) \<longleftrightarrow> rust_str s"
  using assms by (induction p) (auto simp: rust_str_def)

section \<open>Little-endian integers\<close>

text \<open>\<open>to_le_bytes\<close> of an \<open>n\<close>-byte integer with unsigned value \<open>x\<close>, and its inverse.\<close>

fun le_bytes :: "nat \<Rightarrow> nat \<Rightarrow> bytes" where
  "le_bytes 0 x = []"
| "le_bytes (Suc n) x = word_of_nat (x mod 256) # le_bytes n (x div 256)"

fun le_nat :: "bytes \<Rightarrow> nat" where
  "le_nat [] = 0"
| "le_nat (b # bs) = unat b + 256 * le_nat bs"

definition i64_to_le_bytes :: "i64 \<Rightarrow> bytes" where
  "i64_to_le_bytes w = le_bytes 8 (unat w)"

definition i64_from_le_bytes :: "bytes \<Rightarrow> i64" where
  "i64_from_le_bytes bs = word_of_nat (le_nat bs)"

definition u16_to_le_bytes :: "u16 \<Rightarrow> bytes" where
  "u16_to_le_bytes w = le_bytes 2 (unat w)"

definition u16_from_le_bytes :: "bytes \<Rightarrow> u16" where
  "u16_from_le_bytes bs = word_of_nat (le_nat bs)"

lemma length_le_bytes [simp]: "length (le_bytes n x) = n"
  by (induction n arbitrary: x) auto

lemma le_nat_le_bytes: "le_nat (le_bytes n x) = x mod 256 ^ n"
proof (induction n arbitrary: x)
  case 0
  then show ?case by simp
next
  case (Suc n)
  have "le_nat (le_bytes (Suc n) x) = x mod 256 + 256 * (x div 256 mod 256 ^ n)"
    using Suc by (simp add: unat_of_nat)
  also have "\<dots> = x mod (256 * 256 ^ n)"
    by (simp add: mod_mult2_eq)
  finally show ?case by simp
qed

lemma le_nat_less: "le_nat bs < 256 ^ length bs"
proof (induction bs)
  case Nil
  then show ?case by simp
next
  case (Cons b bs)
  have "unat b < 256" by (rule unat_byte_less)
  with Cons show ?case by simp
qed

lemma le_bytes_le_nat: "le_bytes (length bs) (le_nat bs) = bs"
proof (induction bs)
  case Nil
  then show ?case by simp
next
  case (Cons b bs)
  have "unat b < 256" by (rule unat_byte_less)
  with Cons show ?case by simp
qed

lemma length_i64_to_le_bytes [simp]: "length (i64_to_le_bytes w) = 8"
  by (simp add: i64_to_le_bytes_def)

lemma length_u16_to_le_bytes [simp]: "length (u16_to_le_bytes w) = 2"
  by (simp add: u16_to_le_bytes_def)

lemma i64_from_to_le_bytes [simp]: "i64_from_le_bytes (i64_to_le_bytes w) = w"
proof -
  have "unat w < 256 ^ 8"
    using unsigned_less[of w, where 'a = nat] by simp
  then show ?thesis
    by (simp add: i64_from_le_bytes_def i64_to_le_bytes_def le_nat_le_bytes)
qed

lemma i64_to_from_le_bytes: "length bs = 8 \<Longrightarrow> i64_to_le_bytes (i64_from_le_bytes bs) = bs"
  using le_nat_less[of bs] le_bytes_le_nat[of bs]
  by (simp add: i64_from_le_bytes_def i64_to_le_bytes_def unat_of_nat)

lemma u16_from_to_le_bytes [simp]: "u16_from_le_bytes (u16_to_le_bytes w) = w"
proof -
  have "unat w < 256 ^ 2"
    using unsigned_less[of w, where 'a = nat] by simp
  then show ?thesis
    by (simp add: u16_from_le_bytes_def u16_to_le_bytes_def le_nat_le_bytes)
qed

lemma u16_to_from_le_bytes: "length bs = 2 \<Longrightarrow> u16_to_le_bytes (u16_from_le_bytes bs) = bs"
  using le_nat_less[of bs] le_bytes_le_nat[of bs]
  by (simp add: u16_from_le_bytes_def u16_to_le_bytes_def unat_of_nat)

section \<open>Slices and \<open>usize\<close>\<close>

text \<open>\<open>xs.get(i)\<close>, \<open>xs.get(a..b)\<close> and \<open>usize::checked_add\<close>.\<close>

definition nth_get :: "'a list \<Rightarrow> nat \<Rightarrow> 'a option" where
  "nth_get xs i = (if i < length xs then Some (xs ! i) else None)"

definition slice_get :: "'a list \<Rightarrow> nat \<Rightarrow> nat \<Rightarrow> 'a list option" where
  "slice_get xs a b = (if a \<le> b \<and> b \<le> length xs then Some (take (b - a) (drop a xs)) else None)"

definition usize_checked_add :: "nat \<Rightarrow> nat \<Rightarrow> nat option" where
  "usize_checked_add a b = (if a + b < 2 ^ 64 then Some (a + b) else None)"

lemma nth_get_append [simp]: "nth_get (xs @ y # ys) (length xs) = Some y"
  by (simp add: nth_get_def)

lemma nth_get_append' [simp]:
  "length xs = n \<Longrightarrow> nth_get (xs @ y # ys) n = Some y"
  "length xs = n \<Longrightarrow> nth_get xs n = None"
  by (auto simp: nth_get_def)

lemma slice_get_append:
  "length xs = a \<Longrightarrow> length ys = b - a \<Longrightarrow> a \<le> b \<Longrightarrow> slice_get (xs @ ys @ zs) a b = Some ys"
  by (simp add: slice_get_def)

section \<open>Strings, environment, integers, time\<close>

text \<open>\<open>str::strip_prefix\<close>.\<close>

fun strip_prefix :: "string \<Rightarrow> string \<Rightarrow> string option" where
  "strip_prefix [] s = Some s"
| "strip_prefix (p # ps) [] = None"
| "strip_prefix (p # ps) (c # cs) = (if p = c then strip_prefix ps cs else None)"

lemma strip_prefix_append [simp]: "strip_prefix p (p @ s) = Some s"
  by (induction p) auto

lemma strip_prefix_Some: "strip_prefix p s = Some r \<longleftrightarrow> s = p @ r"
  by (induction p s rule: strip_prefix.induct) auto

text \<open>The process environment: a variable is present or not, with arbitrary bytes;
  \<open>std::env::var\<close> reports an absent or non-UTF-8 value as an error.\<close>

type_synonym environment = "string \<Rightarrow> string option"

definition env_var :: "environment \<Rightarrow> string \<Rightarrow> string option" where
  "env_var env k = (case env k of None \<Rightarrow> None | Some v \<Rightarrow> if rust_str v then Some v else None)"

definition env_var_os :: "environment \<Rightarrow> string \<Rightarrow> string option" where
  "env_var_os env k = env k"

text \<open>\<open>str::parse::<u64>\<close>: an optional plus sign, then at least one decimal digit, no overflow.\<close>

definition digit_val :: "char \<Rightarrow> nat option" where
  "digit_val c = (let n = of_char c in if 48 \<le> n \<and> n \<le> 57 then Some (n - 48) else None)"

fun parse_digits :: "nat \<Rightarrow> string \<Rightarrow> nat option" where
  "parse_digits acc [] = Some acc"
| "parse_digits acc (c # cs) =
     (case digit_val c of
        None \<Rightarrow> None
      | Some d \<Rightarrow> if acc * 10 + d < 2 ^ 64 then parse_digits (acc * 10 + d) cs else None)"

definition parse_u64 :: "string \<Rightarrow> nat option" where
  "parse_u64 s =
     (let t = (case s of c # cs \<Rightarrow> if c = CHR ''+'' then cs else s | [] \<Rightarrow> s)
      in if t = [] then None else parse_digits 0 t)"

lemma parse_digits_less: "parse_digits acc s = Some n \<Longrightarrow> acc < 2 ^ 64 \<Longrightarrow> n < 2 ^ 64"
  by (induction acc s rule: parse_digits.induct) (auto split: option.splits if_splits)

lemma parse_u64_less: "parse_u64 s = Some n \<Longrightarrow> n < 2 ^ 64"
  by (auto simp: parse_u64_def Let_def split: if_splits dest: parse_digits_less)

text \<open>\<open>Duration\<close> constructors and accessors, in nanoseconds.\<close>

definition dur_from_secs :: "nat \<Rightarrow> duration" where
  "dur_from_secs s = s * 1000000000"

definition dur_from_millis :: "nat \<Rightarrow> duration" where
  "dur_from_millis ms = ms * 1000000"

definition dur_as_millis :: "duration \<Rightarrow> nat" where
  "dur_as_millis d = d div 1000000"

lemma dur_as_from_millis [simp]: "dur_as_millis (dur_from_millis ms) = ms"
  by (simp add: dur_as_millis_def dur_from_millis_def)

lemma dur_as_millis_from_secs [simp]: "dur_as_millis (dur_from_secs s) = s * 1000"
  by (simp add: dur_as_millis_def dur_from_secs_def)

text \<open>\<open>i64\<close> arithmetic and the wall clock.  \<open>clk\<close> is \<open>SystemTime::now()\<close> in nanoseconds
  relative to the Unix epoch; \<open>duration_since\<close> fails before the epoch and
  \<open>unwrap_or_default\<close> then gives zero; \<open>as i64\<close> truncates.\<close>

definition i64_max :: int where
  "i64_max = 9223372036854775807"

definition i64_min :: int where
  "i64_min = - 9223372036854775808"

definition i64_saturating_add :: "i64 \<Rightarrow> i64 \<Rightarrow> i64" where
  "i64_saturating_add a b = word_of_int (max i64_min (min i64_max (sint a + sint b)))"

definition i64_try_from :: "nat \<Rightarrow> i64 option" where
  "i64_try_from n = (if int n \<le> i64_max then Some (word_of_nat n) else None)"

definition unix_now_ms :: "int \<Rightarrow> i64" where
  "unix_now_ms clk = word_of_int ((if clk < 0 then 0 else clk) div 1000000)"

definition i64_le :: "i64 \<Rightarrow> i64 \<Rightarrow> bool" where
  "i64_le a b \<longleftrightarrow> sint a \<le> sint b"

lemma sint_i64_range: "i64_min \<le> sint (w :: i64) \<and> sint w \<le> i64_max"
  using sint_lt[of w] sint_ge[of w] by (simp add: i64_min_def i64_max_def)

lemma sint_word_of_int_i64:
  "i64_min \<le> n \<Longrightarrow> n \<le> i64_max \<Longrightarrow> sint (word_of_int n :: i64) = n"
  by (simp add: i64_min_def i64_max_def signed_take_bit_int_eq_self sint_sbintrunc')

lemma sint_i64_saturating_add:
  "sint (i64_saturating_add a b) = max i64_min (min i64_max (sint a + sint b))"
  unfolding i64_saturating_add_def
  by (rule sint_word_of_int_i64) (simp_all add: i64_min_def i64_max_def)

lemma i64_try_from_sint: "i64_try_from n = Some w \<Longrightarrow> sint w = int n"
  using sint_word_of_int_i64[of "int n"]
  by (auto simp: i64_try_from_def i64_min_def split: if_splits)

lemma sint_unix_now_ms:
  assumes "0 \<le> clk" "clk div 1000000 \<le> i64_max"
  shows "sint (unix_now_ms clk) = clk div 1000000"
  using assms sint_word_of_int_i64[of "clk div 1000000"]
  by (simp add: unix_now_ms_def i64_min_def pos_imp_zdiv_nonneg_iff)

end
