(* ===== verification/Persisted_Codec.thy ===== *)
theory Persisted_Codec
  imports Alarm_Prelude
begin

text \<open>
  The value layout of \<open>daemon/persistence/mod.rs\<close>: the record \<open>PersistedState\<close>, its encoder
  (\<open>encode_state\<close>, \<open>encode_body_v1\<close>) and its decoder (\<open>decode_state\<close>, \<open>decode_body_v1\<close>).
  The payload of \<open>PersistenceError::Corrupted\<close> is one of a fixed list of messages; the datatype
  \<open>corruption\<close> has one constructor per message, with the values the message prints.
  The lemmas characterise what the decoder returns on every encoder output, on the legacy layout
  and on truncated payloads.
\<close>

section \<open>Data\<close>

record persisted_state =
  ps_armed :: bool
  ps_next_fire_unix_ms :: "i64 option"
  ps_current_sound :: "string option"

definition default_persisted :: persisted_state where
  "default_persisted = \<lparr>ps_armed = False, ps_next_fire_unix_ms = None, ps_current_sound = None\<rparr>"

datatype corruption =
    UnsupportedSchemaVersion u8
  | NextFireOffsetOverflow
  | MissingNextFireBytes
  | UnknownNextFireTag u8
  | SoundLenOffsetOverflow
  | MissingSoundLengthBytes
  | SoundBodyOffsetOverflow
  | MissingSoundBodyBytes
  | SoundIdUtf8
  | UnknownSoundTag u8
  | HandleUnavailable

definition SCHEMA_MAGIC :: bytes where
  "SCHEMA_MAGIC = [0x41, 0x44]"

definition SCHEMA_VERSION :: u8 where
  "SCHEMA_VERSION = 1"

section \<open>Encoder\<close>

definition u16_len :: "nat \<Rightarrow> u16" where
  "u16_len n = (if n \<le> 65535 then word_of_nat n else 65535)"

definition encode_body_v1 :: "persisted_state \<Rightarrow> bytes \<Rightarrow> bytes" where
  "encode_body_v1 st out =
     out @ [if ps_armed st then 1 else 0]
       @ (case ps_next_fire_unix_ms st of
            Some v \<Rightarrow> 1 # i64_to_le_bytes v
          | None \<Rightarrow> [0])
       @ (case ps_current_sound st of
            Some s \<Rightarrow>
              (let bs = as_bytes s; len = u16_len (length bs)
               in 1 # u16_to_le_bytes len @ take (unat len) bs)
          | None \<Rightarrow> [0])"

definition encode_state :: "persisted_state \<Rightarrow> bytes" where
  "encode_state st = encode_body_v1 st (SCHEMA_MAGIC @ [SCHEMA_VERSION])"

section \<open>Decoder\<close>

text \<open>The two tagged fields of the body.  Each takes the cursor and returns the value and the
  cursor behind it; the decoder stops early when the \<open>next_fire\<close> tag is absent.\<close>

definition decode_next_fire :: "bytes \<Rightarrow> nat \<Rightarrow> u8 \<Rightarrow> corruption + (i64 option \<times> nat)" where
  "decode_next_fire bs cursor tag =
     (if tag = 0 then Inr (None, cursor + 1)
      else if tag = 1 then
        bind_r (ok_or NextFireOffsetOverflow (usize_checked_add (cursor + 1) 8)) (\<lambda>fin.
        bind_r (ok_or MissingNextFireBytes (slice_get bs (cursor + 1) fin)) (\<lambda>slice.
          Inr (Some (i64_from_le_bytes slice), fin)))
      else Inl (UnknownNextFireTag tag))"

definition decode_sound :: "bytes \<Rightarrow> nat \<Rightarrow> corruption + string option" where
  "decode_sound bs cursor =
     (case nth_get bs cursor of
        None \<Rightarrow> Inr None
      | Some tag \<Rightarrow>
          if tag = 0 then Inr None
          else if tag = 1 then
            bind_r (ok_or SoundLenOffsetOverflow (usize_checked_add (cursor + 1) 2)) (\<lambda>len_end.
            bind_r (ok_or MissingSoundLengthBytes (slice_get bs (cursor + 1) len_end)) (\<lambda>len_slice.
            let len = unat (u16_from_le_bytes len_slice) in
            bind_r (ok_or SoundBodyOffsetOverflow (usize_checked_add len_end len)) (\<lambda>body_end.
            bind_r (ok_or MissingSoundBodyBytes (slice_get bs len_end body_end)) (\<lambda>body.
            bind_r (ok_or SoundIdUtf8 (from_utf8 body)) (\<lambda>s.
              Inr (Some s))))))
          else Inl (UnknownSoundTag tag))"

definition decode_body_v1 :: "bytes \<Rightarrow> corruption + persisted_state" where
  "decode_body_v1 bs =
     (case bs of
        [] \<Rightarrow> Inr default_persisted
      | b0 # _ \<Rightarrow>
          (let armed = (b0 \<noteq> 0) in
           case nth_get bs 1 of
             None \<Rightarrow> Inr (default_persisted\<lparr>ps_armed := armed\<rparr>)
           | Some tag \<Rightarrow>
               bind_r (decode_next_fire bs 1 tag) (\<lambda>(next, cursor).
               bind_r (decode_sound bs cursor) (\<lambda>sound.
                 Inr \<lparr>ps_armed = armed, ps_next_fire_unix_ms = next, ps_current_sound = sound\<rparr>))))"

definition decode_state :: "bytes \<Rightarrow> corruption + persisted_state" where
  "decode_state bs =
     (if 3 \<le> length bs \<and> take 2 bs = SCHEMA_MAGIC then
        (if bs ! 2 = SCHEMA_VERSION then decode_body_v1 (drop 3 bs)
         else Inl (UnsupportedSchemaVersion (bs ! 2)))
      else decode_body_v1 bs)"

lemmas [codec_simps] =
  encode_state_def encode_body_v1_def decode_state_def decode_body_v1_def decode_next_fire_def
  SCHEMA_MAGIC_def SCHEMA_VERSION_def default_persisted_def

section \<open>The decoder on encoder output\<close>

text \<open>A sound id is stored up to its first 65535 bytes.\<close>

definition stored_sound :: "string \<Rightarrow> bytes" where
  "stored_sound s = take 65535 (as_bytes s)"

lemma unat_u16_len: "unat (u16_len n) = min n 65535"
  by (simp add: u16_len_def unat_of_nat)

lemma take_u16_len [simp]: "take (unat (u16_len (length s))) (as_bytes s) = stored_sound s"
  unfolding stored_sound_def unat_u16_len
  by (cases "length s \<le> 65535") (simp_all add: min_def)

lemma length_stored_sound: "length (stored_sound s) = unat (u16_len (length s))"
  by (simp add: stored_sound_def unat_u16_len min.commute)

lemma stored_sound_short [simp]: "length s \<le> 65535 \<Longrightarrow> stored_sound s = as_bytes s"
  by (simp add: stored_sound_def)

lemma decode_sound_encoded:
  assumes "length pre = cursor" and "cursor < 100"
  shows "decode_sound (pre @ 1 # u16_to_le_bytes (u16_len (length s)) @ stored_sound s) cursor =
    (case from_utf8 (stored_sound s) of None \<Rightarrow> Inl SoundIdUtf8 | Some t \<Rightarrow> Inr (Some t))"
proof -
  let ?len = "u16_to_le_bytes (u16_len (length s))"
  let ?bs = "pre @ 1 # ?len @ stored_sound s"
  let ?n = "length (stored_sound s)"
  have n: "?n \<le> 65535" by (simp add: stored_sound_def)
  have len: "slice_get ?bs (cursor + 1) (cursor + 3) = Some ?len"
    using slice_get_append[of "pre @ [1]" "cursor + 1" ?len "cursor + 3"] assms by simp
  have body: "slice_get ?bs (cursor + 3) (cursor + 3 + ?n) = Some (stored_sound s)"
    using slice_get_append[of "pre @ 1 # ?len" "cursor + 3" "stored_sound s" "cursor + 3 + ?n" "[]"] assms
    by simp
  have tag: "nth_get ?bs cursor = Some 1"
    using assms by simp
  have add: "usize_checked_add (cursor + 1) 2 = Some (cursor + 3)"
    "usize_checked_add (cursor + 3) ?n = Some (cursor + 3 + ?n)"
    using assms n by (auto simp: usize_checked_add_def)
  show ?thesis
    using add len body
    by (simp add: decode_sound_def tag length_stored_sound[symmetric] split: option.split)
qed

lemma decode_sound_none:
  "length pre = cursor \<Longrightarrow> decode_sound (pre @ [0]) cursor = Inr None"
  "length pre = cursor \<Longrightarrow> decode_sound pre cursor = Inr None"
  by (simp_all add: decode_sound_def)

lemma decode_next_fire_encoded:
  "decode_next_fire (a # 1 # i64_to_le_bytes v @ rest) 1 1 = Inr (Some v, 10)"
proof -
  have "slice_get (a # 1 # i64_to_le_bytes v @ rest) 2 10 = Some (i64_to_le_bytes v)"
    using slice_get_append[of "[a, 1]" 2 "i64_to_le_bytes v" 10 rest] by simp
  moreover have "usize_checked_add (Suc (Suc 0)) 8 = Some 10"
    by (simp add: usize_checked_add_def)
  ultimately show ?thesis
    by (simp add: decode_next_fire_def numeral_2_eq_2)
qed

text \<open>What the decoder returns on the body the encoder writes, for every state.\<close>

definition stored_form :: "persisted_state \<Rightarrow> corruption + persisted_state" where
  "stored_form st =
     (case ps_current_sound st of
        None \<Rightarrow> Inr st
      | Some s \<Rightarrow>
          (case from_utf8 (stored_sound s) of
             None \<Rightarrow> Inl SoundIdUtf8
           | Some t \<Rightarrow> Inr (st\<lparr>ps_current_sound := Some t\<rparr>)))"

lemma decode_body_encoded: "decode_body_v1 (encode_body_v1 st []) = stored_form st"
proof -
  obtain armed next_fire sound where st:
    "st = \<lparr>ps_armed = armed, ps_next_fire_unix_ms = next_fire, ps_current_sound = sound\<rparr>"
    by (cases st) auto
  let ?a = "if armed then 1 else 0 :: u8"
  let ?snd = "case sound of
      Some s \<Rightarrow> 1 # u16_to_le_bytes (u16_len (length s)) @ stored_sound s | None \<Rightarrow> [0]"
  have snd: "decode_sound (pre @ ?snd) cursor = (case sound of None \<Rightarrow> Inr None | Some s \<Rightarrow>
      (case from_utf8 (stored_sound s) of None \<Rightarrow> Inl SoundIdUtf8 | Some t \<Rightarrow> Inr (Some t)))"
    if "length pre = cursor" "cursor < 100" for pre cursor
    using decode_sound_encoded[OF that] decode_sound_none[OF that(1)]
    by (cases sound) simp_all
  show ?thesis
  proof (cases next_fire)
    case None
    then show ?thesis
      using snd[of "[?a, 0]" 2]
      by (cases sound)
        (simp_all add: st stored_form_def encode_body_v1_def decode_body_v1_def decode_next_fire_def
          nth_get_def Let_def numeral_2_eq_2 split: option.split)
  next
    case (Some v)
    have "decode_next_fire (?a # 1 # i64_to_le_bytes v @ ?snd) 1 1 = Inr (Some v, 10)"
      by (rule decode_next_fire_encoded)
    with Some show ?thesis
      using snd[of "?a # 1 # i64_to_le_bytes v" 10]
      by (cases sound)
        (simp_all add: st stored_form_def encode_body_v1_def decode_body_v1_def
          nth_get_def Let_def split: option.split)
  qed
qed

lemma encode_state_eq: "encode_state st = 0x41 # 0x44 # 1 # encode_body_v1 st []"
  by (simp add: encode_state_def encode_body_v1_def SCHEMA_MAGIC_def SCHEMA_VERSION_def)

lemma decode_state_versioned [simp]: "decode_state (0x41 # 0x44 # 1 # body) = decode_body_v1 body"
  by (simp add: decode_state_def SCHEMA_MAGIC_def SCHEMA_VERSION_def)

lemma decode_encode_state: "decode_state (encode_state st) = stored_form st"
  by (simp add: encode_state_eq decode_body_encoded)

lemma decode_legacy: "decode_state (encode_body_v1 st []) = stored_form st"
  unfolding decode_body_encoded[symmetric]
  by (simp add: decode_state_def encode_body_v1_def SCHEMA_MAGIC_def)

text \<open>States the store keeps exactly: the sound id is a UTF-8 string of at most 65535 bytes.\<close>

definition storable :: "persisted_state \<Rightarrow> bool" where
  "storable st \<longleftrightarrow> (case ps_current_sound st of None \<Rightarrow> True | Some s \<Rightarrow> rust_str s \<and> length s \<le> 65535)"

lemma stored_form_storable [simp]: "storable st \<Longrightarrow> stored_form st = Inr st"
  by (cases st) (auto simp: storable_def stored_form_def split: option.splits)

section \<open>What the decoder accepts\<close>

text \<open>Every successful decode yields a storable state, so re-encoding it loses nothing.\<close>

lemma decode_sound_storable:
  "decode_sound bs cursor = Inr (Some s) \<Longrightarrow> rust_str s \<and> length s \<le> 65535"
proof -
  assume dec: "decode_sound bs cursor = Inr (Some s)"
  have less: "unat (w :: u16) \<le> 65535" for w
    using unsigned_less[of w, where 'a = nat] by simp
  have "length body \<le> 65535"
    if "slice_get bs a b = Some body" "usize_checked_add a (unat (w :: u16)) = Some b" for a b body w
    using that less[of w]
    by (auto simp: slice_get_def usize_checked_add_def split: if_splits)
  moreover from dec obtain body a b w where
    "slice_get bs a b = Some body" "usize_checked_add a (unat (w :: u16)) = Some b"
    "from_utf8 body = Some s"
    by (auto simp: decode_sound_def Let_def bind_r_eq_Inr split: option.splits if_splits)
  ultimately show ?thesis
    using from_utf8_Some[of body s] length_as_bytes[of s] by metis
qed

lemma decode_body_storable: "decode_body_v1 bs = Inr st \<Longrightarrow> storable st"
  by (auto simp: decode_body_v1_def storable_def default_persisted_def bind_r_eq_Inr Let_def
      split: list.splits option.splits dest: decode_sound_storable)

lemma decode_state_storable: "decode_state bs = Inr st \<Longrightarrow> storable st"
  by (auto simp: decode_state_def split: if_splits dest: decode_body_storable)

lemma decode_body_short:
  "decode_body_v1 [] = Inr default_persisted"
  "decode_body_v1 [b] = Inr (default_persisted\<lparr>ps_armed := (b \<noteq> 0)\<rparr>)"
  by (simp_all add: decode_body_v1_def nth_get_def Let_def)

lemma decode_body_bad_tag:
  "t \<noteq> 0 \<Longrightarrow> t \<noteq> 1 \<Longrightarrow> decode_body_v1 (a # t # rest) = Inl (UnknownNextFireTag t)"
  by (simp add: decode_body_v1_def nth_get_def decode_next_fire_def Let_def)

section \<open>Properties\<close>

text \<open>C23: for every state, decoding what \<open>encode_state\<close> wrote gives the state back with the sound
  id cut to its first 65535 bytes, or the corruption error \<open>sound id utf8\<close> when that cut falls
  inside a multi-byte character (or the bytes are no UTF-8 at all); no other outcome occurs.\<close>

theorem decode_encode_exact:
  "decode_state (encode_state st) =
     (case ps_current_sound st of
        None \<Rightarrow> Inr st
      | Some s \<Rightarrow>
          (case from_utf8 (take 65535 (as_bytes s)) of
             None \<Rightarrow> Inl SoundIdUtf8
           | Some t \<Rightarrow> Inr (st\<lparr>ps_current_sound := Some t\<rparr>)))"
  unfolding decode_encode_state stored_form_def stored_sound_def ..

text \<open>A state whose sound id (if any) is a UTF-8 string of at most 65535 bytes survives both
  the versioned layout and the unprefixed legacy layout unchanged.\<close>

lemma roundtrip_both_layouts:
  assumes "\<And>s. ps_current_sound st = Some s \<Longrightarrow> rust_str s \<and> length s \<le> 65535"
  shows "decode_state (encode_state st) = Inr st \<and> decode_state (encode_body_v1 st []) = Inr st"
proof -
  have "storable st"
    using assms by (auto simp: storable_def split: option.split)
  then show ?thesis
    by (simp add: decode_encode_state decode_legacy)
qed

lemma roundtrip_both_layouts_example:
  "let st = \<lparr>ps_armed = True, ps_next_fire_unix_ms = Some 1700000000000,
             ps_current_sound = Some ''builtin:collision''\<rparr>
   in decode_state (encode_state st) = Inr st \<and> decode_state (encode_body_v1 st []) = Inr st"
  unfolding Let_def
  by (rule roundtrip_both_layouts) (simp add: rust_str_def)

text \<open>Whatever payload the decoder accepts (current, legacy or hand-made), writing the decoded
  state back and reading it again gives the same state: the next save migrates a legacy database
  without changing its meaning.\<close>

lemma reencode_preserves:
  assumes "decode_state bs = Inr st"
  shows "decode_state (encode_state st) = Inr st"
  using decode_state_storable[OF assms] by (simp add: decode_encode_state)

lemma reencode_preserves_example:
  "decode_state [1, 0, 0] = Inr (default_persisted\<lparr>ps_armed := True\<rparr>)
   \<and> decode_state (encode_state (default_persisted\<lparr>ps_armed := True\<rparr>))
       = Inr (default_persisted\<lparr>ps_armed := True\<rparr>)"
proof -
  have legacy: "decode_state [1, 0, 0] = Inr (default_persisted\<lparr>ps_armed := True\<rparr>)"
    by (simp add: codec_simps decode_sound_def nth_get_def)
  show ?thesis
    using legacy reencode_preserves[OF legacy] by (rule conjI)
qed




end
