(* ===== verification/Paths.thy ===== *)
theory Paths
  imports Alarm_Prelude
begin

text \<open>
  The parts of \<open>std::path\<close> the daemon uses, on Unix paths as byte strings: \<open>join\<close>,
  \<open>parent\<close>, \<open>file_name\<close>, \<open>extension\<close>, \<open>file_stem\<close>, and a snapshot of the file system
  as \<open>std::fs\<close> shows it (\<open>metadata\<close>, \<open>read_dir\<close>, \<open>Path::exists\<close>).
\<close>

type_synonym path = string

section \<open>Lexical operations\<close>

definition is_absolute :: "path \<Rightarrow> bool" where
  "is_absolute p = (case p of c # _ \<Rightarrow> c = CHR ''/'' | [] \<Rightarrow> False)"

text \<open>\<open>Path::join\<close>: an absolute argument replaces the base.\<close>

definition path_join :: "path \<Rightarrow> path \<Rightarrow> path" where
  "path_join d n =
     (if is_absolute n then n
      else if d = [] then n
      else if last d = CHR ''/'' then d @ n
      else d @ ''/'' @ n)"

text \<open>The components between slashes; empty components and \<open>.\<close> are skipped.\<close>

fun split_slash :: "string \<Rightarrow> string \<Rightarrow> string list" where
  "split_slash acc [] = [rev acc]"
| "split_slash acc (c # cs) =
     (if c = CHR ''/'' then rev acc # split_slash [] cs else split_slash (c # acc) cs)"

definition components :: "path \<Rightarrow> string list" where
  "components p = filter (\<lambda>c. c \<noteq> [] \<and> c \<noteq> ''.'') (split_slash [] p)"

definition file_name :: "path \<Rightarrow> string option" where
  "file_name p =
     (case components p of
        [] \<Rightarrow> None
      | cs \<Rightarrow> if last cs = ''..'' then None else Some (last cs))"

text \<open>\<open>rsplit_file_at_dot\<close>: the last dot splits a file name unless it is its first character.\<close>

definition split_at_dot :: "string \<Rightarrow> string \<times> string option" where
  "split_at_dot n =
     (let ext = rev (takeWhile (\<lambda>c. c \<noteq> CHR ''.'') (rev n));
          before = rev (drop 1 (dropWhile (\<lambda>c. c \<noteq> CHR ''.'') (rev n)))
      in if CHR ''.'' \<in> set n \<and> before \<noteq> [] then (before, Some ext) else (n, None))"

definition file_stem :: "path \<Rightarrow> string option" where
  "file_stem p = map_option (fst \<circ> split_at_dot) (file_name p)"

definition extension :: "path \<Rightarrow> string option" where
  "extension p = Option.bind (file_name p) (snd \<circ> split_at_dot)"

text \<open>\<open>Path::parent\<close>: drop the last component; the root and the empty path have none.\<close>

definition path_parent :: "path \<Rightarrow> path option" where
  "path_parent p =
     (let body = dropWhile (\<lambda>c. c = CHR ''/'') (rev p);
          rest = dropWhile (\<lambda>c. c \<noteq> CHR ''/'') body;
          up = rev (dropWhile (\<lambda>c. c = CHR ''/'') rest)
      in if body = [] then None
         else Some (if up = [] \<and> rest \<noteq> [] then ''/'' else up))"

section \<open>File system snapshot\<close>

text \<open>\<open>fs_metadata\<close> is the length of the file a path leads to (symlinks followed) or the error;
  \<open>fs_read_dir\<close> lists the entry names of a directory, each of which may itself be an error.\<close>

record fs =
  fs_metadata :: "path \<Rightarrow> string + nat"
  fs_read_dir :: "path \<Rightarrow> string + (string + string) list"

definition path_exists :: "fs \<Rightarrow> path \<Rightarrow> bool" where
  "path_exists fs p = (case fs_metadata fs p of Inl _ \<Rightarrow> False | Inr _ \<Rightarrow> True)"

text \<open>A directory entry's name is a single normal component.\<close>

definition entry_name :: "string \<Rightarrow> bool" where
  "entry_name n \<longleftrightarrow> n \<noteq> [] \<and> CHR ''/'' \<notin> set n \<and> n \<noteq> ''.'' \<and> n \<noteq> ''..''"

section \<open>Lemmas\<close>

lemma split_slash_no_slash:
  "CHR ''/'' \<notin> set n \<Longrightarrow> split_slash acc n = [rev acc @ n]"
  by (induction n arbitrary: acc) auto

lemma split_slash_append:
  "split_slash acc (p @ CHR ''/'' # q) = split_slash acc p @ split_slash [] q"
  by (induction p arbitrary: acc) auto

lemma components_Nil [simp]: "components [] = []"
  by (simp add: components_def)

lemma components_append_slash:
  "components (p @ CHR ''/'' # q) = components p @ components q"
  by (simp add: components_def split_slash_append)

lemma components_entry: "entry_name n \<Longrightarrow> components n = [n]"
  by (simp add: components_def entry_name_def split_slash_no_slash)

lemma entry_not_absolute: "entry_name n \<Longrightarrow> \<not> is_absolute n"
  by (auto simp: entry_name_def is_absolute_def split: list.splits)

lemma components_join_entry:
  assumes "entry_name n"
  shows "components (path_join d n) = components d @ [n]"
proof (cases "d = [] \<or> last d \<noteq> CHR ''/''")
  case True
  then show ?thesis
    using assms entry_not_absolute[OF assms] components_append_slash[of d n]
    by (auto simp: path_join_def components_entry)
next
  case False
  then obtain d' where d: "d = d' @ [CHR ''/'']"
    by (metis append_butlast_last_id)
  have "components d = components d'"
    using components_append_slash[of d' "[]"] by (simp add: d components_def)
  then show ?thesis
    using assms entry_not_absolute[OF assms] components_append_slash[of d' n]
    by (simp add: path_join_def d components_entry)
qed

lemma file_name_last:
  "components p = cs @ [n] \<Longrightarrow> n \<noteq> ''..'' \<Longrightarrow> file_name p = Some n"
  by (cases cs) (simp_all add: file_name_def)

lemma file_name_join_entry [simp]: "entry_name n \<Longrightarrow> file_name (path_join d n) = Some n"
  by (rule file_name_last[OF components_join_entry]) (simp_all add: entry_name_def)

lemma takeWhile_dropWhile_dot:
  "x \<in> set n \<Longrightarrow> takeWhile (\<lambda>c. c \<noteq> x) n @ x # drop 1 (dropWhile (\<lambda>c. c \<noteq> x) n) = n"
  by (induction n) auto

lemma split_at_dot_Some:
  assumes "split_at_dot n = (stem, Some ext)"
  shows "n = stem @ ''.'' @ ext \<and> stem \<noteq> []"
proof -
  from assms have dot: "CHR ''.'' \<in> set (rev n)"
    and stem: "stem = rev (drop 1 (dropWhile (\<lambda>c. c \<noteq> CHR ''.'') (rev n)))" "stem \<noteq> []"
    and ext: "ext = rev (takeWhile (\<lambda>c. c \<noteq> CHR ''.'') (rev n))"
    by (auto simp: split_at_dot_def Let_def split: if_splits)
  have "rev n = rev ext @ CHR ''.'' # rev stem"
    using takeWhile_dropWhile_dot[OF dot] by (simp only: stem(1) ext rev_rev_ident)
  then have "n = stem @ ''.'' @ ext"
    by (metis append.assoc append_Cons append_Nil rev.simps(2) rev_append rev_rev_ident)
  with stem(2) show ?thesis by simp
qed

lemma split_at_dot_append:
  assumes "stem \<noteq> []" and "CHR ''.'' \<notin> set ext"
  shows "split_at_dot (stem @ ''.'' @ ext) = (stem, Some ext)"
proof -
  have "takeWhile (\<lambda>c. c \<noteq> CHR ''.'') (rev ext @ CHR ''.'' # rev stem) = rev ext"
    and "dropWhile (\<lambda>c. c \<noteq> CHR ''.'') (rev ext @ CHR ''.'' # rev stem) = CHR ''.'' # rev stem"
    using assms(2) by (simp_all add: takeWhile_append dropWhile_append)
  then show ?thesis
    using assms by (simp add: split_at_dot_def Let_def)
qed

end
