(* ===== verification/Persistence.thy ===== *)
theory Persistence
  imports Persisted_Codec Paths
begin

text \<open>
  The operations of \<open>struct Persistence\<close> (\<open>daemon/persistence/mod.rs\<close>): the lazily opened and
  cached database handle (\<open>lock_db\<close>), \<open>load\<close>, \<open>save\<close> and \<open>evaluate_recovery\<close>.
  The redb crate is not part of the repository; its calls are the fields of the parameter
  \<open>redb_api\<close>, and what the daemon relies on (committed transactions are visible and atomic, reads
  see the committed contents) is the locale \<open>redb_contract\<close>.  A second locale, \<open>state_store\<close>, is
  the contract \<open>Persistence\<close> itself offers to the daemon; the first gives the second.
\<close>

section \<open>Errors\<close>

datatype table_error = TableDoesNotExist string | TableError string

datatype persistence_error =
    PIo string
  | PDatabase string
  | PTxn string
  | PTable table_error
  | PCommit string
  | PRead string
  | Corrupted corruption

section \<open>The database interface\<close>

text \<open>\<open>'w\<close> is the state of the disk, the other parameters are database handles, read transactions,
  opened tables and write transactions.  Errors carry the text redb prints.\<close>

record ('w, 'db, 'rtx, 'tab, 'wtx) redb_api =
  r_exists :: "path \<Rightarrow> 'w \<Rightarrow> bool"
  r_create_dir_all :: "path \<Rightarrow> 'w \<Rightarrow> (string + unit) \<times> 'w"
  r_create :: "path \<Rightarrow> 'w \<Rightarrow> (string + 'db) \<times> 'w"
  r_begin_read :: "'db \<Rightarrow> 'w \<Rightarrow> string + 'rtx"
  r_open_table :: "'rtx \<Rightarrow> string \<Rightarrow> table_error + 'tab"
  r_get :: "'tab \<Rightarrow> string \<Rightarrow> string + bytes option"
  r_begin_write :: "'db \<Rightarrow> 'w \<Rightarrow> string + 'wtx"
  r_open_table_mut :: "'wtx \<Rightarrow> string \<Rightarrow> table_error + 'wtx"
  r_insert :: "'wtx \<Rightarrow> string \<Rightarrow> string \<Rightarrow> bytes \<Rightarrow> string + 'wtx"
  r_commit :: "'wtx \<Rightarrow> 'w \<Rightarrow> (string + unit) \<times> 'w"

definition STATE_TABLE :: string where
  "STATE_TABLE = ''state''"

definition STATE_KEY :: string where
  "STATE_KEY = ''v1''"

section \<open>\<open>struct Persistence\<close>\<close>

text \<open>\<open>p_db\<close> is the content of the mutex: the cached handle.  The mutex itself is recovered from
  poisoning by the code and adds no failure.\<close>

record 'db persistence =
  p_path :: path
  p_db :: "'db option"

definition from_path :: "path \<Rightarrow> 'db persistence" where
  "from_path p = \<lparr>p_path = p, p_db = None\<rparr>"

definition lock_db ::
  "('w, 'db, 'rtx, 'tab, 'wtx) redb_api \<Rightarrow> 'db persistence \<Rightarrow> 'w \<Rightarrow>
   (persistence_error + 'db option) \<times> 'db persistence \<times> 'w" where
  "lock_db api p w =
     (case p_db p of
        Some db \<Rightarrow> (Inr (Some db), p, w)
      | None \<Rightarrow>
          (case (case path_parent (p_path p) of
                   None \<Rightarrow> (Inr (), w)
                 | Some parent \<Rightarrow> r_create_dir_all api parent w) of
             (Inl e, w1) \<Rightarrow> (Inl (PIo e), p, w1)
           | (Inr _, w1) \<Rightarrow>
               (case r_create api (p_path p) w1 of
                  (Inl e, w2) \<Rightarrow> (Inl (PDatabase e), p, w2)
                | (Inr db, w2) \<Rightarrow> (Inr (Some db), p\<lparr>p_db := Some db\<rparr>, w2))))"

definition load_from ::
  "('w, 'db, 'rtx, 'tab, 'wtx) redb_api \<Rightarrow> 'db \<Rightarrow> 'w \<Rightarrow> persistence_error + persisted_state" where
  "load_from api db w =
     bind_r (map_err PTxn (r_begin_read api db w)) (\<lambda>rtx.
     (case r_open_table api rtx STATE_TABLE of
        Inl (TableDoesNotExist _) \<Rightarrow> Inr default_persisted
      | Inl e \<Rightarrow> Inl (PTable e)
      | Inr tab \<Rightarrow>
          bind_r (map_err PRead (r_get api tab STATE_KEY)) (\<lambda>raw.
          (case raw of
             None \<Rightarrow> Inr default_persisted
           | Some bs \<Rightarrow> map_err Corrupted (decode_state bs)))))"

definition load ::
  "('w, 'db, 'rtx, 'tab, 'wtx) redb_api \<Rightarrow> 'db persistence \<Rightarrow> 'w \<Rightarrow>
   (persistence_error + persisted_state) \<times> 'db persistence \<times> 'w" where
  "load api p w =
     (if \<not> r_exists api (p_path p) w then (Inr default_persisted, p, w)
      else (case lock_db api p w of
              (Inl e, p', w') \<Rightarrow> (Inl e, p', w')
            | (Inr None, p', w') \<Rightarrow> (Inr default_persisted, p', w')
            | (Inr (Some db), p', w') \<Rightarrow> (load_from api db w', p', w')))"

definition save_to ::
  "('w, 'db, 'rtx, 'tab, 'wtx) redb_api \<Rightarrow> 'db \<Rightarrow> persisted_state \<Rightarrow> 'w \<Rightarrow>
   (persistence_error + unit) \<times> 'w" where
  "save_to api db st w =
     (case bind_r (map_err PTxn (r_begin_write api db w)) (\<lambda>wtx.
           bind_r (map_err PTable (r_open_table_mut api wtx STATE_TABLE)) (\<lambda>wtx1.
             map_err PRead (r_insert api wtx1 STATE_TABLE STATE_KEY (encode_state st)))) of
        Inl e \<Rightarrow> (Inl e, w)
      | Inr wtx2 \<Rightarrow> (case r_commit api wtx2 w of (r, w') \<Rightarrow> (map_err PCommit r, w')))"

definition save ::
  "('w, 'db, 'rtx, 'tab, 'wtx) redb_api \<Rightarrow> 'db persistence \<Rightarrow> persisted_state \<Rightarrow> 'w \<Rightarrow>
   (persistence_error + unit) \<times> 'db persistence \<times> 'w" where
  "save api p st w =
     (case lock_db api p w of
        (Inl e, p', w') \<Rightarrow> (Inl e, p', w')
      | (Inr None, p', w') \<Rightarrow> (Inl (Corrupted HandleUnavailable), p', w')
      | (Inr (Some db), p', w') \<Rightarrow> (case save_to api db st w' of (r, w'') \<Rightarrow> (r, p', w'')))"

record startup_recovery =
  missed_while_down :: bool

definition evaluate_recovery :: "int \<Rightarrow> persisted_state \<Rightarrow> startup_recovery" where
  "evaluate_recovery clk st =
     \<lparr>missed_while_down =
        (ps_armed st \<and>
         (case ps_next_fire_unix_ms st of None \<Rightarrow> False | Some t \<Rightarrow> i64_le t (unix_now_ms clk)))\<rparr>"

section \<open>What redb promises\<close>

text \<open>\<open>committed w p\<close> is the committed contents of the database file \<open>p\<close>: a map from table names to
  tables (no tables when there is no file).  The views of the handles say which file a handle is
  open on and which contents a transaction or table shows.\<close>

type_synonym tables = "string \<Rightarrow> (string \<Rightarrow> bytes option) option"

record ('w, 'db, 'rtx, 'tab, 'wtx) redb_view =
  committed :: "'w \<Rightarrow> path \<Rightarrow> tables"
  db_file :: "'db \<Rightarrow> path"
  rtx_view :: "'rtx \<Rightarrow> tables"
  tab_view :: "'tab \<Rightarrow> string \<Rightarrow> bytes option"
  wtx_view :: "'wtx \<Rightarrow> tables"
  wtx_file :: "'wtx \<Rightarrow> path"

definition opened :: "tables \<Rightarrow> string \<Rightarrow> tables" where
  "opened ts t = ts(t := Some (case ts t of None \<Rightarrow> Map.empty | Some m \<Rightarrow> m))"

definition put :: "tables \<Rightarrow> string \<Rightarrow> string \<Rightarrow> bytes \<Rightarrow> tables" where
  "put ts t k v = ts(t := Some ((case ts t of None \<Rightarrow> Map.empty | Some m \<Rightarrow> m)(k := Some v)))"

definition lookup_bytes :: "tables \<Rightarrow> bytes option" where
  "lookup_bytes ts = (case ts STATE_TABLE of None \<Rightarrow> None | Some m \<Rightarrow> m STATE_KEY)"

locale redb_contract =
  fixes api :: "('w, 'db, 'rtx, 'tab, 'wtx) redb_api"
    and view :: "('w, 'db, 'rtx, 'tab, 'wtx) redb_view"
  assumes absent: "\<not> r_exists api p w \<Longrightarrow> committed view w p = Map.empty"
    and mkdir: "r_create_dir_all api d w = (r, w') \<Longrightarrow> committed view w' = committed view w"
    and create: "r_create api p w = (dbr, w') \<Longrightarrow> committed view w' = committed view w"
    and create_file: "r_create api p w = (Inr db, w') \<Longrightarrow> db_file view db = p"
    and begin_read: "r_begin_read api db w = Inr rtx \<Longrightarrow>
      rtx_view view rtx = committed view w (db_file view db)"
    and open_missing: "r_open_table api rtx t = Inl (TableDoesNotExist n) \<Longrightarrow>
      rtx_view view rtx t = None"
    and open_table: "r_open_table api rtx t = Inr tab \<Longrightarrow>
      rtx_view view rtx t = Some (tab_view view tab)"
    and get: "r_get api tab k = Inr raw \<Longrightarrow> raw = tab_view view tab k"
    and begin_write: "r_begin_write api db w = Inr wtx \<Longrightarrow>
      wtx_view view wtx = committed view w (db_file view db) \<and> wtx_file view wtx = db_file view db"
    and open_table_mut: "r_open_table_mut api wtx t = Inr wtx' \<Longrightarrow>
      wtx_view view wtx' = opened (wtx_view view wtx) t \<and> wtx_file view wtx' = wtx_file view wtx"
    and insert: "r_insert api wtx t k v = Inr wtx' \<Longrightarrow>
      wtx_view view wtx' = put (wtx_view view wtx) t k v \<and> wtx_file view wtx' = wtx_file view wtx"
    and commit_ok: "r_commit api wtx w = (Inr u, w') \<Longrightarrow>
      committed view w' = (committed view w)(wtx_file view wtx := wtx_view view wtx)"
    and commit_err: "r_commit api wtx w = (Inl e, w') \<Longrightarrow>
      committed view w' = committed view w \<or>
      committed view w' = (committed view w)(wtx_file view wtx := wtx_view view wtx)"

text \<open>A disk on which no call fails and a created file exists.\<close>

locale redb_reliable = redb_contract +
  assumes mkdir_total: "\<exists>w'. r_create_dir_all api d w = (Inr (), w')"
    and create_total: "\<exists>db w'. r_create api p w = (Inr db, w')"
    and begin_read_total: "\<exists>rtx. r_begin_read api db w = Inr rtx"
    and open_total: "\<exists>tab n. r_open_table api rtx t \<in> {Inr tab, Inl (TableDoesNotExist n)}"
    and get_total: "\<exists>raw. r_get api tab k = Inr raw"
    and begin_write_total: "\<exists>wtx. r_begin_write api db w = Inr wtx"
    and open_mut_total: "\<exists>wtx'. r_open_table_mut api wtx t = Inr wtx'"
    and insert_total: "\<exists>wtx'. r_insert api wtx t k v = Inr wtx'"
    and commit_total: "\<exists>w'. r_commit api wtx w = (Inr (), w')"

section \<open>What \<open>Persistence\<close> promises\<close>

text \<open>A handle is sound when its cached database, if any, is open on its own path.\<close>

definition handle_ok ::
  "('w, 'db, 'rtx, 'tab, 'wtx) redb_view \<Rightarrow> 'db persistence \<Rightarrow> bool" where
  "handle_ok view p \<longleftrightarrow> (case p_db p of None \<Rightarrow> True | Some db \<Rightarrow> db_file view db = p_path p)"

definition stored ::
  "('w, 'db, 'rtx, 'tab, 'wtx) redb_view \<Rightarrow> path \<Rightarrow> 'w \<Rightarrow> bytes option" where
  "stored view p w = lookup_bytes (committed view w p)"

locale state_store =
  fixes ld :: "'h \<Rightarrow> 'w \<Rightarrow> ('e + persisted_state) \<times> 'h \<times> 'w"
    and sv :: "'h \<Rightarrow> persisted_state \<Rightarrow> 'w \<Rightarrow> ('e + unit) \<times> 'h \<times> 'w"
    and ok :: "'h \<Rightarrow> bool"
    and val :: "'h \<Rightarrow> 'w \<Rightarrow> bytes option"
    and floc :: "'h \<Rightarrow> path"
  assumes ld_keeps: "ok h \<Longrightarrow> ld h w = (r, h', w') \<Longrightarrow> ok h' \<and> floc h' = floc h \<and> val h' w' = val h w"
    and ld_value: "ok h \<Longrightarrow> ld h w = (Inr st, h', w') \<Longrightarrow>
      (case val h w of None \<Rightarrow> st = default_persisted | Some bs \<Rightarrow> decode_state bs = Inr st)"
    and sv_keeps: "ok h \<Longrightarrow> sv h st w = (res, h', w') \<Longrightarrow> ok h' \<and> floc h' = floc h"
    and sv_ok: "ok h \<Longrightarrow> sv h st w = (Inr u, h', w') \<Longrightarrow> val h' w' = Some (encode_state st)"
    and sv_err: "ok h \<Longrightarrow> sv h st w = (Inl e, h', w') \<Longrightarrow>
      val h' w' = val h w \<or> val h' w' = Some (encode_state st)"
    and val_file: "floc h = floc h' \<Longrightarrow> val h w = val h' w"
begin

text \<open>A reader that opens the same file after a successful save, through any handle, can only
  read the saved state back.\<close>

lemma read_back:
  assumes "ok h" "sv h st w = (Inr u, h', w')" "storable st"
    and "ok g" "floc g = floc h" "ld g w' = (Inr st', g', w'')"
  shows "st' = st"
proof -
  have "val h' w' = Some (encode_state st)"
    using assms(1,2) by (rule sv_ok)
  moreover have "val g w' = val h' w'"
    by (rule val_file) (use sv_keeps[OF assms(1,2)] assms(5) in simp)
  ultimately show ?thesis
    using ld_value[OF assms(4,6)] assms(3) by (simp add: decode_encode_state)
qed

text \<open>A save is atomic: afterwards the file holds the old payload or the new one.\<close>

lemma save_atomic:
  assumes "ok h" "sv h st w = (r, h', w')"
  shows "val h' w' \<in> {val h w, Some (encode_state st)}"
proof (cases r)
  case (Inl e)
  then show ?thesis using assms sv_err by blast
next
  case (Inr u)
  then show ?thesis using assms sv_ok by blast
qed

end

section \<open>The store contract from the redb contract\<close>

context redb_contract
begin

lemma lock_db_keeps:
  assumes "handle_ok view p" "lock_db api p w = (r, p', w')"
  shows "handle_ok view p' \<and> p_path p' = p_path p \<and> committed view w' = committed view w
    \<and> (\<forall>db. r = Inr (Some db) \<longrightarrow> db_file view db = p_path p) \<and> r \<noteq> Inr None"
proof (cases "p_db p")
  case (Some db)
  then show ?thesis using assms by (auto simp: lock_db_def handle_ok_def)
next
  case None
  let ?mk = "case path_parent (p_path p) of
      None \<Rightarrow> (Inr (), w) | Some parent \<Rightarrow> r_create_dir_all api parent w"
  obtain r1 w1 where mk: "?mk = (r1, w1)" by (cases ?mk)
  obtain dbr w2 where cr: "r_create api (p_path p) w1 = (dbr, w2)"
    by (cases "r_create api (p_path p) w1")
  have same: "committed view w1 = committed view w"
    using mk by (auto split: option.splits dest: mkdir)
  have same2: "committed view w2 = committed view w1"
    using cr by (rule create)
  show ?thesis
  proof (cases r1)
    case (Inl e)
    then show ?thesis using assms None mk same by (auto simp: lock_db_def handle_ok_def)
  next
    case (Inr u)
    then show ?thesis
      using assms None mk cr same same2 create_file
      by (cases dbr) (auto simp: lock_db_def handle_ok_def)
  qed
qed

lemma load_from_value:
  assumes "load_from api db w = Inr st"
  shows "case lookup_bytes (committed view w (db_file view db)) of
    None \<Rightarrow> st = default_persisted | Some bs \<Rightarrow> decode_state bs = Inr st"
proof -
  obtain rtx where rtx: "r_begin_read api db w = Inr rtx"
    using assms by (auto simp: load_from_def bind_r_eq_Inr)
  have view_rtx: "committed view w (db_file view db) = rtx_view view rtx"
    using begin_read[OF rtx] by simp
  show ?thesis
  proof (cases "r_open_table api rtx STATE_TABLE")
    case (Inl e)
    then show ?thesis
      using assms rtx view_rtx open_missing
      by (cases e) (auto simp: load_from_def lookup_bytes_def)
  next
    case (Inr tab)
    then obtain raw where raw: "r_get api tab STATE_KEY = Inr raw"
      using assms rtx by (auto simp: load_from_def bind_r_eq_Inr)
    show ?thesis
      using assms rtx view_rtx Inr raw open_table[OF Inr] get[OF raw]
      by (auto simp: load_from_def lookup_bytes_def split: option.splits)
  qed
qed

lemma save_to_ok:
  assumes "save_to api db st w = (Inr u, w')"
  shows "lookup_bytes (committed view w' (db_file view db)) = Some (encode_state st)"
  using assms
  by (auto simp: save_to_def lookup_bytes_def bind_r_eq_Inr opened_def put_def map_err_def
      split: sum.splits prod.splits dest!: begin_write open_table_mut insert commit_ok)

lemma save_to_err:
  assumes "save_to api db st w = (Inl e, w')"
  shows "lookup_bytes (committed view w' (db_file view db)) \<in>
    {lookup_bytes (committed view w (db_file view db)), Some (encode_state st)}"
  using assms
  by (auto simp: save_to_def lookup_bytes_def bind_r_eq_Inr opened_def put_def map_err_def
      split: sum.splits prod.splits dest!: begin_write open_table_mut insert commit_err)

lemma load_cases:
  assumes "handle_ok view h" "load api h w = (r, h', w')"
  shows "handle_ok view h' \<and> p_path h' = p_path h \<and> committed view w' = committed view w
    \<and> (r = Inr default_persisted \<and> \<not> r_exists api (p_path h) w \<or> (\<exists>e. r = Inl e)
       \<or> (\<exists>db. db_file view db = p_path h \<and> r = load_from api db w'))"
proof (cases "r_exists api (p_path h) w")
  case False
  then show ?thesis using assms by (auto simp: load_def)
next
  case True
  obtain lr h1 w1 where lk: "lock_db api h w = (lr, h1, w1)" by (cases "lock_db api h w")
  note keeps = lock_db_keeps[OF assms(1) lk]
  show ?thesis
  proof (cases lr)
    case (Inl e)
    then show ?thesis using True assms(2) lk keeps by (auto simp: load_def)
  next
    case (Inr dbo)
    then show ?thesis using True assms(2) lk keeps by (cases dbo) (auto simp: load_def)
  qed
qed

lemma save_cases:
  assumes "handle_ok view h" "save api h st w = (r, h', w')"
  shows "handle_ok view h' \<and> p_path h' = p_path h
    \<and> ((\<exists>e. r = Inl e) \<and> committed view w' = committed view w
       \<or> (\<exists>db w1. db_file view db = p_path h \<and> committed view w1 = committed view w
            \<and> save_to api db st w1 = (r, w')))"
proof -
  obtain lr h1 w1 where lk: "lock_db api h w = (lr, h1, w1)" by (cases "lock_db api h w")
  note keeps = lock_db_keeps[OF assms(1) lk]
  show ?thesis
  proof (cases lr)
    case (Inl e)
    then show ?thesis using assms(2) lk keeps by (auto simp: save_def)
  next
    case (Inr dbo)
    then obtain db where "dbo = Some db" using keeps by (cases dbo) auto
    with Inr show ?thesis using assms(2) lk keeps by (auto simp: save_def split: prod.splits)
  qed
qed

end

sublocale redb_contract \<subseteq> store: state_store "load api" "save api" "handle_ok view"
  "\<lambda>p. stored view (p_path p)" p_path
proof unfold_locales
  fix h w r h' w'
  assume "handle_ok view h" and "load api h w = (r, h', w')"
  from load_cases[OF this]
  show "handle_ok view h' \<and> p_path h' = p_path h \<and> stored view (p_path h') w' = stored view (p_path h) w"
    by (simp add: stored_def)
next
  fix h w st h' w'
  assume "handle_ok view h" and ld: "load api h w = (Inr st, h', w')"
  from load_cases[OF this] absent[of "p_path h" w]
  show "case stored view (p_path h) w of None \<Rightarrow> st = default_persisted | Some bs \<Rightarrow> decode_state bs = Inr st"
    by (auto simp: stored_def lookup_bytes_def[of Map.empty] dest!: load_from_value[OF sym])
next
  fix h st w r h' w'
  assume "handle_ok view h" "save api h st w = (r, h', w')"
  from save_cases[OF this] show "handle_ok view h' \<and> p_path h' = p_path h" by simp
next
  fix h st w u h' w'
  assume "handle_ok view h" "save api h st w = (Inr u, h', w')"
  from save_cases[OF this] show "stored view (p_path h') w' = Some (encode_state st)"
    by (auto simp: stored_def dest!: save_to_ok)
next
  fix h st w e h' w'
  assume "handle_ok view h" "save api h st w = (Inl e, h', w')"
  from save_cases[OF this]
  show "stored view (p_path h') w' = stored view (p_path h) w
      \<or> stored view (p_path h') w' = Some (encode_state st)"
    by (auto simp: stored_def dest!: save_to_err)
next
  fix h h' :: "'b persistence" and w
  assume "p_path h = p_path h'"
  then show "stored view (p_path h) w = stored view (p_path h') w" by simp
qed

context redb_contract
begin

lemmas store_read_back = store.read_back
  and store_save_atomic = store.save_atomic
  and store_sv_ok = store.sv_ok
  and store_sv_keeps = store.sv_keeps
  and store_ld_keeps = store.ld_keeps

end

context redb_reliable
begin

lemma lock_db_total:
  assumes "handle_ok view p"
  shows "\<exists>db p' w'. lock_db api p w = (Inr (Some db), p', w')"
proof (cases "p_db p")
  case (Some db)
  then show ?thesis by (simp add: lock_db_def)
next
  case None
  obtain w1 where mk: "(case path_parent (p_path p) of
      None \<Rightarrow> (Inr (), w) | Some parent \<Rightarrow> r_create_dir_all api parent w) = (Inr (), w1)"
    using mkdir_total by (cases "path_parent (p_path p)") auto
  obtain db w2 where "r_create api (p_path p) w1 = (Inr db, w2)"
    using create_total by blast
  with None mk show ?thesis by (simp add: lock_db_def)
qed

lemma save_total:
  assumes "handle_ok view p"
  shows "\<exists>p' w'. save api p st w = (Inr (), p', w')"
proof -
  obtain db p1 w1 where lk: "lock_db api p w = (Inr (Some db), p1, w1)"
    using lock_db_total[OF assms] by blast
  obtain wtx where "r_begin_write api db w1 = Inr wtx" using begin_write_total by blast
  moreover obtain wtx1 where "r_open_table_mut api wtx STATE_TABLE = Inr wtx1"
    using open_mut_total by blast
  moreover obtain wtx2 where "r_insert api wtx1 STATE_TABLE STATE_KEY (encode_state st) = Inr wtx2"
    using insert_total by blast
  moreover obtain w2 where "r_commit api wtx2 w1 = (Inr (), w2)" using commit_total by blast
  ultimately show ?thesis using lk by (simp add: save_def save_to_def)
qed

lemma load_total_decoded:
  assumes "handle_ok view p" "stored view (p_path p) w = Some bs" "decode_state bs = Inr st"
  shows "\<exists>p' w'. load api p w = (Inr st, p', w')"
proof -
  have ex: "r_exists api (p_path p) w"
    using absent[of "p_path p" w] assms(2)
    by (cases "r_exists api (p_path p) w") (simp_all add: stored_def lookup_bytes_def)
  obtain db p1 w1 where lk: "lock_db api p w = (Inr (Some db), p1, w1)"
    using lock_db_total[OF assms(1)] by blast
  have keeps: "db_file view db = p_path p" "committed view w1 = committed view w"
    using lock_db_keeps[OF assms(1) lk] by auto
  obtain rtx where rtx: "r_begin_read api db w1 = Inr rtx" using begin_read_total by blast
  have view_rtx: "rtx_view view rtx = committed view w (p_path p)"
    using begin_read[OF rtx] keeps by simp
  obtain tab where tab: "r_open_table api rtx STATE_TABLE = Inr tab"
    using open_total[of rtx STATE_TABLE] open_missing[of rtx STATE_TABLE] view_rtx assms(2)
    by (auto simp: stored_def lookup_bytes_def)
  obtain raw where raw: "r_get api tab STATE_KEY = Inr raw" using get_total by blast
  have "raw = Some bs"
    using get[OF raw] open_table[OF tab] view_rtx assms(2)
    by (simp add: stored_def lookup_bytes_def)
  with ex lk rtx tab raw assms(3) show ?thesis
    by (simp add: load_def load_from_def)
qed

lemma load_total:
  assumes "handle_ok view p" "stored view (p_path p) w = Some (encode_state st)" "storable st"
  shows "\<exists>p' w'. load api p w = (Inr st, p', w')"
  using load_total_decoded[OF assms(1,2)] assms(3) by (simp add: decode_encode_state)

end

section \<open>A transactional store in memory\<close>

text \<open>A concrete disk that keeps the promises: a finite map from file names to databases, whose
  transactions copy the committed contents and write them back on commit.  It shows that the
  contract is consistent and gives the witnesses something to run.\<close>

type_synonym mem_disk = "path \<Rightarrow> tables option"

definition mem_tables :: "mem_disk \<Rightarrow> path \<Rightarrow> tables" where
  "mem_tables w p = (case w p of None \<Rightarrow> Map.empty | Some ts \<Rightarrow> ts)"

definition mem_api :: "(mem_disk, path, tables, string \<Rightarrow> bytes option, path \<times> tables) redb_api" where
  "mem_api =
     \<lparr>r_exists = (\<lambda>p w. w p \<noteq> None),
      r_create_dir_all = (\<lambda>d w. (Inr (), w)),
      r_create = (\<lambda>p w. (Inr p, w(p := Some (mem_tables w p)))),
      r_begin_read = (\<lambda>db w. Inr (mem_tables w db)),
      r_open_table = (\<lambda>ts t. case ts t of None \<Rightarrow> Inl (TableDoesNotExist t) | Some m \<Rightarrow> Inr m),
      r_get = (\<lambda>m k. Inr (m k)),
      r_begin_write = (\<lambda>db w. Inr (db, mem_tables w db)),
      r_open_table_mut = (\<lambda>x t. Inr (fst x, opened (snd x) t)),
      r_insert = (\<lambda>x t k v. Inr (fst x, put (snd x) t k v)),
      r_commit = (\<lambda>x w. (Inr (), w(fst x := Some (snd x))))\<rparr>"

definition mem_view :: "(mem_disk, path, tables, string \<Rightarrow> bytes option, path \<times> tables) redb_view" where
  "mem_view =
     \<lparr>committed = mem_tables, db_file = (\<lambda>p. p), rtx_view = (\<lambda>ts. ts), tab_view = (\<lambda>m. m),
      wtx_view = snd, wtx_file = fst\<rparr>"

lemma mem_tables_upd [simp]: "mem_tables (w(p := Some ts)) = (mem_tables w)(p := ts)"
  by (simp add: mem_tables_def fun_eq_iff)

lemma mem_tables_absent [simp]: "w p = None \<Longrightarrow> mem_tables w p = Map.empty"
  by (simp add: mem_tables_def)

interpretation mem: redb_reliable mem_api mem_view
  by unfold_locales (auto simp: mem_api_def mem_view_def split: option.splits)

section \<open>Properties\<close>

text \<open>On a disk that keeps the redb contract, once \<open>save\<close> has returned \<open>Ok\<close> for a storable
  state, every later \<open>load\<close> that returns a state returns that one, whichever handle on the same
  path does it (the one that saved or a fresh one after a restart).\<close>

lemma load_after_save:
  assumes "redb_contract api view" and "handle_ok view p" and "storable st"
    and "save api p st w = (Inr (), p1, w1)"
    and "handle_ok view q" and "p_path q = p_path p"
    and "load api q w1 = (Inr st', q1, w2)"
  shows "st' = st"
  by (rule redb_contract.store_read_back[OF assms(1,2,4,3,5,6,7)])

lemma load_after_save_example:
  "\<exists>p1 w1 q1 w2 st'. save mem_api (from_path ''/s.redb'') default_persisted Map.empty = (Inr (), p1, w1)
     \<and> load mem_api (from_path ''/s.redb'') w1 = (Inr st', q1, w2) \<and> st' = default_persisted"
proof -
  have ok: "handle_ok mem_view (from_path ''/s.redb'')"
    by (simp add: handle_ok_def from_path_def)
  have st: "storable default_persisted"
    by (simp add: storable_def default_persisted_def)
  obtain p1 w1 where sv:
    "save mem_api (from_path ''/s.redb'') default_persisted Map.empty = (Inr (), p1, w1)"
    using mem.save_total[OF ok] by blast
  have "stored mem_view ''/s.redb'' w1 = Some (encode_state default_persisted)"
    using mem.store.sv_ok[OF ok sv] mem.store.sv_keeps[OF ok sv] by (simp add: from_path_def)
  then obtain q1 w2 st' where ld: "load mem_api (from_path ''/s.redb'') w1 = (Inr st', q1, w2)"
    using mem.load_total[OF ok _ st] by (fastforce simp: from_path_def)
  have "st' = default_persisted"
    by (rule load_after_save[OF mem.redb_contract_axioms ok st sv ok refl ld])
  with sv ld show ?thesis by blast
qed

text \<open>On a disk where additionally no call fails, \<open>save\<close> returns \<open>Ok\<close> and every later \<open>load\<close>
  of that path returns exactly the saved state.\<close>

lemma save_load_reliable:
  assumes "redb_reliable api view" and "handle_ok view p" and "storable st"
  shows "\<exists>p1 w1. save api p st w = (Inr (), p1, w1)
    \<and> (\<forall>q. handle_ok view q \<longrightarrow> p_path q = p_path p \<longrightarrow> fst (load api q w1) = Inr st)"
proof -
  obtain p1 w1 where sv: "save api p st w = (Inr (), p1, w1)"
    using redb_reliable.save_total[OF assms(1,2)] by blast
  have contract: "redb_contract api view"
    using assms(1) by (rule redb_reliable.axioms(1))
  have "stored view (p_path p) w1 = Some (encode_state st)"
    using redb_contract.store_sv_ok[OF contract assms(2) sv] redb_contract.store_sv_keeps[OF contract assms(2) sv]
    by simp
  then have "fst (load api q w1) = Inr st" if "handle_ok view q" "p_path q = p_path p" for q
    using redb_reliable.load_total[OF assms(1) that(1) _ assms(3)] that(2) by fastforce
  with sv show ?thesis by blast
qed

lemma save_load_reliable_example:
  "\<exists>p1 w1. save mem_api (from_path ''/s.redb'') default_persisted Map.empty = (Inr (), p1, w1)
     \<and> fst (load mem_api (from_path ''/s.redb'') w1) = Inr default_persisted"
  using save_load_reliable[OF mem.redb_reliable_axioms, of "from_path ''/s.redb''" default_persisted Map.empty]
  by (auto simp: handle_ok_def from_path_def storable_def default_persisted_def)

text \<open>C26: a save is atomic: whether it returns \<open>Ok\<close> or an error, the stored value afterwards is the
  old one or the encoding of the new state, and after \<open>Ok\<close> it is the new one.\<close>

theorem save_is_atomic:
  assumes "redb_contract api view" and "handle_ok view p" and "save api p st w = (r, p1, w1)"
  shows "stored view (p_path p) w1 \<in> {stored view (p_path p) w, Some (encode_state st)}
    \<and> (r = Inr () \<longrightarrow> stored view (p_path p) w1 = Some (encode_state st))"
  using redb_contract.store_save_atomic[OF assms] redb_contract.store_sv_ok[OF assms(1,2)]
    redb_contract.store_sv_keeps[OF assms] assms(3)
  by fastforce

theorem save_is_atomic_witness:
  "stored mem_view ''/s.redb'' (snd (snd (save mem_api (from_path ''/s.redb'') default_persisted Map.empty)))
     \<in> {None, Some (encode_state default_persisted)}"
proof -
  obtain r p1 w1 where
    sv: "save mem_api (from_path ''/s.redb'') default_persisted Map.empty = (r, p1, w1)"
    by (cases "save mem_api (from_path ''/s.redb'') default_persisted Map.empty")
  have "handle_ok mem_view (from_path ''/s.redb'')"
    by (simp add: handle_ok_def from_path_def)
  then show ?thesis
    using save_is_atomic[OF mem.redb_contract_axioms _ sv] sv
    by (simp add: from_path_def stored_def mem_view_def mem_tables_def lookup_bytes_def)
qed

text \<open>\<open>evaluate_recovery\<close> reports a missed alarm exactly for an armed state whose fire time is
  not after the current wall-clock millisecond (clocks from the epoch to the \<open>i64\<close> range).\<close>

lemma recovery_flag_exact:
  assumes "0 \<le> clk" and "clk div 1000000 \<le> i64_max"
  shows "missed_while_down (evaluate_recovery clk st) \<longleftrightarrow>
    ps_armed st \<and> (\<exists>t. ps_next_fire_unix_ms st = Some t \<and> sint t \<le> clk div 1000000)"
  using sint_unix_now_ms[OF assms]
  by (auto simp: evaluate_recovery_def i64_le_def split: option.splits)

lemma recovery_flag_exact_example:
  "missed_while_down (evaluate_recovery 2000000
     \<lparr>ps_armed = True, ps_next_fire_unix_ms = Some 2, ps_current_sound = None\<rparr>)"
  using recovery_flag_exact[of 2000000 "\<lparr>ps_armed = True, ps_next_fire_unix_ms = Some 2, ps_current_sound = None\<rparr>"]
  by (simp add: i64_max_def)

end
