(* ===== verification/Daemon.thy ===== *)
theory Daemon
  imports Persistence
begin

text \<open>
  The component \<open>daemon/\<close>: \<open>AlarmStatus\<close>, \<open>Transition\<close>, the in-memory \<open>State\<close> and the
  operations of \<open>AlarmDaemon\<close> (\<open>new_persistent\<close>, the arming operations, \<open>disarm\<close>, \<open>status\<close>,
  \<open>current_sound\<close>, \<open>transition_to\<close>).  \<open>transition_to\<close> is composed of the two parts the source
  separates by dropping the write lock: the swap of the in-memory state and the write of the
  snapshot.  The locale \<open>alarm_device\<close> is what the control object relies on.
\<close>

section \<open>Data\<close>

datatype alarm_status = Disarmed | Armed

definition is_armed :: "alarm_status \<Rightarrow> bool" where
  "is_armed s = (case s of Armed \<Rightarrow> True | Disarmed \<Rightarrow> False)"

datatype transition = NoChange | Changed (tr_from: alarm_status) (tr_to: alarm_status)

record state =
  st_status :: alarm_status
  st_next_fire_unix_ms :: "i64 option"
  st_current_sound :: "string option"

definition state_disarmed :: state where
  "state_disarmed = \<lparr>st_status = Disarmed, st_next_fire_unix_ms = None, st_current_sound = None\<rparr>"

definition state_armed :: "string option \<Rightarrow> i64 option \<Rightarrow> state" where
  "state_armed sound_id next_fire =
     \<lparr>st_status = Armed, st_next_fire_unix_ms = next_fire, st_current_sound = sound_id\<rparr>"

definition to_persisted :: "state \<Rightarrow> persisted_state" where
  "to_persisted s =
     \<lparr>ps_armed = is_armed (st_status s), ps_next_fire_unix_ms = st_next_fire_unix_ms s,
      ps_current_sound = st_current_sound s\<rparr>"

section \<open>\<open>struct AlarmDaemon\<close>\<close>

record 'db alarm_daemon =
  d_inner :: state
  d_persistence :: "'db persistence option"

text \<open>\<open>AlarmDaemon::new\<close> is the derived default: disarmed, no persistence.\<close>

definition daemon_new :: "'db alarm_daemon" where
  "daemon_new = \<lparr>d_inner = state_disarmed, d_persistence = None\<rparr>"

definition restored_state :: "persisted_state \<Rightarrow> state" where
  "restored_state persisted =
     \<lparr>st_status = (if ps_armed persisted then Armed else Disarmed),
      st_next_fire_unix_ms = ps_next_fire_unix_ms persisted,
      st_current_sound = ps_current_sound persisted\<rparr>"

definition new_persistent ::
  "('w, 'db, 'rtx, 'tab, 'wtx) redb_api \<Rightarrow> int \<Rightarrow> 'db persistence \<Rightarrow> 'w \<Rightarrow>
   (persistence_error + 'db alarm_daemon \<times> startup_recovery) \<times> 'w" where
  "new_persistent api clk p w =
     (case load api p w of
        (Inl e, p', w') \<Rightarrow> (Inl e, w')
      | (Inr persisted, p', w') \<Rightarrow>
          (Inr (\<lparr>d_inner = restored_state persisted, d_persistence = Some p'\<rparr>,
                evaluate_recovery clk persisted), w'))"

text \<open>The part of \<open>transition_to\<close> under the write lock: \<open>None\<close> when the state already matches,
  otherwise the previous status, the new one and the snapshot to persist.\<close>

definition swap_state ::
  "state \<Rightarrow> 'db alarm_daemon \<Rightarrow> (alarm_status \<times> alarm_status \<times> persisted_state) option \<times> 'db alarm_daemon" where
  "swap_state desired d =
     (if d_inner d = desired then (None, d)
      else (Some (st_status (d_inner d), st_status desired, to_persisted desired),
            d\<lparr>d_inner := desired\<rparr>))"

text \<open>The part behind it: the snapshot is saved on the blocking pool.  \<open>cancelled\<close> says that the
  runtime dropped the blocking task before it started (the \<open>JoinError\<close> branch); the outcome is
  only logged.\<close>

datatype persist_outcome = NoStore | JoinFailed | Saved "persistence_error + unit"

definition persist_snapshot ::
  "('w, 'db, 'rtx, 'tab, 'wtx) redb_api \<Rightarrow> bool \<Rightarrow> persisted_state \<Rightarrow> 'db alarm_daemon \<times> 'w \<Rightarrow>
   persist_outcome \<times> 'db alarm_daemon \<times> 'w" where
  "persist_snapshot api cancelled snapshot dw =
     (case dw of (d, w) \<Rightarrow>
        (case d_persistence d of
           None \<Rightarrow> (NoStore, d, w)
         | Some p \<Rightarrow>
             if cancelled then (JoinFailed, d, w)
             else (case save api p snapshot w of
                     (r, p', w') \<Rightarrow> (Saved r, d\<lparr>d_persistence := Some p'\<rparr>, w'))))"

definition transition_to ::
  "('w, 'db, 'rtx, 'tab, 'wtx) redb_api \<Rightarrow> bool \<Rightarrow> state \<Rightarrow> 'db alarm_daemon \<times> 'w \<Rightarrow>
   transition \<times> 'db alarm_daemon \<times> 'w" where
  "transition_to api cancelled desired dw =
     (case dw of (d, w) \<Rightarrow>
        (case swap_state desired d of
           (None, d') \<Rightarrow> (NoChange, d', w)
         | (Some (old, new, snapshot), d') \<Rightarrow>
             (case persist_snapshot api cancelled snapshot (d', w) of
                (_, d'', w') \<Rightarrow> (Changed old new, d'', w'))))"

definition arm ::
  "('w, 'db, 'rtx, 'tab, 'wtx) redb_api \<Rightarrow> bool \<Rightarrow> 'db alarm_daemon \<times> 'w \<Rightarrow>
   transition \<times> 'db alarm_daemon \<times> 'w" where
  "arm api c = transition_to api c (state_armed None None)"

definition arm_with_next_fire ::
  "('w, 'db, 'rtx, 'tab, 'wtx) redb_api \<Rightarrow> bool \<Rightarrow> i64 option \<Rightarrow> 'db alarm_daemon \<times> 'w \<Rightarrow>
   transition \<times> 'db alarm_daemon \<times> 'w" where
  "arm_with_next_fire api c t = transition_to api c (state_armed None t)"

definition arm_with_sound ::
  "('w, 'db, 'rtx, 'tab, 'wtx) redb_api \<Rightarrow> bool \<Rightarrow> string \<Rightarrow> i64 option \<Rightarrow> 'db alarm_daemon \<times> 'w \<Rightarrow>
   transition \<times> 'db alarm_daemon \<times> 'w" where
  "arm_with_sound api c sound_id t = transition_to api c (state_armed (Some sound_id) t)"

definition daemon_disarm ::
  "('w, 'db, 'rtx, 'tab, 'wtx) redb_api \<Rightarrow> bool \<Rightarrow> 'db alarm_daemon \<times> 'w \<Rightarrow>
   transition \<times> 'db alarm_daemon \<times> 'w" where
  "daemon_disarm api c = transition_to api c state_disarmed"

definition daemon_status :: "'db alarm_daemon \<Rightarrow> alarm_status" where
  "daemon_status d = st_status (d_inner d)"

definition daemon_current_sound :: "'db alarm_daemon \<Rightarrow> string option" where
  "daemon_current_sound d = st_current_sound (d_inner d)"

section \<open>Lemmas\<close>

lemma is_armed_simps [simp]: "is_armed Armed" "\<not> is_armed Disarmed"
  by (simp_all add: is_armed_def)

lemma st_status_simps [simp]:
  "st_status state_disarmed = Disarmed" "st_status (state_armed s t) = Armed"
  "st_current_sound state_disarmed = None" "st_current_sound (state_armed s t) = s"
  "st_next_fire_unix_ms state_disarmed = None" "st_next_fire_unix_ms (state_armed s t) = t"
  by (simp_all add: state_disarmed_def state_armed_def)

lemma state_armed_neq_disarmed [simp]:
  "state_armed s t \<noteq> state_disarmed" "state_disarmed \<noteq> state_armed s t"
  by (simp_all add: state_disarmed_def state_armed_def)

lemma restored_to_persisted [simp]: "restored_state (to_persisted s) = s"
  by (cases s; cases "st_status s") (simp_all add: restored_state_def to_persisted_def)

lemma to_persisted_restored [simp]: "to_persisted (restored_state p) = p"
  by (simp add: restored_state_def to_persisted_def)

lemma persist_snapshot_inner [simp]:
  "persist_snapshot api c sn (d, w) = (r, d', w') \<Longrightarrow> d_inner d' = d_inner d"
  by (auto simp: persist_snapshot_def split: option.splits if_splits prod.splits)

lemma transition_to_inner:
  "transition_to api c desired (d, w) = (t, d', w') \<Longrightarrow> d_inner d' = desired"
  by (auto simp: transition_to_def swap_state_def split: if_splits prod.splits)

lemma transition_to_result:
  "transition_to api c desired (d, w) = (t, d', w') \<Longrightarrow>
    t = (if d_inner d = desired then NoChange else Changed (st_status (d_inner d)) (st_status desired))"
  by (auto simp: transition_to_def swap_state_def split: if_splits prod.splits)

lemma transition_to_spec:
  "transition_to api c desired (d, w) = (t, d', w') \<Longrightarrow> d_inner d' = desired \<and>
    t = (if d_inner d = desired then NoChange else Changed (st_status (d_inner d)) (st_status desired))"
  by (simp add: transition_to_inner transition_to_result)

lemma transition_to_same:
  "d_inner d = desired \<Longrightarrow> transition_to api c desired (d, w) = (NoChange, d, w)"
  by (simp add: transition_to_def swap_state_def)

lemma new_persistent_recovery:
  "new_persistent api clk p w = (Inr (d, rec), w') \<Longrightarrow> rec = evaluate_recovery clk (to_persisted (d_inner d))"
  by (auto simp: new_persistent_def split: prod.splits sum.splits)

section \<open>The interface the control object uses\<close>

text \<open>The laws are stated over an arbitrary state \<open>'s\<close> of daemon and disk.\<close>

locale alarm_device =
  fixes dev_arm :: "string \<Rightarrow> i64 option \<Rightarrow> 's \<Rightarrow> transition \<times> 's"
    and dev_disarm :: "'s \<Rightarrow> transition \<times> 's"
    and dev_status :: "'s \<Rightarrow> alarm_status"
    and dev_sound :: "'s \<Rightarrow> string option"
  assumes arm_status: "dev_arm sid t s = (r, s') \<Longrightarrow> dev_status s' = Armed"
    and arm_sound: "dev_arm sid t s = (r, s') \<Longrightarrow> dev_sound s' = Some sid"
    and arm_result: "dev_arm sid t s = (r, s') \<Longrightarrow>
      r = Changed (dev_status s) Armed \<or> r = NoChange \<and> dev_status s = Armed"
    and disarm_status: "dev_disarm s = (r, s') \<Longrightarrow> dev_status s' = Disarmed"
    and disarm_sound: "dev_disarm s = (r, s') \<Longrightarrow> dev_sound s' = None"
    and disarm_result: "dev_disarm s = (r, s') \<Longrightarrow>
      r = Changed (dev_status s) Disarmed \<or> r = NoChange \<and> dev_status s = Disarmed"
begin

text \<open>The test the handlers make on a transition before they emit \<open>StateChanged\<close>.\<close>

lemma arm_signal:
  "dev_arm sid t s = (r, s') \<Longrightarrow> (\<exists>a b. r = Changed a b \<and> a \<noteq> b) \<longleftrightarrow> dev_status s \<noteq> dev_status s'"
  using arm_status[of sid t s r s'] arm_result[of sid t s r s'] by auto

lemma disarm_signal:
  "dev_disarm s = (r, s') \<Longrightarrow> (\<exists>a b. r = Changed a b \<and> a \<noteq> b) \<longleftrightarrow> dev_status s \<noteq> dev_status s'"
  using disarm_status[of s r s'] disarm_result[of s r s'] by auto

end

interpretation dev: alarm_device "arm_with_sound api c" "daemon_disarm api c"
  "\<lambda>(d, w). daemon_status d" "\<lambda>(d, w). daemon_current_sound d"
  for api :: "('w, 'db, 'rtx, 'tab, 'wtx) redb_api" and c
  by unfold_locales
    (auto simp: arm_with_sound_def daemon_disarm_def daemon_status_def daemon_current_sound_def
      dest!: transition_to_spec split: if_splits)

section \<open>Memory and disk\<close>

text \<open>What the file of \<open>path\<close> says: an absent value stands for the default state.\<close>

definition disk_state :: "bytes option \<Rightarrow> state option" where
  "disk_state v =
     (case v of
        None \<Rightarrow> Some state_disarmed
      | Some bs \<Rightarrow> (case decode_state bs of Inl _ \<Rightarrow> None | Inr p \<Rightarrow> Some (restored_state p)))"

definition attached ::
  "('w, 'db, 'rtx, 'tab, 'wtx) redb_view \<Rightarrow> path \<Rightarrow> 'db alarm_daemon \<Rightarrow> bool" where
  "attached view path d \<longleftrightarrow>
     (case d_persistence d of None \<Rightarrow> False | Some p \<Rightarrow> handle_ok view p \<and> p_path p = path)"

definition synced ::
  "('w, 'db, 'rtx, 'tab, 'wtx) redb_view \<Rightarrow> path \<Rightarrow> 'db alarm_daemon \<times> 'w \<Rightarrow> bool" where
  "synced view path dw \<longleftrightarrow>
     attached view path (fst dw) \<and> disk_state (stored view path (snd dw)) = Some (d_inner (fst dw))"

definition sound_storable :: "state \<Rightarrow> bool" where
  "sound_storable s \<longleftrightarrow> storable (to_persisted s)"

lemma sound_storable_disarmed [simp]: "sound_storable state_disarmed"
  by (simp add: sound_storable_def storable_def to_persisted_def)

lemma sound_storable_armed:
  "rust_str sid \<Longrightarrow> length sid \<le> 65535 \<Longrightarrow> sound_storable (state_armed (Some sid) t)"
  by (simp add: sound_storable_def storable_def to_persisted_def)

lemma disk_state_encode [simp]:
  "sound_storable s \<Longrightarrow> disk_state (Some (encode_state (to_persisted s))) = Some s"
  by (simp add: disk_state_def sound_storable_def decode_encode_state)

lemma restored_default [simp]: "restored_state default_persisted = state_disarmed"
  by (simp add: restored_state_def default_persisted_def state_disarmed_def)

context redb_contract
begin

text \<open>Any transition leaves on disk the old payload or the encoding of the new state.\<close>

lemma transition_disk:
  assumes "attached view path d" "transition_to api c desired (d, w) = (t, d', w')"
  shows "attached view path d' \<and> stored view path w' \<in>
    {stored view path w, Some (encode_state (to_persisted desired))}"
proof -
  obtain p where p: "d_persistence d = Some p" "handle_ok view p" "p_path p = path"
    using assms(1) by (auto simp: attached_def split: option.splits)
  obtain r p' w1 where sv: "save api p (to_persisted desired) w = (r, p', w1)"
    by (cases "save api p (to_persisted desired) w")
  show ?thesis
    using assms p sv store.save_atomic[OF p(2) sv] store.sv_keeps[OF p(2) sv]
    by (auto simp: transition_to_def swap_state_def persist_snapshot_def attached_def split: if_splits)
qed

lemma new_persistent_handle:
  assumes "handle_ok view p" "new_persistent api clk p w = (Inr (d, rec), w')"
  shows "synced view (p_path p) (d, w') \<and> stored view (p_path p) w' = stored view (p_path p) w"
proof -
  obtain st p' where ld: "load api p w = (Inr st, p', w')"
    and d: "d = \<lparr>d_inner = restored_state st, d_persistence = Some p'\<rparr>"
    using assms(2) by (auto simp: new_persistent_def split: prod.splits sum.splits)
  note keeps = store.ld_keeps[OF assms(1) ld]
  show ?thesis
    using keeps store.ld_value[OF assms(1) ld]
    by (cases "stored view (p_path p) w") (auto simp: synced_def attached_def d disk_state_def)
qed

lemma new_persistent_reads:
  assumes "new_persistent api clk (from_path path) w = (Inr (d, rec), w')"
  shows "synced view path (d, w') \<and> stored view path w' = stored view path w"
  using new_persistent_handle[OF _ assms] by (simp add: handle_ok_def from_path_def)

end

context redb_reliable
begin

lemma transition_synced:
  assumes "synced view path (d, w)" "sound_storable desired"
    and "transition_to api False desired (d, w) = (t, d', w')"
  shows "synced view path (d', w')"
proof (cases "d_inner d = desired")
  case True
  then show ?thesis using assms by (simp add: transition_to_same)
next
  case False
  obtain p where p: "d_persistence d = Some p" "handle_ok view p" "p_path p = path"
    using assms(1) by (auto simp: synced_def attached_def split: option.splits)
  obtain p' w1 where sv: "save api p (to_persisted desired) w = (Inr (), p', w1)"
    using save_total[OF p(2)] by blast
  have "stored view path w1 = Some (encode_state (to_persisted desired))"
    using store.sv_ok[OF p(2) sv] store.sv_keeps[OF p(2) sv] p(3) by simp
  with False p sv assms(2,3) store.sv_keeps[OF p(2) sv] show ?thesis
    by (auto simp: transition_to_def swap_state_def persist_snapshot_def synced_def attached_def)
qed

lemma load_default_total:
  assumes "handle_ok view p" "stored view (p_path p) w = None"
  shows "\<exists>p' w'. load api p w = (Inr default_persisted, p', w')"
proof (cases "r_exists api (p_path p) w")
  case False
  then show ?thesis by (simp add: load_def)
next
  case True
  obtain db p1 w1 where lk: "lock_db api p w = (Inr (Some db), p1, w1)"
    using lock_db_total[OF assms(1)] by blast
  obtain rtx where rtx: "r_begin_read api db w1 = Inr rtx" using begin_read_total by blast
  have "rtx_view view rtx = committed view w (p_path p)"
    using begin_read[OF rtx] lock_db_keeps[OF assms(1) lk] by simp
  then have none: "lookup_bytes (rtx_view view rtx) = None" using assms(2) by (simp add: stored_def)
  consider n where "r_open_table api rtx STATE_TABLE = Inl (TableDoesNotExist n)"
    | tab where "r_open_table api rtx STATE_TABLE = Inr tab"
    using open_total[of rtx STATE_TABLE] by blast
  then show ?thesis
  proof cases
    case 1
    with True lk rtx show ?thesis by (simp add: load_def load_from_def)
  next
    case 2
    obtain raw where raw: "r_get api tab STATE_KEY = Inr raw" using get_total by blast
    have "raw = None"
      using get[OF raw] open_table[OF 2] none by (simp add: lookup_bytes_def)
    with True lk rtx 2 raw show ?thesis by (simp add: load_def load_from_def)
  qed
qed

text \<open>A start through any sound handle, a fresh one in particular.\<close>

lemma reopen_synced:
  assumes "handle_ok view p" "disk_state (stored view (p_path p) w) = Some s"
  shows "\<exists>d rec w'. new_persistent api clk p w = (Inr (d, rec), w')
    \<and> synced view (p_path p) (d, w') \<and> d_inner d = s \<and> stored view (p_path p) w' = stored view (p_path p) w"
proof -
  have "\<exists>st p' w'. load api p w = (Inr st, p', w')"
  proof (cases "stored view (p_path p) w")
    case None
    then show ?thesis using load_default_total[OF assms(1), of w] by auto
  next
    case (Some bs)
    then obtain st where "decode_state bs = Inr st"
      using assms(2) by (auto simp: disk_state_def split: sum.splits)
    then show ?thesis using load_total_decoded[OF assms(1), of w bs st] Some by auto
  qed
  then obtain st p' w' where ld: "load api p w = (Inr st, p', w')" by blast
  then have np: "new_persistent api clk p w =
      (Inr (\<lparr>d_inner = restored_state st, d_persistence = Some p'\<rparr>, evaluate_recovery clk st), w')"
    by (simp add: new_persistent_def)
  from new_persistent_handle[OF assms(1) np] np assms(2) show ?thesis by (auto simp: synced_def)
qed

lemma restart_synced:
  assumes "disk_state (stored view path w) = Some s"
  shows "\<exists>d rec w'. new_persistent api clk (from_path path) w = (Inr (d, rec), w')
    \<and> synced view path (d, w') \<and> d_inner d = s \<and> stored view path w' = stored view path w"
  using reopen_synced[of "from_path path" w s] assms by (simp add: handle_ok_def from_path_def)

end

section \<open>Runs with restarts\<close>

text \<open>A life of the daemon: requests, and process restarts that reopen the database with a fresh
  handle at some wall-clock time.\<close>

datatype daemon_op = OpArm string "i64 option" | OpDisarm | OpRestart int

definition daemon_step ::
  "('w, 'db, 'rtx, 'tab, 'wtx) redb_api \<Rightarrow> path \<Rightarrow> daemon_op \<Rightarrow> 'db alarm_daemon \<times> 'w \<Rightarrow>
   persistence_error + 'db alarm_daemon \<times> 'w" where
  "daemon_step api path x dw =
     (case x of
        OpArm sid t \<Rightarrow> Inr (snd (arm_with_sound api False sid t dw))
      | OpDisarm \<Rightarrow> Inr (snd (daemon_disarm api False dw))
      | OpRestart clk \<Rightarrow>
          (case new_persistent api clk (from_path path) (snd dw) of
             (Inl e, _) \<Rightarrow> Inl e
           | (Inr (d, _), w) \<Rightarrow> Inr (d, w)))"

fun daemon_run ::
  "('w, 'db, 'rtx, 'tab, 'wtx) redb_api \<Rightarrow> path \<Rightarrow> daemon_op list \<Rightarrow> 'db alarm_daemon \<times> 'w \<Rightarrow>
   persistence_error + 'db alarm_daemon \<times> 'w" where
  "daemon_run api path [] dw = Inr dw"
| "daemon_run api path (x # xs) dw = bind_r (daemon_step api path x dw) (daemon_run api path xs)"

text \<open>The abstract alarm: a restart is invisible.\<close>

fun alarm_spec :: "daemon_op \<Rightarrow> state \<Rightarrow> state" where
  "alarm_spec (OpArm sid t) s = state_armed (Some sid) t"
| "alarm_spec OpDisarm s = state_disarmed"
| "alarm_spec (OpRestart clk) s = s"

fun op_storable :: "daemon_op \<Rightarrow> bool" where
  "op_storable (OpArm sid t) \<longleftrightarrow> rust_str sid \<and> length sid \<le> 65535"
| "op_storable x \<longleftrightarrow> True"

context redb_reliable
begin

lemma daemon_step_refines:
  assumes "synced view path dw" "op_storable x"
  shows "\<exists>dw'. daemon_step api path x dw = Inr dw' \<and> synced view path dw'
    \<and> d_inner (fst dw') = alarm_spec x (d_inner (fst dw))"
proof -
  obtain d w where dw: "dw = (d, w)" by (cases dw)
  have tr: "synced view path (snd (transition_to api False s (d, w)))
      \<and> d_inner (fst (snd (transition_to api False s (d, w)))) = s" if "sound_storable s" for s
  proof -
    obtain t d1 w1 where tr: "transition_to api False s (d, w) = (t, d1, w1)"
      by (cases "transition_to api False s (d, w)")
    show ?thesis
      using transition_synced[OF assms(1)[unfolded dw] that tr] transition_to_inner[OF tr] tr by simp
  qed
  show ?thesis
  proof (cases x)
    case (OpArm sid t)
    then show ?thesis
      using tr[of "state_armed (Some sid) t"] assms(2)
      by (simp add: daemon_step_def arm_with_sound_def dw sound_storable_armed)
  next
    case OpDisarm
    then show ?thesis
      using tr[of state_disarmed] by (simp add: daemon_step_def daemon_disarm_def dw)
  next
    case (OpRestart clk)
    have "disk_state (stored view path w) = Some (d_inner d)"
      using assms(1) by (simp add: synced_def dw)
    from restart_synced[OF this, of clk] OpRestart show ?thesis
      by (auto simp: daemon_step_def dw)
  qed
qed

lemma daemon_run_refines:
  assumes "synced view path dw" "list_all op_storable xs"
  shows "\<exists>dw'. daemon_run api path xs dw = Inr dw' \<and> synced view path dw'
    \<and> d_inner (fst dw') = fold alarm_spec xs (d_inner (fst dw))"
  using assms
proof (induction xs arbitrary: dw)
  case Nil
  then show ?case by simp
next
  case (Cons x xs)
  obtain dw1 where "daemon_step api path x dw = Inr dw1" "synced view path dw1"
    "d_inner (fst dw1) = alarm_spec x (d_inner (fst dw))"
    using daemon_step_refines[of path dw x] Cons.prems by auto
  with Cons.IH[of dw1] Cons.prems show ?case by simp
qed

end

section \<open>Properties\<close>

text \<open>What a transition does on every branch.  A request equal to the current state changes
  nothing, in memory or on disk; any other request installs the requested state and reports the
  old and new status, whatever happens to the write (error, cancelled task or no store at all):
  persistence failures never roll the in-memory state back.\<close>

lemma transition_to_exact:
  "\<exists>d' w'. transition_to api c desired (d, w) =
      (if d_inner d = desired then NoChange else Changed (st_status (d_inner d)) (st_status desired), d', w')
    \<and> d_inner d' = desired \<and> (d_inner d = desired \<longrightarrow> d' = d \<and> w' = w)"
proof -
  obtain t d' w' where tr: "transition_to api c desired (d, w) = (t, d', w')"
    by (cases "transition_to api c desired (d, w)")
  show ?thesis
    using transition_to_spec[OF tr] tr by (cases "d_inner d = desired") (auto simp: transition_to_same)
qed

lemma transition_to_exact_example:
  "\<exists>d' w'. transition_to mem_api False state_disarmed (daemon_new, Map.empty) = (NoChange, d', w')
     \<and> d' = daemon_new \<and> w' = Map.empty"
  using transition_to_exact[of mem_api False state_disarmed daemon_new Map.empty]
  by (auto simp: daemon_new_def)

text \<open>C39: repeating a request never repeats its write.  After any transition the same request is
  a no-op that leaves the disk as it is, also when the first write failed: the retry of a failed
  write has to wait for a request with a different target state.\<close>

theorem failed_write_not_retried:
  assumes "transition_to api c desired dw = (t, dw')"
  shows "transition_to api' c' desired dw' = (NoChange, dw')"
  using assms transition_to_inner[of api c desired "fst dw" "snd dw" t "fst dw'" "snd dw'"]
    transition_to_same[of "fst dw'" desired api' c' "snd dw'"]
  by simp

text \<open>A disk that refuses every commit, for the witness.\<close>

definition failing_api :: "(mem_disk, path, tables, string \<Rightarrow> bytes option, path \<times> tables) redb_api" where
  "failing_api = mem_api\<lparr>r_commit := (\<lambda>x w. (Inl ''read-only'', w))\<rparr>"

theorem failed_write_not_retried_witness:
  "let d = \<lparr>d_inner = state_armed (Some ''builtin:a'') None, d_persistence = Some (from_path ''/s'')\<rparr>;
       (t, dw) = daemon_disarm failing_api False (d, Map.empty)
   in stored mem_view ''/s'' (snd dw) = None
      \<and> transition_to mem_api False state_disarmed dw = (NoChange, dw)"
proof -
  let ?d = "\<lparr>d_inner = state_armed (Some ''builtin:a'') None, d_persistence = Some (from_path ''/s'')\<rparr>"
  obtain t dw where tr: "daemon_disarm failing_api False (?d, Map.empty) = (t, dw)"
    by (cases "daemon_disarm failing_api False (?d, Map.empty)")
  have "transition_to mem_api False state_disarmed dw = (NoChange, dw)"
    by (rule failed_write_not_retried[OF tr[unfolded daemon_disarm_def]])
  moreover have "stored mem_view ''/s'' (snd dw) = None"
    using tr
    by (auto simp: daemon_disarm_def transition_to_def swap_state_def persist_snapshot_def save_def
        lock_db_def from_path_def save_to_def failing_api_def mem_api_def stored_def mem_view_def
        lookup_bytes_def path_parent_def)
  ultimately show ?thesis using tr by simp
qed

text \<open>Durability as a refinement.  On a disk where no call fails, any sequence of arm and
  disarm requests and process restarts runs without error, ends with memory and disk in
  agreement, and in exactly the state the abstract alarm reaches, for which a restart is
  invisible.\<close>

lemma daemon_refines_alarm:
  assumes "redb_reliable api view" and "synced view path dw" and "list_all op_storable xs"
  shows "\<exists>dw'. daemon_run api path xs dw = Inr dw' \<and> synced view path dw'
    \<and> d_inner (fst dw') = fold alarm_spec xs (d_inner (fst dw))"
  using redb_reliable.daemon_run_refines[OF assms] .

lemma daemon_refines_alarm_example:
  "let d = \<lparr>d_inner = state_disarmed, d_persistence = Some (from_path ''/s'')\<rparr>;
       xs = [OpArm ''builtin:a'' (Some 5), OpRestart 0, OpDisarm, OpArm ''custom:b'' None, OpRestart 9]
   in \<exists>dw. daemon_run mem_api ''/s'' xs (d, Map.empty) = Inr dw
        \<and> d_inner (fst dw) = state_armed (Some ''custom:b'') None"
proof -
  let ?d = "\<lparr>d_inner = state_disarmed, d_persistence = Some (from_path ''/s'')\<rparr>"
  have "synced mem_view ''/s'' (?d, Map.empty)"
    by (simp add: synced_def attached_def handle_ok_def from_path_def disk_state_def stored_def
        mem_view_def lookup_bytes_def)
  from daemon_refines_alarm[OF mem.redb_reliable_axioms this,
      of "[OpArm ''builtin:a'' (Some 5), OpRestart 0, OpDisarm, OpArm ''custom:b'' None, OpRestart 9]"]
  show ?thesis by (auto simp: rust_str_def Let_def)
qed

text \<open>A sequence of transitions, each with its own fate of the blocking task.\<close>

fun transitions ::
  "('w, 'db, 'rtx, 'tab, 'wtx) redb_api \<Rightarrow> (bool \<times> state) list \<Rightarrow> 'db alarm_daemon \<times> 'w \<Rightarrow>
   'db alarm_daemon \<times> 'w" where
  "transitions api [] dw = dw"
| "transitions api ((c, s) # rs) dw = transitions api rs (snd (transition_to api c s dw))"

text \<open>Crash consistency without any assumption on success.  Whatever calls fail or are
  cancelled during a sequence of transitions, the database afterwards holds the payload it held
  before or the encoding of one of the requested states, never a mixture.\<close>

lemma crash_consistency:
  assumes "redb_contract api view" and "attached view path d"
  shows "stored view path (snd (transitions api rs (d, w))) \<in>
    insert (stored view path w) ((\<lambda>r. Some (encode_state (to_persisted (snd r)))) ` set rs)"
  using assms(2)
proof (induction rs arbitrary: d w)
  case Nil
  then show ?case by simp
next
  case (Cons r rs)
  obtain c s where r: "r = (c, s)" by (cases r)
  obtain t d1 w1 where tr: "transition_to api c s (d, w) = (t, d1, w1)"
    by (cases "transition_to api c s (d, w)")
  have "attached view path d1" "stored view path w1 \<in>
      {stored view path w, Some (encode_state (to_persisted s))}"
    using redb_contract.transition_disk[OF assms(1) Cons.prems tr] by auto
  with Cons.IH[of d1 w1] show ?case by (auto simp: r tr)
qed

lemma crash_consistency_example:
  "let d = \<lparr>d_inner = state_disarmed, d_persistence = Some (from_path ''/s'')\<rparr>
   in stored mem_view ''/s'' (snd (transitions mem_api [(False, state_armed (Some ''builtin:a'') None)] (d, Map.empty)))
      \<in> {None, Some (encode_state (to_persisted (state_armed (Some ''builtin:a'') None)))}"
proof -
  let ?d = "\<lparr>d_inner = state_disarmed, d_persistence = Some (from_path ''/s'')\<rparr>"
  have att: "attached mem_view ''/s'' ?d"
    by (simp add: attached_def handle_ok_def from_path_def)
  have "stored mem_view ''/s'' Map.empty = None"
    by (simp add: stored_def mem_view_def lookup_bytes_def)
  with crash_consistency[OF mem.redb_contract_axioms att,
      of "[(False, state_armed (Some ''builtin:a'') None)]" Map.empty]
  show ?thesis by simp
qed

end
