(* ===== verification/Floats.thy ===== *)
theory Floats
  imports Complex_Main "HOL-Library.Log_Nat" Alarm_Prelude
begin

text \<open>
  IEEE 754 arithmetic as the audio code uses it: \<open>f32\<close> and \<open>f64\<close> values are NaN, an infinity or a
  rational number, and every operation is the exact result rounded to nearest, ties to even, at
  the precision and exponent range of its type.  The two zeros are one value here: they compare
  equal, and the code never divides by a float that may be zero, tests a sign bit or reads the
  representation of a float.
\<close>

section \<open>Values\<close>

datatype fl = FNaN | FInf bool | FFin rat

type_synonym f32 = fl
type_synonym f64 = fl

section \<open>Rounding\<close>

text \<open>The exponent of a positive rational: \<open>2 ^ ilog2 x \<le> x < 2 ^ (ilog2 x + 1)\<close>.\<close>

definition ilog2 :: "rat \<Rightarrow> int" where
  "ilog2 x =
     (case quotient_of x of (a, b) \<Rightarrow>
        (let k = bitlen a - bitlen b in if 2 powi k \<le> x then k else k - 1))"

definition round_half_even :: "rat \<Rightarrow> int" where
  "round_half_even x =
     (let n = \<lfloor>x\<rfloor>; r = x - of_int n
      in if r < 1 / 2 then n else if r > 1 / 2 then n + 1 else if even n then n else n + 1)"

text \<open>The exponent of the last place of a number in a format with \<open>p\<close> significant bits and least
  exponent \<open>emin\<close>.\<close>

definition ulp_exp :: "nat \<Rightarrow> int \<Rightarrow> rat \<Rightarrow> int" where
  "ulp_exp p emin x = max (ilog2 \<bar>x\<bar> - (int p - 1)) emin"

definition round_fin :: "nat \<Rightarrow> int \<Rightarrow> rat \<Rightarrow> rat" where
  "round_fin p emin x =
     (if x = 0 then 0
      else of_int (round_half_even (x / 2 powi ulp_exp p emin x)) * 2 powi ulp_exp p emin x)"

definition round_fl :: "nat \<Rightarrow> int \<Rightarrow> int \<Rightarrow> rat \<Rightarrow> fl" where
  "round_fl p emin emax x =
     (let y = round_fin p emin x in if 2 powi emax \<le> \<bar>y\<bar> then FInf (y < 0) else FFin y)"

definition f32_round :: "rat \<Rightarrow> f32" where
  "f32_round x = round_fl 24 (-149) 128 x"

definition f64_round :: "rat \<Rightarrow> f64" where
  "f64_round x = round_fl 53 (-1074) 1024 x"

section \<open>Operations\<close>

text \<open>Comparisons are false on NaN.\<close>

fun fl_le :: "fl \<Rightarrow> fl \<Rightarrow> bool" where
  "fl_le FNaN _ = False"
| "fl_le _ FNaN = False"
| "fl_le (FInf True) _ = True"
| "fl_le _ (FInf False) = True"
| "fl_le (FInf False) _ = False"
| "fl_le _ (FInf True) = False"
| "fl_le (FFin x) (FFin y) = (x \<le> y)"

lemma fl_le_inf [simp]:
  "fl_le (FFin x) (FInf s) \<longleftrightarrow> \<not> s"
  "fl_le (FInf s) (FFin x) \<longleftrightarrow> s"
  by (cases s; simp)+

definition fl_lt :: "fl \<Rightarrow> fl \<Rightarrow> bool" where
  "fl_lt x y \<longleftrightarrow> fl_le x y \<and> \<not> fl_le y x"

definition is_finite :: "fl \<Rightarrow> bool" where
  "is_finite x = (case x of FFin _ \<Rightarrow> True | _ \<Rightarrow> False)"

text \<open>\<open>f32::clamp\<close>: NaN stays NaN.\<close>

definition fl_clamp :: "fl \<Rightarrow> fl \<Rightarrow> fl \<Rightarrow> fl" where
  "fl_clamp x lo hi = (if fl_lt x lo then lo else if fl_lt hi x then hi else x)"

text \<open>\<open>f64::max\<close>: the other operand when one is NaN.\<close>

definition fl_max :: "fl \<Rightarrow> fl \<Rightarrow> fl" where
  "fl_max x y = (if x = FNaN then y else if y = FNaN then x else if fl_lt x y then y else x)"

definition fl_neg_sign :: "fl \<Rightarrow> bool" where
  "fl_neg_sign x = (case x of FInf s \<Rightarrow> s | FFin r \<Rightarrow> r < 0 | FNaN \<Rightarrow> False)"

fun fl_mul :: "(rat \<Rightarrow> fl) \<Rightarrow> fl \<Rightarrow> fl \<Rightarrow> fl" where
  "fl_mul rnd (FFin x) (FFin y) = rnd (x * y)"
| "fl_mul rnd FNaN _ = FNaN"
| "fl_mul rnd _ FNaN = FNaN"
| "fl_mul rnd x y =
     (if x = FFin 0 \<or> y = FFin 0 then FNaN else FInf (fl_neg_sign x \<noteq> fl_neg_sign y))"

fun fl_add :: "(rat \<Rightarrow> fl) \<Rightarrow> fl \<Rightarrow> fl \<Rightarrow> fl" where
  "fl_add rnd (FFin x) (FFin y) = rnd (x + y)"
| "fl_add rnd FNaN _ = FNaN"
| "fl_add rnd _ FNaN = FNaN"
| "fl_add rnd (FInf s) (FInf t) = (if s = t then FInf s else FNaN)"
| "fl_add rnd (FInf s) (FFin _) = FInf s"
| "fl_add rnd (FFin _) (FInf t) = FInf t"

text \<open>Division; a zero divisor gives an infinity whose sign is not tracked and is never reached.\<close>

fun fl_div :: "(rat \<Rightarrow> fl) \<Rightarrow> fl \<Rightarrow> fl \<Rightarrow> fl" where
  "fl_div rnd (FFin x) (FFin y) =
     (if y = 0 then (if x = 0 then FNaN else FInf (x < 0)) else rnd (x / y))"
| "fl_div rnd FNaN _ = FNaN"
| "fl_div rnd _ FNaN = FNaN"
| "fl_div rnd (FInf s) (FInf t) = FNaN"
| "fl_div rnd (FInf s) (FFin y) = FInf (s \<noteq> (y < 0))"
| "fl_div rnd (FFin x) (FInf t) = FFin 0"

text \<open>The remainder \<open>%\<close> truncates the quotient and is exact.\<close>

definition rat_trunc :: "rat \<Rightarrow> int" where
  "rat_trunc x = (if 0 \<le> x then \<lfloor>x\<rfloor> else \<lceil>x\<rceil>)"

definition fl_rem :: "fl \<Rightarrow> fl \<Rightarrow> fl" where
  "fl_rem a b =
     (case (a, b) of
        (FFin x, FFin y) \<Rightarrow> if y = 0 then FNaN else FFin (x - of_int (rat_trunc (x / y)) * y)
      | (FFin x, FInf _) \<Rightarrow> FFin x
      | _ \<Rightarrow> FNaN)"

text \<open>\<open>as usize\<close> truncates and saturates; NaN gives 0.\<close>

definition fl_as_usize :: "fl \<Rightarrow> nat" where
  "fl_as_usize x =
     (case x of
        FNaN \<Rightarrow> 0
      | FInf s \<Rightarrow> if s then 0 else 2 ^ 64 - 1
      | FFin r \<Rightarrow> min (nat (rat_trunc r)) (2 ^ 64 - 1))"

text \<open>Conversions from integers round once.\<close>

definition f64_of_nat :: "nat \<Rightarrow> f64" where
  "f64_of_nat n = f64_round (of_nat n)"

definition f32_of_nat :: "nat \<Rightarrow> f32" where
  "f32_of_nat n = f32_round (of_nat n)"

section \<open>Correctness of rounding\<close>

lemma bitlen_pow: "0 < a \<Longrightarrow> (2::rat) powi (bitlen a - 1) \<le> of_int a \<and> of_int a < (2::rat) powi bitlen a"
proof -
  assume a: "0 < a"
  define k where "k = nat (bitlen a) - 1"
  have pos: "0 < bitlen a" using a bitlen_nonneg[of a] bitlen_eq_zero_iff[of a] by linarith
  then have k: "bitlen a = int k + 1" by (simp add: k_def)
  have b: "2 ^ k \<le> a" "a < 2 ^ Suc k" using bitlen_bounds[OF a] k by (auto simp: nat_add_distrib)
  have "(of_int (2 ^ k) :: rat) \<le> of_int a" "(of_int a :: rat) < of_int (2 ^ Suc k)"
    using b by (simp_all only: of_int_le_iff of_int_less_iff)
  then show ?thesis using k by (simp add: power_int_add)
qed

lemma powi_mono2: "m \<le> n \<Longrightarrow> (2::rat) powi m \<le> 2 powi n"
  by (rule power_int_increasing) simp_all

lemma powi_less2: "(2::rat) powi m < 2 powi n \<Longrightarrow> m < n"
  using powi_mono2[of n m] by linarith

lemma ilog2_bounds:
  assumes "0 < x" shows "2 powi ilog2 x \<le> x" and "x < 2 powi (ilog2 x + 1)"
proof -
  obtain a b where q: "quotient_of x = (a, b)" by (cases "quotient_of x")
  have b: "0 < b" and x: "x = of_int a / of_int b"
    using quotient_of_denom_pos[OF q] quotient_of_div[OF q] by auto
  have a: "0 < a" using assms b x by (simp add: zero_less_divide_iff)
  let ?k = "bitlen a - bitlen b"
  have bp: "0 < (of_int b :: rat)" using b by simp
  have up: "x < 2 powi (?k + 1)"
  proof -
    have "of_int a < (2::rat) powi bitlen a" using bitlen_pow[OF a] by simp
    also have "(2::rat) powi bitlen a = 2 powi (?k + 1) * 2 powi (bitlen b - 1)"
      by (simp flip: power_int_add)
    also have "\<dots> \<le> 2 powi (?k + 1) * of_int b" using bitlen_pow[OF b] by simp
    finally show ?thesis using bp by (simp add: x pos_divide_less_eq)
  qed
  have low: "2 powi (?k - 1) \<le> x"
  proof -
    have "2 powi (?k - 1) * of_int b \<le> 2 powi (?k - 1) * (2::rat) powi bitlen b"
      using bitlen_pow[OF b] by (intro mult_left_mono) auto
    also have "\<dots> = 2 powi (bitlen a - 1)" by (simp flip: power_int_add)
    also have "\<dots> \<le> of_int a" using bitlen_pow[OF a] by simp
    finally show ?thesis using bp by (simp add: x pos_le_divide_eq)
  qed
  show "2 powi ilog2 x \<le> x" "x < 2 powi (ilog2 x + 1)"
    using up low by (auto simp: ilog2_def q Let_def)
qed

lemma ilog2_mono: "0 < x \<Longrightarrow> x \<le> y \<Longrightarrow> ilog2 x \<le> ilog2 y"
proof -
  assume "0 < x" "x \<le> y"
  then have "2 powi ilog2 x < (2::rat) powi (ilog2 y + 1)"
    using ilog2_bounds(1)[of x] ilog2_bounds(2)[of y] by linarith
  from powi_less2[OF this] show ?thesis by simp
qed

lemma round_half_even_int [simp]: "round_half_even (of_int n) = n"
  by (simp add: round_half_even_def)

lemma round_half_even_le_int:
  assumes "x \<le> of_int n" shows "round_half_even x \<le> n"
proof -
  have fl: "of_int \<lfloor>x\<rfloor> \<le> x" by simp
  show ?thesis
  proof (cases "\<lfloor>x\<rfloor> < n")
    case True
    then show ?thesis by (auto simp: round_half_even_def Let_def)
  next
    case False
    with assms fl have "x = of_int n" by linarith
    then show ?thesis by simp
  qed
qed

lemma round_half_even_ge_int:
  assumes "of_int n \<le> x" shows "n \<le> round_half_even x"
  using assms by (auto simp: round_half_even_def Let_def le_floor_iff intro: order_trans[of n "\<lfloor>x\<rfloor>"])

text \<open>The numbers of a format with \<open>p\<close> significant bits.\<close>

definition representable :: "nat \<Rightarrow> int \<Rightarrow> rat \<Rightarrow> bool" where
  "representable p emin x \<longleftrightarrow> (\<exists>m e. x = of_int m * 2 powi e \<and> \<bar>m\<bar> < 2 ^ p \<and> emin \<le> e)"

lemma representable_ulp:
  assumes "x = of_int m * 2 powi e" "\<bar>m\<bar> < 2 ^ p" "emin \<le> e" "x \<noteq> 0"
  shows "ulp_exp p emin x \<le> e"
proof -
  have "\<bar>x\<bar> = of_int \<bar>m\<bar> * 2 powi e" using assms(1) by (simp add: abs_mult)
  also have "\<dots> < of_int (2 ^ p) * 2 powi e" using assms(2) by (intro mult_strict_right_mono) (simp_all only: of_int_less_iff, simp)
  also have "\<dots> = 2 powi (int p + e)" by (simp add: power_int_add)
  finally have "2 powi ilog2 \<bar>x\<bar> < (2::rat) powi (int p + e)"
    using ilog2_bounds(1)[of "\<bar>x\<bar>"] assms(4) by linarith
  from powi_less2[OF this] assms(3) show ?thesis by (simp add: ulp_exp_def)
qed

text \<open>A representable number is a multiple of every smaller last place.\<close>

lemma representable_multiple:
  assumes "representable p emin x" "x \<noteq> 0" "u \<le> ulp_exp p emin x"
  shows "\<exists>k. x = of_int k * 2 powi u"
proof -
  obtain m e where x: "x = of_int m * 2 powi e" "\<bar>m\<bar> < 2 ^ p" "emin \<le> e"
    using assms(1) by (auto simp: representable_def)
  have "u \<le> e" using representable_ulp[OF x assms(2)] assms(3) by simp
  then have "(2::rat) powi e = of_int (2 ^ nat (e - u)) * 2 powi u"
    by (simp flip: power_int_of_nat power_int_add)
  then have "x = of_int (m * 2 ^ nat (e - u)) * 2 powi u" using x(1) by simp
  then show ?thesis by blast
qed

lemma round_fin_representable: "representable p emin x \<Longrightarrow> round_fin p emin x = x"
proof (cases "x = 0")
  case False
  assume "representable p emin x"
  then obtain k where k: "x = of_int k * 2 powi ulp_exp p emin x"
    using representable_multiple[of p emin x "ulp_exp p emin x"] False by blast
  then have "x / 2 powi ulp_exp p emin x = of_int k" by (simp add: nonzero_divide_eq_eq)
  with k False show ?thesis by (simp add: round_fin_def)
qed (simp add: round_fin_def)

lemma round_fin_le:
  assumes "representable p emin y" "0 \<le> x" "x \<le> y"
  shows "round_fin p emin x \<le> y" and "0 \<le> round_fin p emin x"
proof -
  let ?u = "ulp_exp p emin x"
  have pos: "0 < (2::rat) powi ?u" by simp
  show "round_fin p emin x \<le> y"
  proof (cases "x = 0")
    case False
    with assms(2,3) have "?u \<le> ulp_exp p emin y"
      using ilog2_mono[of x y] by (simp add: ulp_exp_def)
    then obtain k where k: "y = of_int k * 2 powi ?u"
      using representable_multiple[OF assms(1)] assms(2,3) False by fastforce
    have "x / 2 powi ?u \<le> of_int k" using assms(3) pos by (simp add: k pos_divide_le_eq)
    from round_half_even_le_int[OF this] have "of_int (round_half_even (x / 2 powi ?u)) \<le> (of_int k :: rat)"
      by simp
    with pos False show ?thesis unfolding k by (simp add: round_fin_def)
  qed (use assms in \<open>simp add: round_fin_def\<close>)
  have "of_int 0 \<le> x / 2 powi ?u" using assms(2) pos by simp
  from round_half_even_ge_int[OF this] show "0 \<le> round_fin p emin x" by (simp add: round_fin_def)
qed

lemma round_half_even_neg: "round_half_even (- x) = - round_half_even x"
proof (cases "x \<in> \<int>")
  case True
  then obtain n where "x = of_int n" by (auto elim: Ints_cases)
  then show ?thesis by (metis of_int_minus round_half_even_int)
next
  case False
  then have c: "\<lceil>x\<rceil> = \<lfloor>x\<rfloor> + 1" by (metis Ints_of_int ceiling_altdef)
  then have f: "\<lfloor>- x\<rfloor> = - \<lfloor>x\<rfloor> - 1" by (simp add: floor_minus)
  have r: "- x - of_int (- \<lfloor>x\<rfloor> - 1) = 1 - (x - of_int \<lfloor>x\<rfloor>)" by simp
  show ?thesis unfolding round_half_even_def Let_def f r by auto
qed

lemma round_fin_neg: "round_fin p emin (- x) = - round_fin p emin x"
  by (simp add: round_fin_def ulp_exp_def round_half_even_neg)

section \<open>The values of \<open>f32\<close> and \<open>f64\<close>\<close>

definition f32_val :: "rat \<Rightarrow> bool" where
  "f32_val x \<longleftrightarrow> representable 24 (-149) x \<and> \<bar>x\<bar> < 2 powi 128"

definition f64_val :: "rat \<Rightarrow> bool" where
  "f64_val x \<longleftrightarrow> representable 53 (-1074) x \<and> \<bar>x\<bar> < 2 powi 1024"

lemma f32_round_val: "f32_val x \<Longrightarrow> f32_round x = FFin x"
  by (simp add: f32_val_def f32_round_def round_fl_def Let_def round_fin_representable)

lemma f64_round_val: "f64_val x \<Longrightarrow> f64_round x = FFin x"
  by (simp add: f64_val_def f64_round_def round_fl_def Let_def round_fin_representable)

text \<open>Small integers are exact.\<close>

lemma f64_val_nat: "n < 2 ^ 53 \<Longrightarrow> f64_val (of_nat n)"
proof -
  assume n: "n < 2 ^ 53"
  have "(of_nat n :: rat) = of_int (int n) * 2 powi 0" by simp
  moreover have "\<bar>int n\<bar> < 2 ^ 53" using n by simp
  ultimately have "representable 53 (-1074) (of_nat n)"
    unfolding representable_def by (intro exI[of _ "int n"] exI[of _ 0]) simp
  moreover have "(of_nat n :: rat) < 2 powi 1024"
  proof -
    have "(of_nat n :: rat) < of_nat (2 ^ 53)" using n by (simp only: of_nat_less_iff)
    also have "\<dots> = 2 powi 53" by simp
    also have "\<dots> \<le> 2 powi 1024" by (rule powi_mono2) simp
    finally show ?thesis .
  qed
  ultimately show ?thesis by (simp add: f64_val_def)
qed

lemma f64_of_nat_exact: "n < 2 ^ 53 \<Longrightarrow> f64_of_nat n = FFin (of_nat n)"
  by (simp add: f64_of_nat_def f64_round_val f64_val_nat)

text \<open>Scaling a finite sample by a factor between zero and one never increases its magnitude.\<close>

lemma f32_round_scaled:
  assumes "f32_val s" "0 \<le> g" "g \<le> 1"
  shows "\<exists>y. f32_round (s * g) = FFin y \<and> \<bar>y\<bar> \<le> \<bar>s\<bar>"
proof -
  have le: "\<bar>round_fin 24 (-149) (t * g)\<bar> \<le> t" if "representable 24 (-149) t" "0 \<le> t" for t
  proof -
    have "0 \<le> t * g" "t * g \<le> t" using that(2) assms(2,3) by (simp_all add: mult_left_le)
    from round_fin_le[OF that(1) this] show ?thesis by simp
  qed
  have neg: "representable 24 (-149) (- s)"
    using assms(1) unfolding f32_val_def representable_def
    by (metis abs_minus_cancel mult_minus_left of_int_minus)
  have "\<bar>round_fin 24 (-149) (s * g)\<bar> \<le> \<bar>s\<bar>"
  proof (cases "0 \<le> s")
    case True
    with le[of s] assms(1) show ?thesis by (simp add: f32_val_def)
  next
    case False
    with le[OF neg] round_fin_neg[of 24 "-149" "s * g"] show ?thesis by simp
  qed
  with assms(1) show ?thesis by (simp add: f32_round_def round_fl_def Let_def f32_val_def)
qed

lemma f64_round_neg_free:
  assumes "0 \<le> x" "x \<le> y" "f64_val y"
  shows "\<exists>z. f64_round x = FFin z \<and> 0 \<le> z \<and> z \<le> y"
  using round_fin_le[of 53 "-1074" y x] assms
  by (auto simp: f64_round_def round_fl_def Let_def f64_val_def)

end
