(* ===== verification/Audio_Types.thy ===== *)
theory Audio_Types
  imports Floats Paths
begin

text \<open>
  The error type of the audio subsystem (\<open>audio/error.rs\<close>).  Messages of third-party errors are
  strings; \<open>decode_error\<close> lists the messages \<open>decoded.rs\<close> builds itself.  The variants the source
  compiles only for tests are included.
\<close>

datatype decode_error =
    DecodeLibrary string
  | NoDefaultTrack
  | UnknownSampleRate
  | InvalidChannelLayout
  | ZeroSamples
  | NotMultipleOfChannels nat nat

datatype audio_error =
    InvalidRamp duration
  | InvalidVolume f32
  | NoDevice
  | DeviceConfig string
  | BuildStream string
  | PlayStream string
  | Decode decode_error
  | UnknownSound string
  | InvalidSoundId string
  | UnsupportedFormat
  | SoundTooLarge nat nat
  | AudioIo string
  | WorkerUnavailable
  | DeviceUnavailable

end
