(* ===== verification/Sounds.thy ===== *)
theory Sounds
  imports Audio_Types "HOL-Library.Char_ord" "HOL-Library.List_Lexorder"
begin

text \<open>
  The sound library (\<open>audio/sounds.rs\<close>): the two directories, the listing with its \<open>BTreeMap\<close>
  (an association list kept sorted by key, keys compared byte by byte as Rust compares strings),
  and the resolution of a namespaced sound id to a path.  The file system is a snapshot \<open>fs\<close>.
\<close>

section \<open>Data\<close>

datatype sound_format = Wav | Flac

datatype sound_source = Builtin | Custom

record sound_summary =
  ss_id :: string
  ss_name :: string
  ss_source :: sound_source
  ss_bytes :: nat

record sound_library =
  builtin_dir :: path
  custom_dir :: path

definition DEFAULT_BUILTIN_SOUND_DIR :: string where
  "DEFAULT_BUILTIN_SOUND_DIR = ''/usr/share/helm/sounds''"

definition DEFAULT_CUSTOM_SOUND_DIR :: string where
  "DEFAULT_CUSTOM_SOUND_DIR = ''/var/lib/helm/sounds''"

section \<open>Operations\<close>

text \<open>\<open>OsStr::to_str\<close>.\<close>

definition os_to_str :: "string \<Rightarrow> string option" where
  "os_to_str s = (if rust_str s then Some s else None)"

definition format_from_path :: "path \<Rightarrow> sound_format option" where
  "format_from_path p =
     (case Option.bind (extension p) os_to_str of
        None \<Rightarrow> None
      | Some e \<Rightarrow> if e = ''wav'' then Some Wav else if e = ''flac'' then Some Flac else None)"

definition library_new :: "path \<Rightarrow> path \<Rightarrow> sound_library" where
  "library_new b c = \<lparr>builtin_dir = b, custom_dir = c\<rparr>"

definition library_from_env :: "environment \<Rightarrow> sound_library" where
  "library_from_env env =
     library_new
       (case env_var env ''ALARM_DAEMON_SOUND_DIR'' of
          Some v \<Rightarrow> v | None \<Rightarrow> DEFAULT_BUILTIN_SOUND_DIR)
       (case env_var env ''ALARM_DAEMON_CUSTOM_SOUND_DIR'' of
          Some v \<Rightarrow> v | None \<Rightarrow> DEFAULT_CUSTOM_SOUND_DIR)"

text \<open>\<open>BTreeMap::insert\<close>.\<close>

fun btree_insert :: "'k :: linorder \<Rightarrow> 'v \<Rightarrow> ('k \<times> 'v) list \<Rightarrow> ('k \<times> 'v) list" where
  "btree_insert k v [] = [(k, v)]"
| "btree_insert k v ((m, x) # rest) =
     (if k < m then (k, v) # (m, x) # rest
      else if k = m then (k, v) # rest
      else (m, x) # btree_insert k v rest)"

definition source_prefix :: "sound_source \<Rightarrow> string" where
  "source_prefix s = (case s of Builtin \<Rightarrow> ''builtin'' | Custom \<Rightarrow> ''custom'')"

definition sound_id :: "sound_source \<Rightarrow> string \<Rightarrow> string" where
  "sound_id s stem = source_prefix s @ '':'' @ stem"

text \<open>The body of the loop over the directory entries.\<close>

fun collect_entries ::
  "fs \<Rightarrow> path \<Rightarrow> sound_source \<Rightarrow> (string + string) list \<Rightarrow> (string \<times> sound_summary) list \<Rightarrow>
   audio_error + (string \<times> sound_summary) list" where
  "collect_entries fs dir src [] sounds = Inr sounds"
| "collect_entries fs dir src (Inl e # es) sounds = Inl (AudioIo e)"
| "collect_entries fs dir src (Inr n # es) sounds =
     (let p = path_join dir n in
      if format_from_path p = None then collect_entries fs dir src es sounds
      else (case Option.bind (file_stem p) os_to_str of
              None \<Rightarrow> collect_entries fs dir src es sounds
            | Some stem \<Rightarrow>
                (case fs_metadata fs p of
                   Inl e \<Rightarrow> Inl (AudioIo e)
                 | Inr len \<Rightarrow>
                     collect_entries fs dir src es
                       (btree_insert (sound_id src stem)
                          \<lparr>ss_id = sound_id src stem, ss_name = stem, ss_source = src, ss_bytes = len\<rparr>
                          sounds))))"

definition collect ::
  "fs \<Rightarrow> path \<Rightarrow> sound_source \<Rightarrow> (string \<times> sound_summary) list \<Rightarrow>
   audio_error + (string \<times> sound_summary) list" where
  "collect fs dir src sounds =
     (case fs_read_dir fs dir of
        Inl _ \<Rightarrow> Inr sounds
      | Inr entries \<Rightarrow> collect_entries fs dir src entries sounds)"

definition list_sounds :: "fs \<Rightarrow> sound_library \<Rightarrow> audio_error + sound_summary list" where
  "list_sounds fs lib =
     bind_r (collect fs (builtin_dir lib) Builtin []) (\<lambda>sounds.
     bind_r (collect fs (custom_dir lib) Custom sounds) (\<lambda>sounds'.
       Inr (map snd sounds')))"

fun first_existing :: "fs \<Rightarrow> path \<Rightarrow> string \<Rightarrow> string list \<Rightarrow> path option" where
  "first_existing fs dir name [] = None"
| "first_existing fs dir name (ext # exts) =
     (let p = path_join dir (name @ ''.'' @ ext) in
      if path_exists fs p then Some p else first_existing fs dir name exts)"

definition resolve_in :: "fs \<Rightarrow> path \<Rightarrow> string \<Rightarrow> string \<Rightarrow> audio_error + path" where
  "resolve_in fs dir prefix name =
     ok_or (UnknownSound (prefix @ '':'' @ name)) (first_existing fs dir name [''wav'', ''flac''])"

definition resolve_path :: "fs \<Rightarrow> sound_library \<Rightarrow> string \<Rightarrow> audio_error + path" where
  "resolve_path fs lib sid =
     (case strip_prefix ''builtin:'' sid of
        Some name \<Rightarrow> resolve_in fs (builtin_dir lib) ''builtin'' name
      | None \<Rightarrow>
          (case strip_prefix ''custom:'' sid of
             Some name \<Rightarrow> resolve_in fs (custom_dir lib) ''custom'' name
           | None \<Rightarrow> Inl (InvalidSoundId sid)))"

section \<open>The ordered map\<close>

lemma keys_btree_insert: "fst ` set (btree_insert k v m) = insert k (fst ` set m)"
  by (induction k v m rule: btree_insert.induct) auto

lemma sorted_btree_insert:
  "sorted_wrt (<) (map fst m) \<Longrightarrow> sorted_wrt (<) (map fst (btree_insert k v m))"
proof (induction k v m rule: btree_insert.induct)
  case (1 k v)
  then show ?case by simp
next
  case (2 k v m x rest)
  have keys: "set (map fst (btree_insert k v rest)) = insert k (set (map fst rest))"
    by (simp add: keys_btree_insert)
  show ?case
  proof (cases k m rule: linorder_cases)
    case less
    with 2 show ?thesis by auto
  next
    case equal
    with 2 show ?thesis by simp
  next
    case greater
    with 2 have "sorted_wrt (<) (map fst (btree_insert k v rest))" by simp
    with greater 2(2) keys show ?thesis by auto
  qed
qed

lemma set_btree_insert: "set (btree_insert k v m) \<subseteq> insert (k, v) (set m)"
  by (induction k v m rule: btree_insert.induct) auto

section \<open>The listing\<close>

definition summary :: "sound_source \<Rightarrow> string \<Rightarrow> nat \<Rightarrow> sound_summary" where
  "summary src stem len = \<lparr>ss_id = sound_id src stem, ss_name = stem, ss_source = src, ss_bytes = len\<rparr>"

text \<open>A directory entry the loop records, with its stem and size.\<close>

definition sound_entry :: "fs \<Rightarrow> path \<Rightarrow> string \<Rightarrow> string \<Rightarrow> nat \<Rightarrow> bool" where
  "sound_entry fs dir n stem len \<longleftrightarrow>
     format_from_path (path_join dir n) \<noteq> None \<and>
     Option.bind (file_stem (path_join dir n)) os_to_str = Some stem \<and>
     fs_metadata fs (path_join dir n) = Inr len"

text \<open>One iteration: an entry is skipped, fails the listing, or is inserted.\<close>

lemma collect_entries_Cons:
  "(\<nexists>stem len. sound_entry fs dir n stem len) \<and>
     (collect_entries fs dir src (Inr n # es) sounds = collect_entries fs dir src es sounds
      \<or> (\<exists>e. collect_entries fs dir src (Inr n # es) sounds = Inl e))
   \<or> (\<exists>stem len. sound_entry fs dir n stem len \<and>
        collect_entries fs dir src (Inr n # es) sounds =
          collect_entries fs dir src es (btree_insert (sound_id src stem) (summary src stem len) sounds))"
  by (cases "format_from_path (path_join dir n)";
      cases "Option.bind (file_stem (path_join dir n)) os_to_str";
      cases "fs_metadata fs (path_join dir n)")
     (simp_all add: sound_entry_def summary_def Let_def)

text \<open>Invariant rule of the loop.\<close>

lemma collect_entries_inv:
  assumes "collect_entries fs dir src es sounds = Inr out" "P sounds"
    and "\<forall>m n stem len. P m \<longrightarrow> Inr n \<in> set es \<longrightarrow> sound_entry fs dir n stem len \<longrightarrow>
      P (btree_insert (sound_id src stem) (summary src stem len) m)"
  shows "P out"
  using assms
proof (induction es arbitrary: sounds)
  case Nil
  then show ?case by simp
next
  case (Cons e es)
  show ?case
  proof (cases e)
    case (Inl err)
    then show ?thesis using Cons.prems by simp
  next
    case (Inr n)
    then consider "collect_entries fs dir src es sounds = Inr out"
      | stem len where "sound_entry fs dir n stem len"
          "collect_entries fs dir src es (btree_insert (sound_id src stem) (summary src stem len) sounds) = Inr out"
      using collect_entries_Cons[of fs dir n src es sounds] Cons.prems(1) by auto
    then show ?thesis
    proof cases
      case 1
      then show ?thesis using Cons.IH[of sounds] Cons.prems by simp
    next
      case 2
      then show ?thesis
        using Cons.IH[of "btree_insert (sound_id src stem) (summary src stem len) sounds"] Cons.prems Inr
        by simp
    qed
  qed
qed

text \<open>Every recordable entry is in the result, and nothing already there is lost.\<close>

lemma collect_entries_keys:
  assumes "collect_entries fs dir src es sounds = Inr out"
  shows "fst ` set out = fst ` set sounds \<union>
    {sound_id src stem | n stem len. Inr n \<in> set es \<and> sound_entry fs dir n stem len}"
  using assms
proof (induction es arbitrary: sounds)
  case Nil
  then show ?case by simp
next
  case (Cons e es)
  show ?case
  proof (cases e)
    case (Inl err)
    then show ?thesis using Cons.prems by simp
  next
    case (Inr n)
    from Inr consider "\<nexists>stem len. sound_entry fs dir n stem len"
          "collect_entries fs dir src es sounds = Inr out"
      | stem len where "sound_entry fs dir n stem len"
          "collect_entries fs dir src es (btree_insert (sound_id src stem) (summary src stem len) sounds) = Inr out"
      using collect_entries_Cons[of fs dir n src es sounds] Cons.prems(1) by auto
    then show ?thesis
    proof cases
      case 1
      then show ?thesis using Cons.IH[of sounds] Inr by auto
    next
      case 2
      then have same: "sound_entry fs dir n s l \<Longrightarrow> s = stem \<and> l = len" for s l
        by (auto simp: sound_entry_def)
      have "{sound_id src s | n' s l. Inr n' \<in> set (e # es) \<and> sound_entry fs dir n' s l} =
          insert (sound_id src stem) {sound_id src s | n' s l. Inr n' \<in> set es \<and> sound_entry fs dir n' s l}"
        using Inr 2(1) by (auto dest: same)
      then show ?thesis
        using Cons.IH[OF 2(2)] by (simp add: keys_btree_insert)
    qed
  qed
qed

definition keyed :: "(string \<times> sound_summary) list \<Rightarrow> bool" where
  "keyed m \<longleftrightarrow> sorted_wrt (<) (map fst m) \<and> (\<forall>(k, v) \<in> set m. ss_id v = k)"

lemma keyed_insert: "keyed m \<Longrightarrow> keyed (btree_insert (sound_id src stem) (summary src stem len) m)"
  using set_btree_insert[of "sound_id src stem" "summary src stem len" m]
  by (auto simp: keyed_def sorted_btree_insert summary_def)

lemma collect_keyed: "collect fs dir src sounds = Inr out \<Longrightarrow> keyed sounds \<Longrightarrow> keyed out"
  unfolding collect_def
  by (auto split: sum.splits intro: collect_entries_inv[where P = keyed] keyed_insert)

lemma ids_keyed: "keyed m \<Longrightarrow> map ss_id (map snd m) = map fst m"
  by (auto simp: keyed_def)

text \<open>The ids a directory contributes.\<close>

definition dir_ids :: "fs \<Rightarrow> path \<Rightarrow> sound_source \<Rightarrow> string set" where
  "dir_ids fs dir src =
     (case fs_read_dir fs dir of
        Inl _ \<Rightarrow> {}
      | Inr es \<Rightarrow> {sound_id src stem | n stem len. Inr n \<in> set es \<and> sound_entry fs dir n stem len})"

lemma collect_ids: "collect fs dir src sounds = Inr out \<Longrightarrow> fst ` set out = fst ` set sounds \<union> dir_ids fs dir src"
  by (cases "fs_read_dir fs dir") (simp_all add: collect_def dir_ids_def collect_entries_keys)

lemma list_sounds_ids:
  assumes "list_sounds fs lib = Inr out"
  shows "sorted_wrt (<) (map ss_id out)
    \<and> set (map ss_id out) = dir_ids fs (builtin_dir lib) Builtin \<union> dir_ids fs (custom_dir lib) Custom"
proof -
  obtain m1 m2 where c: "collect fs (builtin_dir lib) Builtin [] = Inr m1"
    "collect fs (custom_dir lib) Custom m1 = Inr m2" "out = map snd m2"
    using assms by (auto simp: list_sounds_def bind_r_eq_Inr)
  have "keyed []" by (simp add: keyed_def)
  then have "keyed m2" using c(1,2) collect_keyed by blast
  then have "map ss_id out = map fst m2" "sorted_wrt (<) (map fst m2)"
    using ids_keyed[of m2] by (simp_all add: c(3) keyed_def)
  with collect_ids[OF c(1)] collect_ids[OF c(2)] show ?thesis by simp
qed

section \<open>Resolution\<close>

lemma first_existing_Some:
  "first_existing fs dir name exts = Some p \<Longrightarrow>
    path_exists fs p \<and> (\<exists>ext \<in> set exts. p = path_join dir (name @ ''.'' @ ext))"
  by (induction exts) (auto simp: Let_def split: if_splits)

lemma first_existing_None:
  "first_existing fs dir name exts = None \<longleftrightarrow>
    (\<forall>ext \<in> set exts. \<not> path_exists fs (path_join dir (name @ ''.'' @ ext)))"
  by (induction exts) (auto simp: Let_def)

lemma format_extension:
  assumes "entry_name n" "format_from_path (path_join dir n) \<noteq> None"
    and "Option.bind (file_stem (path_join dir n)) os_to_str = Some stem"
  shows "\<exists>ext \<in> {''wav'', ''flac''}. n = stem @ ''.'' @ ext"
proof -
  obtain ext where ext: "snd (split_at_dot n) = Some ext" "ext \<in> {''wav'', ''flac''}"
    using assms(1,2)
    by (auto simp: format_from_path_def extension_def os_to_str_def split: option.splits if_splits
        Option.bind_splits)
  moreover have "fst (split_at_dot n) = stem"
    using assms(1,3) by (auto simp: file_stem_def os_to_str_def split: if_splits)
  ultimately show ?thesis
    using split_at_dot_Some[of n stem ext] by (metis prod.collapse)
qed

lemma resolve_sound_id:
  "resolve_path fs lib (sound_id Builtin name) = resolve_in fs (builtin_dir lib) ''builtin'' name"
  "resolve_path fs lib (sound_id Custom name) = resolve_in fs (custom_dir lib) ''custom'' name"
  by (simp_all add: resolve_path_def sound_id_def source_prefix_def)

lemma dir_ids_resolve:
  assumes "i \<in> dir_ids fs dir src" and "\<forall>es n. fs_read_dir fs dir = Inr es \<longrightarrow> Inr n \<in> set es \<longrightarrow> entry_name n"
  shows "\<exists>name p. i = sound_id src name \<and> resolve_in fs dir prefix name = Inr p \<and> path_exists fs p"
proof -
  obtain es n stem len where e: "fs_read_dir fs dir = Inr es" "Inr n \<in> set es"
    "sound_entry fs dir n stem len" "i = sound_id src stem"
    using assms(1) by (auto simp: dir_ids_def split: sum.splits)
  then obtain ext where "ext \<in> {''wav'', ''flac''}" "n = stem @ ''.'' @ ext"
    using format_extension[of n dir stem] assms(2) by (auto simp: sound_entry_def)
  moreover have "path_exists fs (path_join dir n)"
    using e(3) by (simp add: sound_entry_def path_exists_def)
  ultimately have "first_existing fs dir stem [''wav'', ''flac''] \<noteq> None"
    unfolding first_existing_None by auto
  then obtain p where p: "first_existing fs dir stem [''wav'', ''flac''] = Some p" by blast
  then have "resolve_in fs dir prefix stem = Inr p" unfolding resolve_in_def by simp
  with e(4) first_existing_Some[OF p] show ?thesis by blast
qed

section \<open>Properties\<close>

text \<open>A directory listing only has entry names; the hypothesis the listing relies on.\<close>

definition listing_ok :: "fs \<Rightarrow> sound_library \<Rightarrow> bool" where
  "listing_ok fs lib \<longleftrightarrow>
     (\<forall>dir \<in> {builtin_dir lib, custom_dir lib}. \<forall>es n.
        fs_read_dir fs dir = Inr es \<longrightarrow> Inr n \<in> set es \<longrightarrow> entry_name n)"

text \<open>A concrete library for the witnesses: one builtin WAV, one custom FLAC, a stray text file.\<close>

definition demo_fs :: fs where
  "demo_fs =
     \<lparr>fs_metadata = (\<lambda>p. if p \<in> {''/b/horn.wav'', ''/c/bell.flac'', ''/c/note.txt''} then Inr 9 else Inl ''ENOENT''),
      fs_read_dir = (\<lambda>d. if d = ''/b'' then Inr [Inr ''horn.wav'']
        else if d = ''/c'' then Inr [Inr ''note.txt'', Inr ''bell.flac''] else Inl ''ENOENT'')\<rparr>"

definition demo_lib :: sound_library where
  "demo_lib = \<lparr>builtin_dir = ''/b'', custom_dir = ''/c''\<rparr>"

lemma demo_listing_ok: "listing_ok demo_fs demo_lib"
  by (auto simp: listing_ok_def demo_lib_def demo_fs_def entry_name_def)

lemma demo_list_sounds:
  "list_sounds demo_fs demo_lib =
     Inr [summary Builtin ''horn'' 9, summary Custom ''bell'' 9]"
  by code_simp



text \<open>What is listed can be armed: every id of a successful listing resolves to a path that
  exists.\<close>

lemma listed_sounds_resolve:
  assumes "listing_ok fs lib" and "list_sounds fs lib = Inr out" and "s \<in> set out"
  shows "\<exists>p. resolve_path fs lib (ss_id s) = Inr p \<and> path_exists fs p"
proof -
  have "ss_id s \<in> dir_ids fs (builtin_dir lib) Builtin \<union> dir_ids fs (custom_dir lib) Custom"
    using list_sounds_ids[OF assms(2)] assms(3) by auto
  then consider "ss_id s \<in> dir_ids fs (builtin_dir lib) Builtin"
    | "ss_id s \<in> dir_ids fs (custom_dir lib) Custom" by blast
  then show ?thesis
  proof cases
    case 1
    from dir_ids_resolve[OF this, of "''builtin''"] assms(1) show ?thesis
      by (auto simp: listing_ok_def resolve_sound_id)
  next
    case 2
    from dir_ids_resolve[OF this, of "''custom''"] assms(1) show ?thesis
      by (auto simp: listing_ok_def resolve_sound_id)
  qed
qed

lemma listed_sounds_resolve_example:
  "\<exists>p. resolve_path demo_fs demo_lib ''custom:bell'' = Inr p \<and> path_exists demo_fs p"
  using listed_sounds_resolve[OF demo_listing_ok demo_list_sounds, of "summary Custom ''bell'' 9"]
  by (simp add: summary_def sound_id_def source_prefix_def)

text \<open>Resolution on every branch: an id without one of the two prefixes is invalid; with a
  prefix, the result is the existing WAV file of that name, else the existing FLAC file, else
  \<open>UnknownSound\<close> with the id.\<close>

lemma resolve_path_exact:
  "resolve_path fs lib sid =
     (case (strip_prefix ''builtin:'' sid, strip_prefix ''custom:'' sid) of
        (None, None) \<Rightarrow> Inl (InvalidSoundId sid)
      | (b, c) \<Rightarrow>
          (let name = (case b of Some n \<Rightarrow> n | None \<Rightarrow> the c);
               dir = (if b = None then custom_dir lib else builtin_dir lib);
               wav = path_join dir (name @ ''.wav'');
               flac = path_join dir (name @ ''.flac'')
           in if path_exists fs wav then Inr wav
              else if path_exists fs flac then Inr flac
              else Inl (UnknownSound sid)))"
  by (auto simp: resolve_path_def resolve_in_def strip_prefix_Some Let_def split: option.splits)

text \<open>C40: the name part of an id is used as a path.  A name that is an absolute path replaces the
  sound directory: any existing WAV file of the system is accepted under either prefix.\<close>

theorem absolute_name_escapes:
  assumes "is_absolute name" and "path_exists fs (name @ ''.wav'')"
  shows "resolve_path fs lib (sound_id src name) = Inr (name @ ''.wav'')"
proof -
  have "is_absolute (name @ ''.wav'')"
    using assms(1) by (auto simp: is_absolute_def split: list.splits)
  then show ?thesis
    using assms(2) by (cases src) (simp_all add: resolve_sound_id resolve_in_def path_join_def Let_def)
qed

theorem absolute_name_escapes_witness:
  "resolve_path \<lparr>fs_metadata = (\<lambda>p. if p = ''/home/u/x.wav'' then Inr 1 else Inl ''ENOENT''),
                 fs_read_dir = (\<lambda>_. Inl ''ENOENT'')\<rparr> demo_lib ''custom:/home/u/x'' = Inr ''/home/u/x.wav''"
  using absolute_name_escapes[of "''/home/u/x''"
      "\<lparr>fs_metadata = (\<lambda>p. if p = ''/home/u/x.wav'' then Inr 1 else Inl ''ENOENT''),
        fs_read_dir = (\<lambda>_. Inl ''ENOENT'')\<rparr>" demo_lib Custom]
  by (simp add: is_absolute_def path_exists_def sound_id_def source_prefix_def)

end
