(* ===== verification/Profile.thy ===== *)
theory Profile
  imports Audio_Types
begin

text \<open>
  Volume profiles (\<open>audio/profile.rs\<close>): \<open>Ramp\<close>, the validated \<open>VolumeProfile\<close> and the gain
  function \<open>gain_at\<close>.  The linear ramp is compiled for tests only; the daemon itself always plays
  with \<open>Immediate\<close>.
\<close>

datatype ramp = Immediate | Linear duration

definition MIN_RAMP :: duration where
  "MIN_RAMP = dur_from_secs 2"

definition MAX_RAMP :: duration where
  "MAX_RAMP = dur_from_secs 10"

definition ramp_linear :: "duration \<Rightarrow> audio_error + ramp" where
  "ramp_linear d = (if d < MIN_RAMP \<or> d > MAX_RAMP then Inl (InvalidRamp d) else Inr (Linear d))"

record volume_profile =
  vp_target :: f32
  vp_ramp :: ramp
  vp_repeat :: bool

definition profile_new :: "f32 \<Rightarrow> ramp \<Rightarrow> bool \<Rightarrow> audio_error + volume_profile" where
  "profile_new target r rep =
     (if \<not> is_finite target \<or> \<not> (fl_le (FFin 0) target \<and> fl_le target (FFin 1))
      then Inl (InvalidVolume target)
      else Inr \<lparr>vp_target = target, vp_ramp = r, vp_repeat = rep\<rparr>)"

text \<open>\<open>Duration::as_secs_f32\<close>: whole seconds and nanoseconds are converted and added separately.\<close>

definition as_secs_f32 :: "duration \<Rightarrow> f32" where
  "as_secs_f32 d =
     fl_add f32_round (f32_of_nat (d div 1000000000))
       (fl_div f32_round (f32_of_nat (d mod 1000000000)) (f32_of_nat 1000000000))"

definition gain_at :: "ramp \<Rightarrow> f32 \<Rightarrow> duration \<Rightarrow> f32" where
  "gain_at r target elapsed =
     (let target = fl_clamp target (FFin 0) (FFin 1) in
      case r of
        Immediate \<Rightarrow> target
      | Linear d \<Rightarrow>
          (let full = as_secs_f32 d in
           if fl_le full (FFin 0) then target
           else (let frac = fl_clamp (fl_div f32_round (as_secs_f32 elapsed) full) (FFin 0) (FFin 1)
                 in fl_clamp (fl_mul f32_round target frac) (FFin 0) (FFin 1))))"

text \<open>The profile of every alarm the daemon plays.\<close>

definition full_volume :: volume_profile where
  "full_volume = \<lparr>vp_target = FFin 1, vp_ramp = Immediate, vp_repeat = False\<rparr>"

section \<open>Lemmas\<close>

text \<open>The values a gain may take.\<close>

definition unit_range :: "fl \<Rightarrow> bool" where
  "unit_range x \<longleftrightarrow> (\<exists>r. x = FFin r \<and> 0 \<le> r \<and> r \<le> 1)"

lemma clamp_unit_range: "x \<noteq> FNaN \<Longrightarrow> unit_range (fl_clamp x (FFin 0) (FFin 1))"
  by (cases x) (auto simp: fl_clamp_def fl_lt_def unit_range_def)

lemma clamp_unit_id [simp]: "unit_range x \<Longrightarrow> fl_clamp x (FFin 0) (FFin 1) = x"
  by (auto simp: unit_range_def fl_clamp_def fl_lt_def)

lemma profile_new_iff:
  "profile_new target r rep = Inr v \<longleftrightarrow>
    unit_range target \<and> v = \<lparr>vp_target = target, vp_ramp = r, vp_repeat = rep\<rparr>"
  by (cases target) (auto simp: profile_new_def is_finite_def unit_range_def)

lemma round_fl_not_nan [simp]: "round_fl p emin emax x \<noteq> FNaN"
  by (simp add: round_fl_def Let_def)

lemma f32_round_not_nan [simp]: "f32_round x \<noteq> FNaN" "f32_of_nat n \<noteq> FNaN"
  by (simp_all add: f32_round_def f32_of_nat_def)

end
