(* ===== verification/Decoded.thy ===== *)
theory Decoded
  imports Audio_Types
begin

text \<open>
  Decoding (\<open>audio/decoded.rs\<close>): \<open>DecodedSound\<close> with its accessors and the packet loop of
  \<open>decode\<close>.  The symphonia crate is not part of the repository: its calls are the fields of the
  parameter \<open>symphonia_api\<close>.  The loop ends when the container runs out of packets, so it is a
  partial function whose value \<open>None\<close> means that it does not return.
\<close>

section \<open>The decoder interface\<close>

datatype sym_error = SymUnexpectedEof | SymIo string | SymResetRequired | SymDecode string | SymOther string

record codec_params =
  cp_sample_rate :: "nat option"
  cp_channels :: "nat option"

record track =
  tr_id :: nat
  tr_params :: codec_params

text \<open>A decoded packet is its interleaved samples (\<open>SampleBuffer::copy_interleaved_ref\<close>).\<close>

record ('src, 'fmt, 'dec, 'pkt) symphonia_api =
  sy_probe :: "string option \<Rightarrow> 'src \<Rightarrow> string + 'fmt"
  sy_default_track :: "'fmt \<Rightarrow> track option"
  sy_make :: "codec_params \<Rightarrow> string + 'dec"
  sy_next_packet :: "'fmt \<Rightarrow> (sym_error + 'pkt) \<times> 'fmt"
  sy_track_id :: "'pkt \<Rightarrow> nat"
  sy_decode :: "'dec \<Rightarrow> 'pkt \<Rightarrow> (sym_error + f32 list) \<times> 'dec"

definition sym_text :: "sym_error \<Rightarrow> string" where
  "sym_text e =
     (case e of SymUnexpectedEof \<Rightarrow> ''unexpected end of file'' | SymIo t \<Rightarrow> t
      | SymResetRequired \<Rightarrow> ''decoder needs to be reset'' | SymDecode t \<Rightarrow> t | SymOther t \<Rightarrow> t)"

section \<open>\<open>struct DecodedSound\<close>\<close>

record decoded_sound =
  ds_samples :: "f32 list"
  ds_channels :: nat
  ds_sample_rate :: nat

definition ds_frames :: "decoded_sound \<Rightarrow> nat" where
  "ds_frames s = length (ds_samples s) div ds_channels s"

text \<open>What \<open>decode\<close> guarantees of the sounds it builds.\<close>

definition sound_wf :: "decoded_sound \<Rightarrow> bool" where
  "sound_wf s \<longleftrightarrow>
     0 < ds_channels s \<and> ds_channels s < 2 ^ 16 \<and> ds_samples s \<noteq> [] \<and>
     length (ds_samples s) mod ds_channels s = 0"

section \<open>Decoding\<close>

text \<open>The packet loop: packets of other tracks and corrupt packets are skipped, end of file and a
  required reset end it, any other error aborts the decode.\<close>

partial_function (option) packet_loop ::
  "('src, 'fmt, 'dec, 'pkt) symphonia_api \<Rightarrow> nat \<Rightarrow> 'fmt \<Rightarrow> 'dec \<Rightarrow> f32 list \<Rightarrow>
   (audio_error + f32 list) option" where
  "packet_loop api tid fmt dec samples =
     (case sy_next_packet api fmt of
        (Inl SymUnexpectedEof, _) \<Rightarrow> Some (Inr samples)
      | (Inl SymResetRequired, _) \<Rightarrow> Some (Inr samples)
      | (Inl e, _) \<Rightarrow> Some (Inl (Decode (DecodeLibrary (sym_text e))))
      | (Inr pkt, fmt') \<Rightarrow>
          if sy_track_id api pkt \<noteq> tid then packet_loop api tid fmt' dec samples
          else (case sy_decode api dec pkt of
                  (Inr buf, dec') \<Rightarrow> packet_loop api tid fmt' dec' (samples @ buf)
                | (Inl (SymDecode _), dec') \<Rightarrow> packet_loop api tid fmt' dec' samples
                | (Inl e, _) \<Rightarrow> Some (Inl (Decode (DecodeLibrary (sym_text e))))))"

definition channel_count :: "codec_params \<Rightarrow> nat option" where
  "channel_count cp =
     (case cp_channels cp of
        None \<Rightarrow> None
      | Some n \<Rightarrow> if n < 2 ^ 16 \<and> n > 0 then Some n else None)"

text \<open>The checks behind the loop.\<close>

definition finish_decode :: "nat \<Rightarrow> nat \<Rightarrow> f32 list \<Rightarrow> audio_error + decoded_sound" where
  "finish_decode channels rate samples =
     (if samples = [] then Inl (Decode ZeroSamples)
      else if length samples mod channels \<noteq> 0
        then Inl (Decode (NotMultipleOfChannels (length samples) channels))
      else Inr \<lparr>ds_samples = samples, ds_channels = channels, ds_sample_rate = rate\<rparr>)"

definition decode ::
  "('src, 'fmt, 'dec, 'pkt) symphonia_api \<Rightarrow> 'src \<Rightarrow> string option \<Rightarrow>
   (audio_error + decoded_sound) option" where
  "decode api src hint =
     (case sy_probe api hint src of
        Inl e \<Rightarrow> Some (Inl (Decode (DecodeLibrary e)))
      | Inr fmt \<Rightarrow>
          (case sy_default_track api fmt of
             None \<Rightarrow> Some (Inl (Decode NoDefaultTrack))
           | Some t \<Rightarrow>
               (case cp_sample_rate (tr_params t) of
                  None \<Rightarrow> Some (Inl (Decode UnknownSampleRate))
                | Some rate \<Rightarrow>
                    (case channel_count (tr_params t) of
                       None \<Rightarrow> Some (Inl (Decode InvalidChannelLayout))
                     | Some channels \<Rightarrow>
                         (case sy_make api (tr_params t) of
                            Inl e \<Rightarrow> Some (Inl (Decode (DecodeLibrary e)))
                          | Inr dec \<Rightarrow>
                              map_option (\<lambda>r. bind_r r (finish_decode channels rate))
                                (packet_loop api (tr_id t) fmt dec []))))))"

definition from_path_decode ::
  "('src, 'fmt, 'dec, 'pkt) symphonia_api \<Rightarrow> (path \<Rightarrow> string + 'src) \<Rightarrow> path \<Rightarrow>
   (audio_error + decoded_sound) option" where
  "from_path_decode api open_file p =
     (case open_file p of
        Inl e \<Rightarrow> Some (Inl (AudioIo e))
      | Inr src \<Rightarrow>
          decode api src (Option.bind (extension p) (\<lambda>e. if rust_str e then Some e else None)))"

definition from_bytes_decode ::
  "('src, 'fmt, 'dec, 'pkt) symphonia_api \<Rightarrow> 'src \<Rightarrow> string option \<Rightarrow>
   (audio_error + decoded_sound) option" where
  "from_bytes_decode api bytes ext = decode api bytes ext"

section \<open>Lemmas\<close>

lemma finish_decode_wf:
  "finish_decode channels rate samples = Inr s \<Longrightarrow> 0 < channels \<Longrightarrow> channels < 2 ^ 16 \<Longrightarrow>
    sound_wf s \<and> ds_channels s = channels \<and> ds_sample_rate s = rate"
  by (auto simp: finish_decode_def sound_wf_def split: if_splits)

lemma channel_count_range: "channel_count cp = Some n \<Longrightarrow> 0 < n \<and> n < 2 ^ 16"
  by (auto simp: channel_count_def split: option.splits if_splits)

lemma decode_wf: "decode api src hint = Some (Inr s) \<Longrightarrow> sound_wf s"
  unfolding decode_def
  by (auto simp: bind_r_eq_Inr split: sum.splits option.splits
      dest!: channel_count_range finish_decode_wf)

lemma sound_wf_frames: "sound_wf s \<Longrightarrow> length (ds_samples s) = ds_frames s * ds_channels s \<and> 0 < ds_frames s"
  by (auto simp: sound_wf_def ds_frames_def mod_eq_0_iff_dvd elim!: dvdE)
     (metis length_0_conv mult_0_right neq0_conv)

text \<open>The loop returns when every packet leaves fewer packets behind.\<close>

lemma packet_loop_returns:
  assumes "\<And>fmt pkt fmt'. sy_next_packet api fmt = (Inr pkt, fmt') \<Longrightarrow> left fmt' < (left fmt :: nat)"
  shows "\<exists>r. packet_loop api tid fmt dec samples = Some r"
proof (induction fmt arbitrary: dec samples rule: measure_induct_rule[where f = left])
  case (less fmt)
  obtain r fmt' where np: "sy_next_packet api fmt = (r, fmt')" by (cases "sy_next_packet api fmt")
  show ?case
  proof (cases r)
    case (Inl e)
    with np show ?thesis by (subst packet_loop.simps) (simp split: sym_error.split)
  next
    case (Inr pkt)
    with np assms have "left fmt' < left fmt" by blast
    then have IH: "\<exists>r. packet_loop api tid fmt' dec' samples' = Some r" for dec' samples'
      using less.IH by blast
    obtain q dec' where "sy_decode api dec pkt = (q, dec')" by (cases "sy_decode api dec pkt")
    with np Inr IH show ?thesis
      by (subst packet_loop.simps) (simp split: sum.split sym_error.split)
  qed
qed

text \<open>The packets a container yields before its regular end.\<close>

inductive packets :: "('src, 'fmt, 'dec, 'pkt) symphonia_api \<Rightarrow> 'fmt \<Rightarrow> 'pkt list \<Rightarrow> bool" for api where
  packets_end: "sy_next_packet api fmt = (Inl e, fmt') \<Longrightarrow> e \<in> {SymUnexpectedEof, SymResetRequired} \<Longrightarrow> packets api fmt []"
| packets_next: "sy_next_packet api fmt = (Inr pkt, fmt') \<Longrightarrow> packets api fmt' ps \<Longrightarrow> packets api fmt (pkt # ps)"

text \<open>The reference: decode the packets of the track one after the other, skipping corrupt ones.\<close>

fun decode_all ::
  "('src, 'fmt, 'dec, 'pkt) symphonia_api \<Rightarrow> 'dec \<Rightarrow> 'pkt list \<Rightarrow> audio_error + f32 list" where
  "decode_all api dec [] = Inr []"
| "decode_all api dec (pkt # ps) =
     (case sy_decode api dec pkt of
        (Inr buf, dec') \<Rightarrow> bind_r (decode_all api dec' ps) (\<lambda>rest. Inr (buf @ rest))
      | (Inl (SymDecode t), dec') \<Rightarrow> decode_all api dec' ps
      | (Inl e, dec') \<Rightarrow> Inl (Decode (DecodeLibrary (sym_text e))))"

lemma packet_loop_exact:
  assumes "packets api fmt ps"
  shows "packet_loop api tid fmt dec samples =
    Some (bind_r (decode_all api dec (filter (\<lambda>p. sy_track_id api p = tid) ps)) (\<lambda>rest. Inr (samples @ rest)))"
  using assms
proof (induction arbitrary: dec samples rule: packets.induct)
  case (packets_end fmt e fmt')
  then show ?case by (subst packet_loop.simps) (auto simp: bind_r_def)
next
  case (packets_next fmt pkt fmt' ps)
  obtain q dec' where q: "sy_decode api dec pkt = (q, dec')" by (cases "sy_decode api dec pkt")
  show ?case
    using packets_next q
    by (subst packet_loop.simps) (auto simp: bind_r_def split: sum.splits sym_error.splits)
qed

section \<open>Properties\<close>

text \<open>C32: decoding is exact and total on finite containers.  If the container yields the packets
  \<open>ps\<close> and then ends, \<open>decode\<close> returns, its samples are those of the packets of the default track
  in order without the corrupt ones, the three final checks apply to them, and every sound it
  returns is well-formed: a whole, positive number of frames of at least one channel.\<close>

theorem decode_exact:
  assumes "sy_probe api hint src = Inr fmt" and "sy_default_track api fmt = Some t"
    and "cp_sample_rate (tr_params t) = Some rate" and "channel_count (tr_params t) = Some ch"
    and "sy_make api (tr_params t) = Inr dec" and "packets api fmt ps"
  shows "\<exists>r. decode api src hint = Some r
    \<and> r = bind_r (decode_all api dec (filter (\<lambda>p. sy_track_id api p = tr_id t) ps)) (finish_decode ch rate)
    \<and> (case r of Inr s \<Rightarrow> ds_channels s = ch \<and> ds_sample_rate s = rate
          \<and> length (ds_samples s) = ds_frames s * ch \<and> 0 < ds_frames s \<and> 0 < ch \<and> ch < 2 ^ 16
       | Inl _ \<Rightarrow> True)"
proof -
  let ?r = "bind_r (decode_all api dec (filter (\<lambda>p. sy_track_id api p = tr_id t) ps)) (finish_decode ch rate)"
  have d: "decode api src hint = Some ?r"
    using assms(1-5) packet_loop_exact[OF assms(6), of "tr_id t" dec "[]"]
    by (auto simp: decode_def bind_r_def split: sum.split)
  have "ds_channels s = ch \<and> ds_sample_rate s = rate \<and> length (ds_samples s) = ds_frames s * ch
      \<and> 0 < ds_frames s \<and> 0 < ch \<and> ch < 2 ^ 16" if rs: "?r = Inr s" for s
  proof -
    obtain samples where "finish_decode ch rate samples = Inr s" using rs by (auto simp: bind_r_eq_Inr)
    with finish_decode_wf channel_count_range[OF assms(4)] sound_wf_frames show ?thesis by metis
  qed
  then show ?thesis using d by (auto split: sum.split)
qed

text \<open>A container of one corrupt and one good packet of the track and one of another track.\<close>

definition three_packets :: "(unit, nat, unit, nat) symphonia_api" where
  "three_packets =
     \<lparr>sy_probe = (\<lambda>_ _. Inr 0),
      sy_default_track = (\<lambda>_. Some \<lparr>tr_id = 0, tr_params = \<lparr>cp_sample_rate = Some 8000, cp_channels = Some 1\<rparr>\<rparr>),
      sy_make = (\<lambda>_. Inr ()),
      sy_next_packet = (\<lambda>n. if n < 3 then (Inr n, Suc n) else (Inl SymUnexpectedEof, n)),
      sy_track_id = (\<lambda>n. if n = 1 then 7 else 0),
      sy_decode = (\<lambda>d n. (if n = 0 then Inl (SymDecode ''bad'') else Inr [FFin (of_nat n)], d))\<rparr>"

lemma three_packets_all: "packets three_packets 0 [0, 1, 2]"
proof -
  have "packets three_packets 3 []" by (rule packets_end[of _ _ SymUnexpectedEof 3]) (simp_all add: three_packets_def)
  then have "packets three_packets 2 [2]"
    by (rule packets_next[of _ _ _ 3, rotated]) (simp add: three_packets_def)
  then have "packets three_packets 1 [1, 2]"
    by (rule packets_next[of _ _ _ 2, rotated]) (simp add: three_packets_def)
  then show ?thesis by (rule packets_next[of _ _ _ 1, rotated]) (simp add: three_packets_def)
qed

theorem decode_exact_witness:
  "decode three_packets () None = Some (Inr \<lparr>ds_samples = [FFin 2], ds_channels = 1, ds_sample_rate = 8000\<rparr>)"
proof -
  let ?t = "\<lparr>tr_id = 0, tr_params = \<lparr>cp_sample_rate = Some 8000, cp_channels = Some 1\<rparr>\<rparr>"
  have "sy_probe three_packets None () = Inr 0" "sy_default_track three_packets 0 = Some ?t"
    "cp_sample_rate (tr_params ?t) = Some 8000" "channel_count (tr_params ?t) = Some 1"
    "sy_make three_packets (tr_params ?t) = Inr ()"
    by (simp_all add: three_packets_def channel_count_def)
  from decode_exact[OF this three_packets_all] show ?thesis
    by (simp add: three_packets_def bind_r_def finish_decode_def)
qed

end
