(* ===== verification/Audio_Player.thy ===== *)
theory Audio_Player
  imports Profile Decoded
begin

text \<open>
  The trait \<open>AlarmAudio\<close> (\<open>audio/mod.rs\<close>) as a record of operations and as the locale
  \<open>alarm_audio\<close> of what its callers rely on; its two implementations: the worker-backed
  \<open>CpalAudio\<close> (command handling of \<open>audio/cpal_audio.rs\<close>) and the recording \<open>FakeAudio\<close>
  (\<open>audio/fake.rs\<close>).
\<close>

section \<open>The trait\<close>

record 'p audio_ops =
  ao_play :: "decoded_sound \<Rightarrow> volume_profile \<Rightarrow> 'p \<Rightarrow> (audio_error + unit) \<times> 'p"
  ao_stop :: "'p \<Rightarrow> (audio_error + unit) \<times> 'p"

text \<open>\<open>playing\<close> observes what a player is playing, \<open>descr\<close> what it records of a sound and profile.
  Only successful calls promise anything.\<close>

locale alarm_audio =
  fixes aud :: "'p audio_ops"
    and playing :: "'p \<Rightarrow> 'o option"
    and descr :: "decoded_sound \<Rightarrow> volume_profile \<Rightarrow> 'o"
  assumes play_ok: "ao_play aud s v p = (Inr u, p') \<Longrightarrow> playing p' = Some (descr s v)"
    and stop_ok: "ao_stop aud p = (Inr u, p') \<Longrightarrow> playing p' = None"
begin

text \<open>At most one sound plays: a second play replaces the first.\<close>

lemma play_replaces:
  assumes "ao_play aud s v p = (Inr u, p1)" "ao_play aud s' v' p1 = (Inr u', p2)"
  shows "playing p1 = Some (descr s v) \<and> playing p2 = Some (descr s' v')"
  using assms play_ok by blast

lemma play_then_stop:
  assumes "ao_play aud s v p = (Inr u, p1)" "ao_stop aud p1 = (Inr u', p2)"
  shows "playing p2 = None"
  using assms(2) by (rule stop_ok)

end

section \<open>\<open>CpalAudio\<close>: shared state and command handling\<close>

record playback =
  pb_sound :: decoded_sound
  pb_profile :: volume_profile
  pb_frames_played :: nat
  pb_cursor_frames :: f64
  pb_finished :: bool

record shared =
  sh_playback :: "playback option"
  sh_device_lost :: bool

definition shared_new :: shared where
  "shared_new = \<lparr>sh_playback = None, sh_device_lost = False\<rparr>"

definition handle_play ::
  "shared \<Rightarrow> decoded_sound \<Rightarrow> volume_profile \<Rightarrow> bool \<Rightarrow> (audio_error + unit) \<times> shared" where
  "handle_play sh s v stream_present =
     (if \<not> stream_present then (Inl DeviceUnavailable, sh)
      else (Inr (), sh\<lparr>sh_playback := Some \<lparr>pb_sound = s, pb_profile = v, pb_frames_played = 0,
              pb_cursor_frames = FFin 0, pb_finished = False\<rparr>\<rparr>))"

definition handle_stop :: "shared \<Rightarrow> (audio_error + unit) \<times> shared" where
  "handle_stop sh = (Inr (), sh\<lparr>sh_playback := None\<rparr>)"

datatype command = Play decoded_sound volume_profile | Stop | Shutdown

text \<open>The worker thread as its clients see it: whether it still runs, whether it answers within the
  acknowledgement timeout, whether it holds an output stream.\<close>

record cpal =
  cp_alive :: bool
  cp_responsive :: bool
  cp_stream :: bool
  cp_shared :: shared

definition worker_exec :: "command \<Rightarrow> cpal \<Rightarrow> (audio_error + unit) \<times> cpal" where
  "worker_exec cmd w =
     (case cmd of
        Play s v \<Rightarrow>
          (case handle_play (cp_shared w) s v (cp_stream w) of (r, sh) \<Rightarrow> (r, w\<lparr>cp_shared := sh\<rparr>))
      | Stop \<Rightarrow> (case handle_stop (cp_shared w) of (r, sh) \<Rightarrow> (r, w\<lparr>cp_shared := sh\<rparr>))
      | Shutdown \<Rightarrow> (Inr (), w\<lparr>cp_alive := False, cp_stream := False\<rparr>))"

text \<open>\<open>send_and_wait\<close>: a closed channel and a missing acknowledgement are reported alike; in the
  second case the command is still executed later.\<close>

definition send_and_wait :: "command \<Rightarrow> cpal \<Rightarrow> (audio_error + unit) \<times> cpal" where
  "send_and_wait cmd w =
     (if \<not> cp_alive w then (Inl WorkerUnavailable, w)
      else (case worker_exec cmd w of
              (r, w') \<Rightarrow> (if cp_responsive w then r else Inl WorkerUnavailable, w')))"

definition cpal_ops :: "cpal audio_ops" where
  "cpal_ops = \<lparr>ao_play = (\<lambda>s v. send_and_wait (Play s v)), ao_stop = send_and_wait Stop\<rparr>"

definition cpal_playing :: "cpal \<Rightarrow> (decoded_sound \<times> volume_profile) option" where
  "cpal_playing w = map_option (\<lambda>pb. (pb_sound pb, pb_profile pb)) (sh_playback (cp_shared w))"

section \<open>\<open>FakeAudio\<close>\<close>

datatype fake_event =
    FakePlay (fe_frames: nat) (fe_channels: nat) (fe_rate: nat) (fe_profile: volume_profile)
  | FakeStop

definition fake_push :: "fake_event \<Rightarrow> fake_event list \<Rightarrow> fake_event list" where
  "fake_push ev evs = evs @ [ev]"

definition fake_play_event :: "decoded_sound \<Rightarrow> volume_profile \<Rightarrow> fake_event" where
  "fake_play_event s v = FakePlay (ds_frames s) (ds_channels s) (ds_sample_rate s) v"

definition fake_ops :: "fake_event list audio_ops" where
  "fake_ops =
     \<lparr>ao_play = (\<lambda>s v evs. (Inr (), fake_push (fake_play_event s v) evs)),
      ao_stop = (\<lambda>evs. (Inr (), fake_push FakeStop evs))\<rparr>"

definition fake_playing :: "fake_event list \<Rightarrow> fake_event option" where
  "fake_playing evs = (if evs = [] \<or> last evs = FakeStop then None else Some (last evs))"

section \<open>Both implementations keep the contract\<close>

lemma send_and_wait_play:
  "send_and_wait (Play s v) w = (Inr u, w') \<Longrightarrow> cpal_playing w' = Some (s, v)"
  by (auto simp: send_and_wait_def worker_exec_def handle_play_def cpal_playing_def split: if_splits)

lemma send_and_wait_stop:
  "send_and_wait Stop w = (Inr u, w') \<Longrightarrow> cpal_playing w' = None"
  by (auto simp: send_and_wait_def worker_exec_def handle_stop_def cpal_playing_def split: if_splits)

interpretation cpal: alarm_audio cpal_ops cpal_playing "\<lambda>s v. (s, v)"
  by unfold_locales (auto simp: cpal_ops_def dest: send_and_wait_play send_and_wait_stop)

interpretation fake: alarm_audio fake_ops fake_playing fake_play_event
  by unfold_locales (auto simp: fake_ops_def fake_push_def fake_playing_def fake_play_event_def)

end
