(* ===== verification/Playback.thy ===== *)
theory Playback
  imports Audio_Player
begin

text \<open>
  The sample callback \<open>fill_f32\<close> of \<open>audio/cpal_audio.rs\<close>: frame by frame it reads the source at
  the cursor (nearest neighbour), applies the gain, maps the source channels onto the device
  channels and advances the cursor.  The only call that can panic is \<open>Duration::from_secs_f64\<close>;
  a panic is the value \<open>None\<close>.
\<close>

section \<open>Standard library\<close>

text \<open>\<open>Duration::from_secs_f64\<close> rounds to nanoseconds and panics on NaN, negative values and
  values of \<open>2 ^ 64\<close> seconds or more.\<close>

definition dur_from_secs_f64 :: "f64 \<Rightarrow> duration option" where
  "dur_from_secs_f64 x =
     (case x of
        FFin r \<Rightarrow>
          (if r < 0 then None
           else (let ns = nat (round_half_even (r * 1000000000))
                 in if ns < 2 ^ 64 * 1000000000 then Some ns else None))
      | _ \<Rightarrow> None)"

definition u64_saturating_inc :: "nat \<Rightarrow> nat" where
  "u64_saturating_inc n = min (n + 1) (2 ^ 64 - 1)"

definition usize_saturating_mul :: "nat \<Rightarrow> nat \<Rightarrow> nat" where
  "usize_saturating_mul a b = min (a * b) (2 ^ 64 - 1)"

text \<open>\<open>chunks_mut\<close>: consecutive chunks of \<open>n\<close> elements, the last one possibly shorter.\<close>

fun chunks :: "nat \<Rightarrow> 'a list \<Rightarrow> 'a list list" where
  "chunks n [] = []"
| "chunks n (x # xs) = (if n = 0 then [x # xs] else take n (x # xs) # chunks n (drop n (x # xs)))"

section \<open>\<open>fill_f32\<close>\<close>

definition resample_step :: "nat \<Rightarrow> nat \<Rightarrow> f64" where
  "resample_step src_rate device_rate =
     (let dst = f64_of_nat device_rate in
      if fl_lt (FFin 0) dst then fl_div f64_round (f64_of_nat src_rate) dst else FFin 1)"

definition sample_at :: "decoded_sound \<Rightarrow> nat \<Rightarrow> f32" where
  "sample_at s i = (case nth_get (ds_samples s) i of Some v \<Rightarrow> v | None \<Rightarrow> FFin 0)"

definition silence :: "f32 list \<Rightarrow> f32 list" where
  "silence frame = map (\<lambda>_. FFin 0) frame"

definition render_frame :: "decoded_sound \<Rightarrow> nat \<Rightarrow> f32 \<Rightarrow> f32 list \<Rightarrow> f32 list" where
  "render_frame s idx gain frame =
     map (\<lambda>ch. fl_mul f32_round
            (sample_at s (usize_saturating_mul idx (ds_channels s) + ch mod ds_channels s)) gain)
       [0..<length frame]"

definition frame_gain :: "nat \<Rightarrow> playback \<Rightarrow> f32 option" where
  "frame_gain device_rate pb =
     map_option (gain_at (vp_ramp (pb_profile pb)) (vp_target (pb_profile pb)))
       (dur_from_secs_f64
         (fl_div f64_round (f64_of_nat (pb_frames_played pb)) (fl_max (f64_of_nat device_rate) (FFin 1))))"

text \<open>One iteration of the loop over the frames.\<close>

definition fill_frame :: "nat \<Rightarrow> playback \<Rightarrow> f32 list \<Rightarrow> (f32 list \<times> playback) option" where
  "fill_frame device_rate pb frame =
     (let s = pb_sound pb; total = ds_frames s; idx = fl_as_usize (pb_cursor_frames pb) in
      if pb_finished pb \<or> total = 0 \<or> ds_channels s = 0 then Some (silence frame, pb)
      else if total \<le> idx \<and> \<not> vp_repeat (pb_profile pb)
        then Some (silence frame, pb\<lparr>pb_finished := True\<rparr>)
      else
        (let pb1 = (if total \<le> idx
                    then pb\<lparr>pb_cursor_frames := fl_rem (pb_cursor_frames pb) (f64_of_nat total)\<rparr> else pb);
             idx1 = fl_as_usize (pb_cursor_frames pb1)
         in case frame_gain device_rate pb1 of
              None \<Rightarrow> None
            | Some gain \<Rightarrow>
                Some (render_frame s idx1 gain frame,
                      pb1\<lparr>pb_cursor_frames :=
                            fl_add f64_round (pb_cursor_frames pb1)
                              (resample_step (ds_sample_rate s) device_rate),
                          pb_frames_played := u64_saturating_inc (pb_frames_played pb1)\<rparr>)))"

fun fill_frames :: "nat \<Rightarrow> playback \<Rightarrow> f32 list list \<Rightarrow> (f32 list list \<times> playback) option" where
  "fill_frames device_rate pb [] = Some ([], pb)"
| "fill_frames device_rate pb (f # fs) =
     (case fill_frame device_rate pb f of
        None \<Rightarrow> None
      | Some (f', pb') \<Rightarrow>
          (case fill_frames device_rate pb' fs of
             None \<Rightarrow> None
           | Some (fs', pb'') \<Rightarrow> Some (f' # fs', pb'')))"

definition fill_f32 :: "shared \<Rightarrow> f32 list \<Rightarrow> nat \<Rightarrow> nat \<Rightarrow> (f32 list \<times> shared) option" where
  "fill_f32 sh output device_channels device_rate =
     (if device_channels = 0 then Some (output, sh)
      else (case sh_playback sh of
              None \<Rightarrow> Some (silence output, sh)
            | Some pb \<Rightarrow>
                (case fill_frames device_rate pb (chunks device_channels output) of
                   None \<Rightarrow> None
                 | Some (frames, pb') \<Rightarrow>
                     Some (concat frames,
                       sh\<lparr>sh_playback :=
                           (if pb_finished pb' \<and> \<not> vp_repeat (pb_profile pb') then None else Some pb')\<rparr>))))"

section \<open>Frames\<close>

lemma silence_length [simp]: "length (silence f) = length f"
  by (simp add: silence_def)

lemma render_frame_length [simp]: "length (render_frame s i g f) = length f"
  by (simp add: render_frame_def)

lemma concat_chunks: "0 < n \<Longrightarrow> concat (chunks n xs) = xs"
  by (induction n xs rule: chunks.induct) (auto simp del: take_Suc_Cons drop_Suc_Cons)

lemma fill_frame_length: "fill_frame r pb f = Some (f', pb') \<Longrightarrow> length f' = length f"
  by (auto simp: fill_frame_def Let_def split: if_splits option.splits)

lemma fill_frames_lengths:
  "fill_frames r pb fs = Some (fs', pb') \<Longrightarrow> map length fs' = map length fs"
proof (induction fs arbitrary: pb fs')
  case (Cons f fs)
  obtain f1 pb1 where f1: "fill_frame r pb f = Some (f1, pb1)"
    using Cons.prems by (auto split: option.splits)
  with Cons.prems Cons.IH show ?case
    using fill_frame_length[OF f1] by (auto split: option.splits)
qed simp

lemma length_concat_lengths: "length (concat xss) = sum_list (map length xss)"
  by (simp add: length_concat)

lemma fill_f32_length:
  assumes "fill_f32 sh out dc rate = Some (out', sh')" shows "length out' = length out"
proof (cases "dc = 0")
  case False
  then have "length (concat (chunks dc out)) = length out" by (simp add: concat_chunks)
  with False assms show ?thesis
    by (auto simp: fill_f32_def length_concat_lengths split: option.splits dest: fill_frames_lengths)
qed (use assms in \<open>simp add: fill_f32_def\<close>)

section \<open>No panic\<close>

text \<open>Frame counts that fit a \<open>u64\<close>.\<close>

definition pb_ok :: "playback \<Rightarrow> bool" where
  "pb_ok pb \<longleftrightarrow> pb_frames_played pb < 2 ^ 64"

lemma f64_val_pow2: "k \<le> 1000 \<Longrightarrow> f64_val (2 ^ k)"
proof -
  assume k: "k \<le> (1000::nat)"
  have "(2 ^ k :: rat) = of_int 1 * 2 powi int k" by simp
  then have "representable 53 (-1074) (2 ^ k)"
    unfolding representable_def by (intro exI[of _ 1] exI[of _ "int k"]) simp
  moreover have "(2::rat) ^ k < 2 powi 1024"
    using k power_int_strict_increasing[of "int k" 1024 "2::rat"] by simp
  ultimately show ?thesis by (simp add: f64_val_def)
qed

lemma f64_of_nat_bound: "n \<le> 2 ^ 64 \<Longrightarrow> \<exists>z. f64_of_nat n = FFin z \<and> 0 \<le> z \<and> z \<le> 2 ^ 64"
proof -
  assume "n \<le> 2 ^ 64"
  then have "(of_nat n :: rat) \<le> of_nat (2 ^ 64)" by (simp only: of_nat_le_iff)
  then show ?thesis using f64_round_neg_free[of "of_nat n" "2 ^ 64"] f64_val_pow2[of 64]
    by (simp add: f64_of_nat_def)
qed

lemma dur_from_secs_f64_ok: "0 \<le> r \<Longrightarrow> r \<le> 2 ^ 63 \<Longrightarrow> \<exists>d. dur_from_secs_f64 (FFin r) = Some d"
proof -
  assume r: "0 \<le> r" "r \<le> 2 ^ 63"
  then have "r * 1000000000 \<le> of_int (2 ^ 63 * 1000000000)" by simp
  from round_half_even_le_int[OF this] show ?thesis using r by (simp add: dur_from_secs_f64_def Let_def)
qed

lemma frame_gain_total:
  assumes "pb_ok pb" "2 \<le> rate" "rate < 2 ^ 32"
  shows "\<exists>g. frame_gain rate pb = Some g"
proof -
  have rate: "f64_of_nat rate = FFin (of_nat rate)" using assms(3) by (simp add: f64_of_nat_exact)
  have r2: "(2::rat) \<le> of_nat rate" using assms(2) by (metis of_nat_le_iff of_nat_numeral)
  then have mx: "fl_max (f64_of_nat rate) (FFin 1) = FFin (of_nat rate)"
    by (simp add: rate fl_max_def fl_lt_def)
  obtain z where z: "f64_of_nat (pb_frames_played pb) = FFin z" "0 \<le> z" "z \<le> 2 ^ 64"
    using f64_of_nat_bound[of "pb_frames_played pb"] assms(1) by (auto simp: pb_ok_def)
  have "z / of_nat rate \<le> 2 ^ 63"
  proof -
    have "z \<le> 2 ^ 63 * 2" using z(3) by simp
    also have "\<dots> \<le> 2 ^ 63 * of_nat rate" using r2 by (intro mult_left_mono) auto
    finally show ?thesis using r2 by (simp add: pos_divide_le_eq)
  qed
  then obtain y where "f64_round (z / of_nat rate) = FFin y" "0 \<le> y" "y \<le> 2 ^ 63"
    using f64_round_neg_free[of "z / of_nat rate" "2 ^ 63"] z(2) f64_val_pow2[of 63] by auto
  with dur_from_secs_f64_ok[of y] z(1) mx r2 show ?thesis by (auto simp: frame_gain_def)
qed

lemma fill_frame_total:
  assumes "pb_ok pb" "2 \<le> rate" "rate < 2 ^ 32"
  shows "\<exists>f' pb'. fill_frame rate pb f = Some (f', pb') \<and> pb_ok pb'"
proof -
  have ok: "pb_ok (pb\<lparr>pb_cursor_frames := c\<rparr>)" for c using assms(1) by (simp add: pb_ok_def)
  obtain g where "frame_gain rate pb = Some g" using frame_gain_total[OF assms] by blast
  moreover obtain h where "frame_gain rate (pb\<lparr>pb_cursor_frames :=
      fl_rem (pb_cursor_frames pb) (f64_of_nat (ds_frames (pb_sound pb)))\<rparr>) = Some h"
    using frame_gain_total[OF ok assms(2,3)] by blast
  ultimately show ?thesis
    using assms(1) by (auto simp: fill_frame_def Let_def pb_ok_def u64_saturating_inc_def)
qed

lemma fill_frames_total:
  assumes "pb_ok pb" "2 \<le> rate" "rate < 2 ^ 32"
  shows "\<exists>fs' pb'. fill_frames rate pb fs = Some (fs', pb') \<and> pb_ok pb'"
  using assms(1)
proof (induction fs arbitrary: pb)
  case (Cons f fs)
  obtain f' pb' where "fill_frame rate pb f = Some (f', pb')" "pb_ok pb'"
    using fill_frame_total[OF Cons.prems assms(2,3)] by blast
  with Cons.IH[of pb'] show ?case by auto
qed simp

section \<open>Gain and amplitude\<close>

lemma f32_round_nonneg: "0 \<le> x \<Longrightarrow> (\<exists>z. f32_round x = FFin z) \<or> f32_round x = FInf False"
proof -
  assume "0 \<le> x"
  then have "of_int 0 \<le> x / 2 powi ulp_exp 24 (-149) x" by simp
  from round_half_even_ge_int[OF this] have "0 \<le> round_fin 24 (-149) x" by (simp add: round_fin_def)
  then show ?thesis unfolding f32_round_def round_fl_def Let_def by simp
qed

lemma round_fl_nonneg_fin: "round_fl p emin emax x = FFin z \<Longrightarrow> 0 \<le> x \<Longrightarrow> 0 \<le> z"
proof -
  assume r: "round_fl p emin emax x = FFin z" and "0 \<le> x"
  then have "of_int 0 \<le> x / 2 powi ulp_exp p emin x" by simp
  from round_half_even_ge_int[OF this] have "0 \<le> round_fin p emin x" by (simp add: round_fin_def)
  with r show ?thesis by (simp add: round_fl_def Let_def split: if_splits)
qed

lemma fl_div_pos_not_nan: "0 < y \<Longrightarrow> x \<noteq> FNaN \<Longrightarrow> fl_div f32_round x (FFin y) \<noteq> FNaN"
  by (cases x) auto

lemma f32_val_1e9: "f32_val 1000000000"
proof -
  have "\<bar>1953125 :: int\<bar> < 2 ^ 24" "(-149 :: int) \<le> 9" by simp_all
  moreover have "(1000000000 :: rat) = of_int 1953125 * 2 powi 9" by simp
  ultimately have "representable 24 (-149) 1000000000" unfolding representable_def by blast
  then show ?thesis unfolding f32_val_def by simp
qed

lemma f32_of_nat_1e9: "f32_of_nat 1000000000 = FFin 1000000000"
  unfolding f32_of_nat_def using f32_round_val[OF f32_val_1e9] by simp

lemma as_secs_f32_not_nan: "as_secs_f32 d \<noteq> FNaN"
proof -
  have add: "fl_add f32_round a b \<noteq> FNaN"
    if "(\<exists>z. a = FFin z) \<or> a = FInf False" "(\<exists>z. b = FFin z) \<or> b = FInf False" for a b
    using that by auto
  have whole: "(\<exists>z. f32_of_nat n = FFin z) \<or> f32_of_nat n = FInf False" for n
    unfolding f32_of_nat_def by (rule f32_round_nonneg) simp
  have part: "(\<exists>z. fl_div f32_round (f32_of_nat n) (FFin 1000000000) = FFin z)
      \<or> fl_div f32_round (f32_of_nat n) (FFin 1000000000) = FInf False" for n
  proof (cases "f32_of_nat n = FInf False")
    case False
    then obtain y where y: "f32_of_nat n = FFin y" using whole by blast
    then have "0 \<le> y" unfolding f32_of_nat_def f32_round_def by (rule round_fl_nonneg_fin) simp
    then show ?thesis using f32_round_nonneg[of "y / 1000000000"] y by simp
  qed simp
  show ?thesis unfolding as_secs_f32_def f32_of_nat_1e9 by (rule add[OF whole part])
qed

lemma f32_round_le: "f32_val y \<Longrightarrow> 0 \<le> x \<Longrightarrow> x \<le> y \<Longrightarrow> \<exists>z. f32_round x = FFin z \<and> 0 \<le> z \<and> z \<le> y"
  using round_fin_le[of 24 "-149" y x] unfolding f32_round_def round_fl_def Let_def f32_val_def by auto

lemma f32_val_small: "n < 2 ^ 24 \<Longrightarrow> f32_val (of_nat n)"
proof -
  assume n: "n < 2 ^ 24"
  then have "\<bar>int n\<bar> < 2 ^ 24" "(-149 :: int) \<le> 0" by simp_all
  moreover have "(of_nat n :: rat) = of_int (int n) * 2 powi 0" by simp
  ultimately have "representable 24 (-149) (of_nat n)" unfolding representable_def by blast
  moreover have "(of_nat n :: rat) < of_nat (2 ^ 24)" using n by (simp only: of_nat_less_iff)
  then have "(of_nat n :: rat) < 2 powi 128" by simp
  ultimately show ?thesis unfolding f32_val_def by simp
qed

lemma f32_of_nat_le: "f32_val (of_nat m) \<Longrightarrow> n \<le> m \<Longrightarrow> \<exists>z. f32_of_nat n = FFin z \<and> 0 \<le> z \<and> z \<le> of_nat m"
  unfolding f32_of_nat_def by (rule f32_round_le) simp_all

lemma as_secs_f32_finite: "d \<le> MAX_RAMP \<Longrightarrow> \<exists>z. as_secs_f32 d = FFin z"
proof -
  assume d: "d \<le> MAX_RAMP"
  have v: "f32_val (of_nat 10)" "f32_val (of_nat 1)" "f32_val (of_nat 11)"
    by (rule f32_val_small, simp)+
  have v9: "f32_val (of_nat 1000000000)" using f32_val_1e9 by simp
  have "d div 1000000000 \<le> 10" using d by (simp add: MAX_RAMP_def dur_from_secs_def)
  from f32_of_nat_le[OF v(1) this] obtain a where
    a: "f32_of_nat (d div 1000000000) = FFin a" "0 \<le> a" "a \<le> 10" by auto
  have "d mod 1000000000 \<le> 1000000000" by simp
  from f32_of_nat_le[OF v9 this] obtain b where
    b: "f32_of_nat (d mod 1000000000) = FFin b" "0 \<le> b" "b \<le> 1000000000" by auto
  have "0 \<le> b / 1000000000" "b / 1000000000 \<le> of_nat 1" using b by simp_all
  from f32_round_le[OF v(2) this] obtain c where
    c: "f32_round (b / 1000000000) = FFin c" "0 \<le> c" "c \<le> 1" by auto
  have "0 \<le> a + c" "a + c \<le> of_nat 11" using a c by simp_all
  from f32_round_le[OF v(3) this] show ?thesis
    unfolding as_secs_f32_def f32_of_nat_1e9 by (auto simp: a b c)
qed

text \<open>The ramps a profile can have.\<close>

definition ramp_ok :: "ramp \<Rightarrow> bool" where
  "ramp_ok r \<longleftrightarrow> r = Immediate \<or> (\<exists>d. ramp_linear d = Inr r)"

lemma gain_unit_range:
  assumes "unit_range target" "ramp_ok r"
  shows "unit_range (gain_at r target e)"
proof (cases r)
  case Immediate
  then show ?thesis using assms(1) by (simp add: gain_at_def)
next
  case (Linear d)
  then have "d \<le> MAX_RAMP" using assms(2) by (auto simp: ramp_ok_def ramp_linear_def split: if_splits)
  then obtain y where y: "as_secs_f32 d = FFin y" using as_secs_f32_finite by blast
  let ?frac = "fl_clamp (fl_div f32_round (as_secs_f32 e) (FFin y)) (FFin 0) (FFin 1)"
  show ?thesis
  proof (cases "y \<le> 0")
    case True
    then show ?thesis using Linear y assms(1) by (simp add: gain_at_def Let_def)
  next
    case False
    then have "unit_range ?frac"
      by (intro clamp_unit_range fl_div_pos_not_nan as_secs_f32_not_nan) simp
    then obtain b where b: "?frac = FFin b" by (auto simp: unit_range_def)
    obtain a where "target = FFin a" using assms(1) by (auto simp: unit_range_def)
    with False b y Linear assms(1) show ?thesis
      by (simp add: gain_at_def Let_def clamp_unit_range)
  qed
qed

text \<open>Amplitudes up to a bound, and finite sources within it.\<close>

definition amp_le :: "rat \<Rightarrow> f32 \<Rightarrow> bool" where
  "amp_le a x \<longleftrightarrow> (\<exists>y. x = FFin y \<and> \<bar>y\<bar> \<le> a)"

definition source_le :: "rat \<Rightarrow> decoded_sound \<Rightarrow> bool" where
  "source_le a s \<longleftrightarrow> 0 \<le> a \<and> list_all (\<lambda>x. \<exists>y. x = FFin y \<and> f32_val y \<and> \<bar>y\<bar> \<le> a) (ds_samples s)"

lemma silence_amp: "0 \<le> a \<Longrightarrow> list_all (amp_le a) (silence f)"
  by (simp add: silence_def list_all_iff amp_le_def)

lemma f32_val_0: "f32_val 0"
  using f32_val_small[of 0] by simp

lemma sample_at_le: "source_le a s \<Longrightarrow> \<exists>y. sample_at s i = FFin y \<and> f32_val y \<and> \<bar>y\<bar> \<le> a"
  by (auto simp: source_le_def sample_at_def nth_get_def list_all_length f32_val_0)

lemma render_amp:
  assumes "source_le a s" "unit_range g" shows "list_all (amp_le a) (render_frame s i g f)"
proof -
  obtain h where h: "g = FFin h" "0 \<le> h" "h \<le> 1" using assms(2) by (auto simp: unit_range_def)
  have "amp_le a (fl_mul f32_round (sample_at s j) g)" for j
  proof -
    obtain y where y: "sample_at s j = FFin y" "f32_val y" "\<bar>y\<bar> \<le> a" using sample_at_le[OF assms(1)] by blast
    with f32_round_scaled[OF y(2) h(2,3)] h(1) show ?thesis by (auto simp: amp_le_def)
  qed
  then show ?thesis by (simp add: render_frame_def list_all_iff)
qed

definition profile_ok :: "volume_profile \<Rightarrow> bool" where
  "profile_ok v \<longleftrightarrow> unit_range (vp_target v) \<and> ramp_ok (vp_ramp v)"

lemma fill_frame_keeps:
  "fill_frame r pb f = Some (f', pb') \<Longrightarrow> pb_sound pb' = pb_sound pb \<and> pb_profile pb' = pb_profile pb"
  by (auto simp: fill_frame_def Let_def split: if_splits option.splits)

lemma frame_gain_unit: "profile_ok (pb_profile pb) \<Longrightarrow> frame_gain r pb = Some g \<Longrightarrow> unit_range g"
  by (auto simp: frame_gain_def profile_ok_def gain_unit_range)

lemma fill_frame_amp:
  assumes "fill_frame r pb f = Some (f', pb')" "source_le a (pb_sound pb)" "profile_ok (pb_profile pb)"
  shows "list_all (amp_le a) f'"
proof -
  have a: "0 \<le> a" using assms(2) by (simp add: source_le_def)
  have "unit_range g" if "frame_gain r (pb\<lparr>pb_cursor_frames := c\<rparr>) = Some g" for c g
    using frame_gain_unit[OF _ that] assms(3) by simp
  moreover have "unit_range g" if "frame_gain r pb = Some g" for g
    using frame_gain_unit[OF assms(3) that] .
  ultimately show ?thesis
    using assms(1,2) a
    by (auto simp: fill_frame_def Let_def silence_amp render_amp split: if_splits option.splits)
qed

lemma fill_frames_amp:
  assumes "fill_frames r pb fs = Some (fs', pb')" "source_le a (pb_sound pb)" "profile_ok (pb_profile pb)"
  shows "list_all (amp_le a) (concat fs')"
  using assms
proof (induction fs arbitrary: pb fs')
  case (Cons f fs)
  obtain f1 pb1 fs1 where f1: "fill_frame r pb f = Some (f1, pb1)"
    "fill_frames r pb1 fs = Some (fs1, pb')" "fs' = f1 # fs1"
    using Cons.prems(1) by (auto split: option.splits)
  with Cons.IH[OF f1(2)] Cons.prems fill_frame_keeps[OF f1(1)] fill_frame_amp[OF f1(1)] show ?case by simp
qed simp

section \<open>Exact playback\<close>

text \<open>The reference: frame \<open>i\<close> of the source spread over \<open>dc\<close> device channels, silence behind the
  end.\<close>

definition source_frame :: "decoded_sound \<Rightarrow> nat \<Rightarrow> nat \<Rightarrow> f32 list" where
  "source_frame s dc i =
     map (\<lambda>ch. if i < ds_frames s then ds_samples s ! (i * ds_channels s + ch mod ds_channels s) else FFin 0)
       [0..<dc]"

definition playing_at :: "decoded_sound \<Rightarrow> nat \<Rightarrow> playback \<Rightarrow> bool" where
  "playing_at s k pb \<longleftrightarrow>
     pb_sound pb = s \<and> pb_profile pb = full_volume \<and> pb_cursor_frames pb = FFin (of_nat k)
     \<and> \<not> pb_finished pb \<and> pb_ok pb"

text \<open>Sources whose samples are finite and whose positions are exact in \<open>f64\<close>.\<close>

definition source_ok :: "decoded_sound \<Rightarrow> bool" where
  "source_ok s \<longleftrightarrow> sound_wf s \<and> length (ds_samples s) < 2 ^ 52
     \<and> list_all (\<lambda>x. \<exists>y. x = FFin y \<and> f32_val y) (ds_samples s)"

lemma fl_as_usize_nat: "k < 2 ^ 64 \<Longrightarrow> fl_as_usize (FFin (of_nat k)) = k"
  by (simp add: fl_as_usize_def rat_trunc_def)

lemma source_ok_frames: "source_ok s \<Longrightarrow> 0 < ds_frames s \<and> ds_frames s < 2 ^ 52 \<and> 0 < ds_channels s
    \<and> length (ds_samples s) = ds_frames s * ds_channels s"
proof -
  assume s: "source_ok s"
  then have wf: "sound_wf s" "length (ds_samples s) < 2 ^ 52" by (simp_all add: source_ok_def)
  have "ds_frames s \<le> length (ds_samples s)" by (simp add: ds_frames_def)
  then have "ds_frames s < 2 ^ 52" using wf(2) by (rule le_less_trans)
  with sound_wf_frames[OF wf(1)] wf(1) show ?thesis by (simp add: sound_wf_def)
qed

lemma frame_index: "i < (n::nat) \<Longrightarrow> 0 < c \<Longrightarrow> i * c + j mod c < n * c"
proof -
  assume "i < n" "0 < c"
  then have "i * c + j mod c < Suc i * c" by simp
  also have "\<dots> \<le> n * c" using \<open>i < n\<close> by (intro mult_le_mono1) simp
  finally show ?thesis .
qed

lemma render_exact:
  assumes "source_ok s" "k < ds_frames s" "length f = dc"
  shows "render_frame s k (FFin 1) f = source_frame s dc k"
proof -
  note fr = source_ok_frames[OF assms(1)]
  have "fl_mul f32_round (sample_at s (usize_saturating_mul k (ds_channels s) + ch mod ds_channels s)) (FFin 1)
      = ds_samples s ! (k * ds_channels s + ch mod ds_channels s)" for ch
  proof -
    let ?i = "k * ds_channels s + ch mod ds_channels s"
    have i: "?i < length (ds_samples s)" using frame_index[OF assms(2)] fr by simp
    have len: "length (ds_samples s) < 2 ^ 52" using assms(1) by (simp add: source_ok_def)
    then have "usize_saturating_mul k (ds_channels s) = k * ds_channels s"
      using i by (simp add: usize_saturating_mul_def)
    moreover obtain y where "ds_samples s ! ?i = FFin y" "f32_val y"
      using assms(1) i by (auto simp: source_ok_def list_all_length)
    ultimately show ?thesis using i by (simp add: sample_at_def nth_get_def f32_round_val)
  qed
  then show ?thesis using assms(2,3) by (simp add: render_frame_def source_frame_def)
qed

lemma step_same_rate: "0 < r \<Longrightarrow> r < 2 ^ 32 \<Longrightarrow> resample_step r r = FFin 1"
  using f64_round_val[OF f64_val_nat[of 1]]
  by (simp add: resample_step_def f64_of_nat_exact fl_lt_def)

lemma fill_frame_exact:
  assumes "source_ok s" "playing_at s k pb" "k < ds_frames s" "length f = dc"
    and "2 \<le> ds_sample_rate s" "ds_sample_rate s < 2 ^ 32"
  shows "\<exists>pb'. fill_frame (ds_sample_rate s) pb f = Some (source_frame s dc k, pb') \<and> playing_at s (Suc k) pb'"
proof -
  note fr = source_ok_frames[OF assms(1)]
  have pb: "pb_sound pb = s" "pb_profile pb = full_volume" "pb_cursor_frames pb = FFin (of_nat k)"
    "\<not> pb_finished pb" "pb_ok pb" using assms(2) by (simp_all add: playing_at_def)
  obtain g where g: "frame_gain (ds_sample_rate s) pb = Some g"
    using frame_gain_total[OF pb(5) assms(5,6)] by blast
  then have g1: "g = FFin 1"
    by (auto simp: frame_gain_def pb full_volume_def gain_at_def unit_range_def)
  have k: "fl_as_usize (FFin (of_nat k)) = k" using fr assms(3) by (simp add: fl_as_usize_nat)
  have "f64_val (of_nat (Suc k))" using fr assms(3) by (intro f64_val_nat) simp
  then have nxt: "f64_round (of_nat k + 1) = FFin (of_nat (Suc k))"
    using f64_round_val[of "of_nat (Suc k)"] by (simp add: add.commute)
  have st: "resample_step (ds_sample_rate s) (ds_sample_rate s) = FFin 1"
    using step_same_rate assms(5,6) by simp
  show ?thesis
    using fr assms(3) pb g unfolding g1
    by (simp add: fill_frame_def Let_def k st nxt render_exact[OF assms(1,3,4)] playing_at_def pb_ok_def
        u64_saturating_inc_def)
qed

lemma fill_frame_end:
  assumes "source_ok s" "playing_at s (ds_frames s) pb" "length f = dc"
  shows "\<exists>pb'. fill_frame r pb f = Some (source_frame s dc (ds_frames s), pb')
    \<and> pb_finished pb' \<and> pb_profile pb' = full_volume"
proof -
  have "silence f = source_frame s dc (ds_frames s)"
    using assms(3) by (simp add: silence_def source_frame_def map_replicate_const)
  moreover have "fl_as_usize (FFin (of_nat (ds_frames s))) = ds_frames s"
    using source_ok_frames[OF assms(1)] by (simp add: fl_as_usize_nat)
  ultimately show ?thesis
    using assms(2) source_ok_frames[OF assms(1)]
    by (simp add: fill_frame_def Let_def playing_at_def full_volume_def)
qed

lemma fill_frames_done: "pb_finished pb \<Longrightarrow> fill_frames r pb fs = Some (map silence fs, pb)"
  by (induction fs) (simp_all add: fill_frame_def Let_def)

lemma upt_step: "[k..<k + Suc n] = k # [Suc k..<Suc k + n]"
  by (simp add: upt_conv_Cons del: upt_Suc)

lemma silence_behind: "list_all (\<lambda>f. length f = dc) fs \<Longrightarrow> ds_frames s \<le> k \<Longrightarrow>
    map silence fs = map (source_frame s dc) [k..<k + length fs]"
proof (induction fs arbitrary: k)
  case (Cons f fs)
  have "silence f = source_frame s dc k"
    using Cons.prems by (auto simp: silence_def source_frame_def map_replicate_const)
  then show ?case
    using Cons.IH[of "Suc k"] Cons.prems unfolding length_Cons upt_step by simp
qed simp

lemma fill_frames_exact:
  assumes "source_ok s" "2 \<le> ds_sample_rate s" "ds_sample_rate s < 2 ^ 32"
    and "playing_at s k pb" "k \<le> ds_frames s" "list_all (\<lambda>f. length f = dc) fs"
  shows "\<exists>pb'. fill_frames (ds_sample_rate s) pb fs =
      Some (map (source_frame s dc) [k..<k + length fs], pb')
    \<and> (if k + length fs \<le> ds_frames s then playing_at s (k + length fs) pb'
       else pb_finished pb' \<and> pb_profile pb' = full_volume)"
  using assms(4-6)
proof (induction fs arbitrary: k pb)
  case Nil
  then show ?case by simp
next
  case (Cons f fs)
  show ?case
  proof (cases "k < ds_frames s")
    case True
    obtain pb1 where 1: "fill_frame (ds_sample_rate s) pb f = Some (source_frame s dc k, pb1)"
      "playing_at s (Suc k) pb1"
      using fill_frame_exact[OF assms(1) Cons.prems(1) True _ assms(2,3)] Cons.prems(3) by auto
    obtain pb2 where 2: "fill_frames (ds_sample_rate s) pb1 fs =
        Some (map (source_frame s dc) [Suc k..<Suc k + length fs], pb2)"
      "if Suc k + length fs \<le> ds_frames s then playing_at s (Suc k + length fs) pb2
       else pb_finished pb2 \<and> pb_profile pb2 = full_volume"
      using Cons.IH[OF 1(2)] True Cons.prems(3) by auto
    have "fill_frames (ds_sample_rate s) pb (f # fs) =
        Some (map (source_frame s dc) [k..<k + length (f # fs)], pb2)"
      unfolding length_Cons upt_step by (simp add: 1(1) 2(1) del: upt_Suc)
    with 2(2) show ?thesis by auto
  next
    case False
    then have k: "k = ds_frames s" using Cons.prems(2) by simp
    obtain pb1 where 1: "fill_frame (ds_sample_rate s) pb f = Some (source_frame s dc k, pb1)"
      "pb_finished pb1" "pb_profile pb1 = full_volume"
      using fill_frame_end[OF assms(1) Cons.prems(1)[unfolded k], of f dc "ds_sample_rate s"] Cons.prems(3) k by auto
    moreover have "map silence fs = map (source_frame s dc) [Suc k..<Suc k + length fs]"
      using Cons.prems(3) k by (intro silence_behind) simp_all
    ultimately show ?thesis
      unfolding length_Cons upt_step using k by (simp add: fill_frames_done del: upt_Suc)
  qed
qed

lemma chunks_exact:
  "length xs = n * dc \<Longrightarrow> 0 < dc \<Longrightarrow> length (chunks dc xs) = n \<and> list_all (\<lambda>f. length f = dc) (chunks dc xs)"
proof (induction n arbitrary: xs)
  case (Suc n)
  then obtain y ys where xs: "xs = y # ys" by (cases xs) auto
  have "length (drop dc xs) = n * dc" using Suc.prems by simp
  with Suc.IH[OF this Suc.prems(2)] Suc.prems show ?case
    by (simp add: xs del: take_Suc_Cons drop_Suc_Cons)
qed simp

text \<open>Ramps start at zero seconds and their length is positive.\<close>

lemma as_secs_f32_0: "as_secs_f32 0 = FFin 0"
  using f32_round_val[OF f32_val_0]
  unfolding as_secs_f32_def f32_of_nat_1e9 by (simp add: f32_of_nat_def)

lemma round_fin_pos: "1 \<le> x \<Longrightarrow> 0 < p \<Longrightarrow> emin \<le> 0 \<Longrightarrow> 0 < round_fin p emin x"
proof -
  assume x: "1 \<le> x" and "0 < p" "emin \<le> 0"
  have "2 powi 0 < (2::rat) powi (ilog2 x + 1)" using ilog2_bounds(2)[of x] x by simp
  from powi_less2[OF this] have "0 \<le> ilog2 x" by simp
  then have u: "ulp_exp p emin x \<le> ilog2 x" using x \<open>0 < p\<close> \<open>emin \<le> 0\<close> by (simp add: ulp_exp_def)
  have "2 powi ulp_exp p emin x \<le> x" using ilog2_bounds(1)[of x] powi_mono2[OF u] x by linarith
  then have "of_int 1 \<le> x / 2 powi ulp_exp p emin x" by (simp add: pos_le_divide_eq)
  from round_half_even_ge_int[OF this] x show ?thesis by (simp add: round_fin_def)
qed

lemma f32_round_pos: "f32_round x = FFin z \<Longrightarrow> 1 \<le> x \<Longrightarrow> 0 < z"
  using round_fin_pos[of x 24 "-149"]
  unfolding f32_round_def round_fl_def Let_def by (simp split: if_splits)

lemma as_secs_f32_pos:
  assumes "MIN_RAMP \<le> d" "d \<le> MAX_RAMP" shows "\<exists>y. as_secs_f32 d = FFin y \<and> 0 < y"
proof -
  obtain z where z: "as_secs_f32 d = FFin z" using as_secs_f32_finite[OF assms(2)] by blast
  have q: "d div 1000000000 \<le> 10" "1 \<le> d div 1000000000"
    using assms div_le_mono[OF assms(1), of 1000000000]
    by (simp_all add: MAX_RAMP_def MIN_RAMP_def dur_from_secs_def)
  then have a: "f32_of_nat (d div 1000000000) = FFin (of_nat (d div 1000000000))"
    unfolding f32_of_nat_def by (intro f32_round_val f32_val_small) simp
  have v9: "f32_val (of_nat 1000000000)" using f32_val_1e9 by simp
  obtain b where b: "f32_of_nat (d mod 1000000000) = FFin b" "0 \<le> b" "b \<le> of_nat 1000000000"
    using f32_of_nat_le[OF v9, of "d mod 1000000000"] by auto
  have "0 \<le> b / 1000000000" "b / 1000000000 \<le> of_nat 1" using b by simp_all
  from f32_round_le[OF f32_val_small this] obtain c where c: "f32_round (b / 1000000000) = FFin c" "0 \<le> c"
    by auto
  have "(1 :: rat) \<le> of_nat (d div 1000000000)" using q(2) by (metis of_nat_1 of_nat_le_iff)
  then have "1 \<le> of_nat (d div 1000000000) + c" using c(2) by simp
  moreover have "f32_round (of_nat (d div 1000000000) + c) = FFin z"
    using z unfolding as_secs_f32_def f32_of_nat_1e9 by (simp add: a b(1) c(1))
  ultimately show ?thesis using f32_round_pos z by blast
qed

lemma fill_f32_exact:
  assumes "source_ok s" and "2 \<le> ds_sample_rate s" and "ds_sample_rate s < 2 ^ 32"
    and "sh_playback sh = Some pb" and "playing_at s k pb" and "k \<le> ds_frames s"
    and "length out = n * dc" and "0 < dc"
  shows "\<exists>sh'. fill_f32 sh out dc (ds_sample_rate s) =
      Some (concat (map (source_frame s dc) [k..<k + n]), sh')
    \<and> (if k + n \<le> ds_frames s then \<exists>pb'. sh_playback sh' = Some pb' \<and> playing_at s (k + n) pb'
       else sh_playback sh' = None)"
proof -
  note ch = chunks_exact[OF assms(7,8)]
  obtain pb' where pb': "fill_frames (ds_sample_rate s) pb (chunks dc out) =
      Some (map (source_frame s dc) [k..<k + n], pb')"
    "if k + n \<le> ds_frames s then playing_at s (k + n) pb' else pb_finished pb' \<and> pb_profile pb' = full_volume"
    using fill_frames_exact[OF assms(1-3,5,6), of dc "chunks dc out"] ch by auto
  then show ?thesis
    using assms(4,8) by (auto simp: fill_f32_def playing_at_def full_volume_def split: if_splits)
qed

section \<open>Properties\<close>

text \<open>C15: exact playback.  On a device with the sample rate of the sound, filling a buffer of \<open>n\<close>
  frames from position \<open>k\<close> of an alarm played by the daemon yields exactly the frames \<open>k\<close> to
  \<open>k + n\<close> of the source, each source channel repeated over the device channels, and silence
  behind the end; the position advances by \<open>n\<close>, and the playback is dropped in the first buffer
  that reaches past the end.\<close>

theorem playback_exact:
  assumes "source_ok s" and "2 \<le> ds_sample_rate s" and "ds_sample_rate s < 2 ^ 32"
    and "sh_playback sh = Some pb" and "playing_at s k pb" and "k \<le> ds_frames s"
    and "length out = n * dc" and "0 < dc"
  shows "\<exists>sh'. fill_f32 sh out dc (ds_sample_rate s) =
      Some (concat (map (source_frame s dc) [k..<k + n]), sh')
    \<and> (if k + n \<le> ds_frames s then \<exists>pb'. sh_playback sh' = Some pb' \<and> playing_at s (k + n) pb'
       else sh_playback sh' = None)"
  using assms by (rule fill_f32_exact)

text \<open>A sound of two mono frames, for the witnesses.\<close>

definition two_frames :: decoded_sound where
  "two_frames = \<lparr>ds_samples = [FFin 1, FFin 3], ds_channels = 1, ds_sample_rate = 8000\<rparr>"

definition two_frames_shared :: shared where
  "two_frames_shared = snd (handle_play shared_new two_frames full_volume True)"

lemma two_frames_ok: "source_ok two_frames" "ds_frames two_frames = 2" "ds_sample_rate two_frames = 8000"
  using f32_val_small[of 1] f32_val_small[of 3]
  by (simp_all add: source_ok_def two_frames_def sound_wf_def ds_frames_def)

lemma two_frames_playing:
  "\<exists>pb. sh_playback two_frames_shared = Some pb \<and> playing_at two_frames 0 pb"
  by (simp add: two_frames_shared_def handle_play_def playing_at_def pb_ok_def)

theorem playback_exact_witness:
  "\<exists>sh'. fill_f32 two_frames_shared (replicate 6 FNaN) 2 8000 =
      Some ([FFin 1, FFin 1, FFin 3, FFin 3, FFin 0, FFin 0], sh') \<and> sh_playback sh' = None"
proof -
  obtain pb where pb: "sh_playback two_frames_shared = Some pb" "playing_at two_frames 0 pb"
    using two_frames_playing by blast
  have u: "[0..<3] = [0, 1, Suc (Suc 0)]" "[0..<2] = [0, Suc 0]" by (simp_all add: upt_rec)
  have src: "concat (map (source_frame two_frames 2) [0..<3]) =
      [FFin 1, FFin 1, FFin 3, FFin 3, FFin 0, FFin 0]"
    unfolding u source_frame_def two_frames_ok(2) by (simp add: two_frames_def)
  from playback_exact[OF two_frames_ok(1) _ _ pb, of "replicate 6 FNaN" 3 2] src show ?thesis
    by (simp add: two_frames_ok(2,3))
qed

text \<open>C19: the callback is safe.  For any device with a rate of at least 2 Hz, any playback built
  from a valid profile and any finite source, \<open>fill_f32\<close> does not panic, writes the whole buffer,
  and no output sample exceeds the largest amplitude of the source, whatever the position, the
  rates, the channel counts and the buffer size.\<close>

theorem callback_safe:
  assumes "sh_playback sh = Some pb" and "pb_ok pb" and "profile_ok (pb_profile pb)"
    and "source_le a (pb_sound pb)" and "2 \<le> rate" and "rate < 2 ^ 32" and "0 < dc"
  shows "\<exists>out' sh'. fill_f32 sh out dc rate = Some (out', sh')
    \<and> length out' = length out \<and> list_all (amp_le a) out'"
proof -
  obtain fs' pb' where fs: "fill_frames rate pb (chunks dc out) = Some (fs', pb')"
    using fill_frames_total[OF assms(2,5,6)] by blast
  then obtain sh' where fill: "fill_f32 sh out dc rate = Some (concat fs', sh')"
    using assms(1,7) by (simp add: fill_f32_def)
  with fill_f32_length[OF fill] fill_frames_amp[OF fs assms(4,3)] show ?thesis by blast
qed

theorem callback_safe_witness:
  "\<exists>out' sh'. fill_f32 two_frames_shared (replicate 7 FNaN) 2 44100 = Some (out', sh')
    \<and> length out' = 7 \<and> list_all (amp_le 3) out'"
proof -
  obtain pb where pb: "sh_playback two_frames_shared = Some pb" "playing_at two_frames 0 pb"
    using two_frames_playing by blast
  have "pb_ok pb" "profile_ok (pb_profile pb)" "source_le 3 (pb_sound pb)"
    using pb(2) f32_val_small[of 1] f32_val_small[of 3]
    by (simp_all add: playing_at_def profile_ok_def full_volume_def unit_range_def ramp_ok_def source_le_def
        two_frames_def)
  from callback_safe[OF pb(1) this, of 44100 2 "replicate 7 FNaN"] show ?thesis by simp
qed

text \<open>The gain.  A profile that passes validation never amplifies: with no ramp the gain is the
  target; on a linear ramp of 2 to 10 seconds it starts at zero, reaches the target when the
  duration has elapsed, and lies between zero and one at all times, rounding errors included.\<close>

lemma gain_exact:
  assumes "profile_new (FFin t) r rep = Inr v" and "ramp_ok r" and "f32_val t"
  shows "unit_range (gain_at r (FFin t) e)
    \<and> (case r of
         Immediate \<Rightarrow> gain_at r (FFin t) e = FFin t
       | Linear d \<Rightarrow> gain_at r (FFin t) 0 = FFin 0 \<and> gain_at r (FFin t) d = FFin t)"
proof -
  have t: "unit_range (FFin t)" using assms(1) by (simp add: profile_new_iff)
  show ?thesis
  proof (cases r)
    case Immediate
    then show ?thesis using t gain_unit_range[OF t assms(2)] by (simp add: gain_at_def)
  next
    case (Linear d)
    then have d: "MIN_RAMP \<le> d" "d \<le> MAX_RAMP"
      using assms(2) by (auto simp: ramp_ok_def ramp_linear_def split: if_splits)
    obtain y where y: "as_secs_f32 d = FFin y" "0 < y" using as_secs_f32_pos[OF d] by blast
    have "gain_at r (FFin t) 0 = FFin 0" "gain_at r (FFin t) d = FFin t"
      using Linear y t f32_round_val[OF f32_val_0] f32_round_val[OF assms(3)] f32_round_val[OF f32_val_small[of 1]]
      by (simp_all add: gain_at_def Let_def as_secs_f32_0 unit_range_def)
    with Linear gain_unit_range[OF t assms(2)] show ?thesis by simp
  qed
qed

lemma gain_exact_example:
  "gain_at (Linear (dur_from_secs 5)) (FFin 1) (dur_from_secs 5) = FFin 1"
proof -
  have "profile_new (FFin 1) (Linear (dur_from_secs 5)) True =
      Inr \<lparr>vp_target = FFin 1, vp_ramp = Linear (dur_from_secs 5), vp_repeat = True\<rparr>"
    by (simp add: profile_new_iff unit_range_def)
  moreover have "ramp_ok (Linear (dur_from_secs 5))"
    unfolding ramp_ok_def
    by (intro disjI2 exI[of _ "dur_from_secs 5"])
      (simp add: ramp_linear_def MIN_RAMP_def MAX_RAMP_def dur_from_secs_def)
  moreover have "f32_val 1" using f32_val_small[of 1] by simp
  ultimately show ?thesis using gain_exact[of 1 "Linear (dur_from_secs 5)"] by simp
qed

end
