(* ===== verification/Playback_Rates.thy ===== *)
theory Playback_Rates
  imports Playback
begin

text \<open>
  Playback over time: buffers of any size one after the other, at any pair of sample rates, and
  looping sounds.  The position is accumulated in binary64, so the end of a sound is reached only
  if the rounding error of each addition stays below the step; the bound proved here says when.
\<close>

section \<open>Rounding error\<close>

lemma round_half_even_err: "\<bar>of_int (round_half_even x) - x\<bar> \<le> 1 / 2"
proof -
  have "of_int \<lfloor>x\<rfloor> \<le> x" "x < of_int \<lfloor>x\<rfloor> + 1" by linarith+
  then show ?thesis unfolding round_half_even_def Let_def by (auto simp: abs_le_iff)
qed

text \<open>In the normal range the relative error is at most half a unit in the last place.\<close>

lemma round_fin_err:
  assumes "0 < x" "emin \<le> ilog2 x - (int p - 1)"
  shows "\<bar>round_fin p emin x - x\<bar> \<le> x * 2 powi (- int p)"
proof -
  let ?u = "ulp_exp p emin x"
  have u: "?u = ilog2 x - (int p - 1)" using assms by (simp add: ulp_exp_def)
  have pos: "0 < (2::rat) powi ?u" by simp
  have "round_fin p emin x - x = (of_int (round_half_even (x / 2 powi ?u)) - x / 2 powi ?u) * 2 powi ?u"
    using assms(1) by (simp add: round_fin_def left_diff_distrib)
  then have "\<bar>round_fin p emin x - x\<bar> = \<bar>of_int (round_half_even (x / 2 powi ?u)) - x / 2 powi ?u\<bar> * 2 powi ?u"
    using pos by (simp add: abs_mult)
  also have "\<dots> \<le> 1 / 2 * 2 powi ?u"
    using round_half_even_err[of "x / 2 powi ?u"] pos by (intro mult_right_mono) auto
  also have "\<dots> = 2 powi ilog2 x * 2 powi (- int p)"
  proof -
    have "(2::rat) powi (ilog2 x + (- int p) + 1) = 2 powi (ilog2 x + (- int p)) * 2 powi 1"
      by (rule power_int_add) simp
    moreover have "(2::rat) powi (ilog2 x + (- int p)) = 2 powi ilog2 x * 2 powi (- int p)"
      by (rule power_int_add) simp
    moreover have "?u = ilog2 x + (- int p) + 1" by (simp add: u)
    ultimately show ?thesis by simp
  qed
  also have "\<dots> \<le> x * 2 powi (- int p)"
    using ilog2_bounds(1)[OF assms(1)] by (intro mult_right_mono) auto
  finally show ?thesis .
qed

lemma ilog2_ge: "2 powi k \<le> x \<Longrightarrow> k \<le> ilog2 x"
proof -
  assume k: "2 powi k \<le> x"
  have "0 < (2::rat) powi k" by simp
  with k have "0 < x" by linarith
  with k ilog2_bounds(2)[of x] have "2 powi k < (2::rat) powi (ilog2 x + 1)" by linarith
  from powi_less2[OF this] show ?thesis by simp
qed

text \<open>Binary64 results between \<open>2 ^ -40\<close> and \<open>2 ^ 60\<close> are finite and off by at most one part in
  \<open>2 ^ 53\<close>.\<close>

lemma f64_round_err:
  assumes "2 powi (-40) \<le> x" "x \<le> 2 ^ 60"
  shows "\<exists>y. f64_round x = FFin y \<and> \<bar>y - x\<bar> \<le> x / 2 ^ 53"
proof -
  have "0 < (2::rat) powi (-40)" by simp
  with assms(1) have x: "0 < x" by linarith
  obtain y where y: "f64_round x = FFin y"
    using f64_round_neg_free[OF _ assms(2) f64_val_pow2[of 60]] x by auto
  have "y = round_fin 53 (-1074) x"
    using y by (simp add: f64_round_def round_fl_def Let_def split: if_splits)
  moreover have "(-1074 :: int) \<le> ilog2 x - (int 53 - 1)" using ilog2_ge[OF assms(1)] by simp
  ultimately have "\<bar>y - x\<bar> \<le> x * 2 powi (- int 53)" using round_fin_err[OF x, of "-1074" 53] by blast
  moreover have "(2::rat) powi (- int 53) = 1 / 2 ^ 53"
    unfolding power_int_minus power_int_of_nat by (simp add: inverse_eq_divide)
  ultimately show ?thesis using y by auto
qed

section \<open>Progress\<close>

text \<open>The step between two rates, up to a factor of two.\<close>

lemma resample_step_bounds:
  assumes "0 < src" "src < 2 ^ 32" "0 < dst" "dst < 2 ^ 32"
  shows "\<exists>st. resample_step src dst = FFin st \<and> of_nat src \<le> 2 * st * of_nat dst \<and> st \<le> 2 ^ 33"
proof -
  let ?q = "of_nat src / (of_nat dst :: rat)"
  have d: "0 < (of_nat dst :: rat)" using assms(3) by simp
  have d32: "(of_nat dst :: rat) \<le> 2 ^ 32" using assms(4) by (metis less_imp_le of_nat_le_iff of_nat_numeral of_nat_power)
  have s32: "(of_nat src :: rat) \<le> 2 ^ 32" using assms(2) by (metis less_imp_le of_nat_le_iff of_nat_numeral of_nat_power)
  have s1: "(1 :: rat) \<le> of_nat src" using assms(1) by (metis Suc_leI of_nat_1 of_nat_le_iff One_nat_def)
  have d1: "(1 :: rat) \<le> of_nat dst" using assms(3) by (metis Suc_leI of_nat_1 of_nat_le_iff One_nat_def)
  have "2 powi (-40) * of_nat dst \<le> 2 powi (-40) * (2 ^ 32 :: rat)" using d32 by (intro mult_left_mono) auto
  also have "\<dots> \<le> 1" by simp
  finally have low: "2 powi (-40) \<le> ?q" using s1 d by (simp add: pos_le_divide_eq)
  have up: "?q \<le> 2 ^ 32"
  proof -
    have "of_nat src * 1 \<le> 2 ^ 32 * (of_nat dst :: rat)" using s32 d1 by (intro mult_mono) auto
    then show ?thesis using d by (simp add: pos_divide_le_eq)
  qed
  then have "?q \<le> 2 ^ 60" by simp
  from f64_round_err[OF low this] obtain st where st: "f64_round ?q = FFin st" "\<bar>st - ?q\<bar> \<le> ?q / 2 ^ 53" by blast
  have q0: "0 < ?q" using s1 d by simp
  have "?q / 2 ^ 53 \<le> ?q / 2" using q0 by simp
  with st(2) have e: "\<bar>st - ?q\<bar> \<le> ?q / 2" by (rule order_trans)
  have two: "q \<le> 2 * st \<and> st \<le> 2 * q" if "\<bar>st - q\<bar> \<le> q / 2" "0 < q" for q
    using abs_le_D1[OF that(1)] abs_le_D2[OF that(1)] that(2) by linarith
  have "?q \<le> 2 * st" "st \<le> 2 * ?q" using two[OF e q0] by blast+
  have "2 * ?q \<le> 2 * 2 ^ 32" using up by (rule mult_left_mono) simp
  with \<open>st \<le> 2 * ?q\<close> have "st \<le> 2 ^ 33" by simp
  moreover have "of_nat src \<le> 2 * st * of_nat dst" using \<open>?q \<le> 2 * st\<close> d by (simp add: pos_divide_le_eq)
  moreover have "resample_step src dst = FFin st"
    using assms st(1) by (simp add: resample_step_def f64_of_nat_exact fl_lt_def)
  ultimately show ?thesis by blast
qed

text \<open>One addition advances the position by at least half a step.\<close>

lemma cursor_advances:
  assumes "0 \<le> c" "c < t" "t \<le> 2 ^ 51 * st" "t \<le> 2 ^ 52" "2 powi (-40) \<le> st" "st \<le> 2 ^ 33"
  shows "\<exists>c'. f64_round (c + st) = FFin c' \<and> c + st / 2 \<le> c'"
proof -
  have "0 < (2::rat) powi (-40)" by simp
  then have st: "0 < st" using assms(5) by linarith
  have low: "2 powi (-40) \<le> c + st" using assms(1,5) by linarith
  have "c + st \<le> 2 ^ 60" using assms(2,4,6) by simp
  from f64_round_err[OF low this] obtain c' where c': "f64_round (c + st) = FFin c'"
    "\<bar>c' - (c + st)\<bar> \<le> (c + st) / 2 ^ 53" by blast
  have "c + st \<le> 2 ^ 52 * st" using assms(2,3) st by simp
  then have "(c + st) / 2 ^ 53 \<le> st / 2" by simp
  with c'(2) have "\<bar>c' - (c + st)\<bar> \<le> st / 2" by (rule order_trans)
  from abs_le_D2[OF this] have "c + st / 2 \<le> c'" by linarith
  with c'(1) show ?thesis by blast
qed

section \<open>The end of a sound\<close>

text \<open>A one-shot playback at a finite position, and the time left as a number of half steps.\<close>

definition one_shot :: "decoded_sound \<Rightarrow> rat \<Rightarrow> playback \<Rightarrow> bool" where
  "one_shot s c pb \<longleftrightarrow>
     pb_sound pb = s \<and> \<not> vp_repeat (pb_profile pb) \<and> pb_cursor_frames pb = FFin c \<and> 0 \<le> c
     \<and> \<not> pb_finished pb \<and> pb_ok pb"

definition rates_ok :: "decoded_sound \<Rightarrow> nat \<Rightarrow> bool" where
  "rates_ok s rate \<longleftrightarrow> 0 < ds_sample_rate s \<and> ds_sample_rate s < 2 ^ 32 \<and> 2 \<le> rate \<and> rate < 2 ^ 32
     \<and> sound_wf s \<and> ds_frames s < 2 ^ 52 \<and> ds_frames s * rate \<le> 2 ^ 50 * ds_sample_rate s"

lemma fl_as_usize_floor: "0 \<le> c \<Longrightarrow> fl_as_usize (FFin c) = min (nat \<lfloor>c\<rfloor>) (2 ^ 64 - 1)"
  by (simp add: fl_as_usize_def rat_trunc_def)

lemma not_past_end: "0 \<le> c \<Longrightarrow> t < 2 ^ 52 \<Longrightarrow> \<not> t \<le> fl_as_usize (FFin c) \<longleftrightarrow> c < of_nat t"
proof -
  assume c: "0 \<le> c" and t: "t < 2 ^ 52"
  have "nat \<lfloor>c\<rfloor> < t \<longleftrightarrow> \<lfloor>c\<rfloor> < int t" using c by (simp add: nat_less_iff)
  also have "\<dots> \<longleftrightarrow> c < of_nat t" by (simp add: floor_less_iff)
  finally show ?thesis using c t by (auto simp: fl_as_usize_floor min_def)
qed

text \<open>One frame either finishes the playback or advances it by half a step.\<close>

lemma one_shot_frame:
  assumes "rates_ok s rate" "one_shot s c pb" "resample_step (ds_sample_rate s) rate = FFin st"
    and "of_nat (ds_frames s) \<le> 2 ^ 51 * st" "2 powi (-40) \<le> st" "st \<le> 2 ^ 33"
  shows "\<exists>f' pb'. fill_frame rate pb f = Some (f', pb') \<and>
    (if of_nat (ds_frames s) \<le> c then pb_finished pb' \<and> \<not> vp_repeat (pb_profile pb')
     else \<exists>c'. one_shot s c' pb' \<and> c + st / 2 \<le> c')"
proof -
  have pb: "pb_sound pb = s" "\<not> vp_repeat (pb_profile pb)" "pb_cursor_frames pb = FFin c" "0 \<le> c"
    "\<not> pb_finished pb" "pb_ok pb" using assms(2) by (simp_all add: one_shot_def)
  have r: "2 \<le> rate" "rate < 2 ^ 32" "sound_wf s" "ds_frames s < 2 ^ 52" using assms(1) by (simp_all add: rates_ok_def)
  have wf: "ds_frames s \<noteq> 0" "ds_channels s \<noteq> 0" using sound_wf_frames[OF r(3)] r(3) by (auto simp: sound_wf_def)
  note past = not_past_end[OF pb(4) r(4)]
  show ?thesis
  proof (cases "of_nat (ds_frames s) \<le> c")
    case True
    then show ?thesis using pb wf past by (simp add: fill_frame_def Let_def)
  next
    case False
    have "of_nat (ds_frames s) \<le> (2 ^ 52 :: rat)"
      using r(4) by (metis less_imp_le of_nat_le_iff of_nat_numeral of_nat_power)
    with cursor_advances[OF pb(4) _ assms(4) _ assms(5,6)] False
    obtain c' where c': "f64_round (c + st) = FFin c'" "c + st / 2 \<le> c'" by auto
    have "0 < (2::rat) powi (-40)" by simp
    then have "0 \<le> c'" using c'(2) pb(4) assms(5) by linarith
    moreover obtain g where "frame_gain rate pb = Some g" using frame_gain_total[OF pb(6) r(1,2)] by blast
    ultimately show ?thesis
      using pb wf past False c' assms(3)
      by (simp add: fill_frame_def Let_def one_shot_def pb_ok_def u64_saturating_inc_def)
  qed
qed

text \<open>After \<open>n\<close> frames the playback has finished or is \<open>n\<close> half steps further.\<close>

definition alive_after :: "decoded_sound \<Rightarrow> rat \<Rightarrow> rat \<Rightarrow> nat \<Rightarrow> playback \<Rightarrow> bool" where
  "alive_after s h c n pb \<longleftrightarrow>
     (\<exists>c'. one_shot s c' pb \<and> c + of_nat n * h \<le> c') \<and>
     (n \<noteq> 0 \<longrightarrow> c + of_nat n * h < of_nat (ds_frames s) + h)"

lemma alive_after_0: "one_shot s c pb \<Longrightarrow> alive_after s h c 0 pb"
  by (auto simp: alive_after_def)

lemma alive_after_add:
  assumes "alive_after s h c' n pb" "c + of_nat m * h \<le> c'" "0 \<le> h"
    and "n = 0 \<longrightarrow> m \<noteq> 0 \<longrightarrow> c + of_nat m * h < of_nat (ds_frames s) + h"
  shows "alive_after s h c (m + n) pb"
proof -
  have e: "c + of_nat (m + n) * h \<le> c' + of_nat n * h" using assms(2) by (simp add: distrib_right)
  show ?thesis
  proof (cases "n = 0")
    case True
    with assms e show ?thesis by (auto simp: alive_after_def intro: order_trans)
  next
    case False
    with assms(1) e show ?thesis unfolding alive_after_def by (fastforce intro: order_trans)
  qed
qed

lemma one_shot_frames:
  assumes "rates_ok s rate" "resample_step (ds_sample_rate s) rate = FFin st"
    and "of_nat (ds_frames s) \<le> 2 ^ 51 * st" "2 powi (-40) \<le> st" "st \<le> 2 ^ 33"
    and "one_shot s c pb"
  shows "\<exists>fs' pb'. fill_frames rate pb fs = Some (fs', pb') \<and>
    (pb_finished pb' \<and> \<not> vp_repeat (pb_profile pb') \<or> alive_after s (st / 2) c (length fs) pb')"
  using assms(6)
proof (induction fs arbitrary: c pb)
  case Nil
  then show ?case by (simp add: alive_after_0)
next
  case (Cons f fs)
  have "0 < (2::rat) powi (-40)" by simp
  then have h: "0 \<le> st / 2" using assms(4) by simp
  obtain f' pb1 where 1: "fill_frame rate pb f = Some (f', pb1)"
    "if of_nat (ds_frames s) \<le> c then pb_finished pb1 \<and> \<not> vp_repeat (pb_profile pb1)
     else \<exists>c'. one_shot s c' pb1 \<and> c + st / 2 \<le> c'"
    using one_shot_frame[OF assms(1) Cons.prems assms(2-5)] by blast
  show ?case
  proof (cases "of_nat (ds_frames s) \<le> c")
    case True
    with 1 show ?thesis by (simp add: fill_frames_done)
  next
    case False
    with 1(2) obtain c' where c': "one_shot s c' pb1" "c + of_nat 1 * (st / 2) \<le> c'" by auto
    obtain fs' pb2 where 2: "fill_frames rate pb1 fs = Some (fs', pb2)"
      "pb_finished pb2 \<and> \<not> vp_repeat (pb_profile pb2) \<or> alive_after s (st / 2) c' (length fs) pb2"
      using Cons.IH[OF c'(1)] by blast
    have "alive_after s (st / 2) c (1 + length fs) pb2" if "alive_after s (st / 2) c' (length fs) pb2"
      using alive_after_add[OF that c'(2) h] False by simp
    with 1(1) 2 show ?thesis by auto
  qed
qed

text \<open>Buffers one after the other.\<close>

fun play_buffers :: "nat \<Rightarrow> nat \<Rightarrow> shared \<Rightarrow> f32 list list \<Rightarrow> shared option" where
  "play_buffers dc rate sh [] = Some sh"
| "play_buffers dc rate sh (b # bs) =
     (case fill_f32 sh b dc rate of None \<Rightarrow> None | Some (_, sh') \<Rightarrow> play_buffers dc rate sh' bs)"

definition frame_count :: "nat \<Rightarrow> f32 list list \<Rightarrow> nat" where
  "frame_count dc bufs = sum_list (map (\<lambda>b. length (chunks dc b)) bufs)"

lemma play_buffers_idle: "0 < dc \<Longrightarrow> sh_playback sh = None \<Longrightarrow> play_buffers dc rate sh bufs = Some sh"
  by (induction bufs) (simp_all add: fill_f32_def)

lemma play_buffers_alive:
  assumes "rates_ok s rate" "resample_step (ds_sample_rate s) rate = FFin st"
    and "of_nat (ds_frames s) \<le> 2 ^ 51 * st" "2 powi (-40) \<le> st" "st \<le> 2 ^ 33" "0 < dc"
    and "sh_playback sh = Some pb" "one_shot s c pb"
  shows "\<exists>sh'. play_buffers dc rate sh bufs = Some sh' \<and>
    (sh_playback sh' = None \<or>
     (\<exists>pb'. sh_playback sh' = Some pb' \<and> alive_after s (st / 2) c (frame_count dc bufs) pb'))"
  using assms(7,8)
proof (induction bufs arbitrary: sh pb c)
  case Nil
  then show ?case by (simp add: alive_after_0 frame_count_def)
next
  case (Cons b bufs)
  have "0 < (2::rat) powi (-40)" by simp
  then have h: "0 \<le> st / 2" using assms(4) by simp
  let ?n = "length (chunks dc b)"
  obtain fs' pb1 where 1: "fill_frames rate pb (chunks dc b) = Some (fs', pb1)"
    "pb_finished pb1 \<and> \<not> vp_repeat (pb_profile pb1) \<or> alive_after s (st / 2) c ?n pb1"
    using one_shot_frames[OF assms(1-5) Cons.prems(2)] by blast
  show ?case
  proof (cases "pb_finished pb1 \<and> \<not> vp_repeat (pb_profile pb1)")
    case True
    then have "fill_f32 sh b dc rate = Some (concat fs', sh\<lparr>sh_playback := None\<rparr>)"
      using 1(1) Cons.prems(1) assms(6) by (simp add: fill_f32_def)
    then show ?thesis using assms(6) by (simp add: play_buffers_idle)
  next
    case False
    then have al: "alive_after s (st / 2) c ?n pb1" using 1(2) by blast
    then obtain c1 where c1: "one_shot s c1 pb1" "c + of_nat ?n * (st / 2) \<le> c1"
      by (auto simp: alive_after_def)
    have fill: "fill_f32 sh b dc rate = Some (concat fs', sh\<lparr>sh_playback := Some pb1\<rparr>)"
      using 1(1) Cons.prems(1) assms(6) False by (simp add: fill_f32_def)
    have pb: "sh_playback (sh\<lparr>sh_playback := Some pb1\<rparr>) = Some pb1" by simp
    have "alive_after s (st / 2) c (?n + frame_count dc bufs) pb'"
      if "alive_after s (st / 2) c1 (frame_count dc bufs) pb'" for pb'
      using alive_after_add[OF that c1(2) h] al by (simp add: alive_after_def)
    with Cons.IH[OF pb c1(1)] fill show ?thesis by (auto simp: frame_count_def)
  qed
qed

section \<open>Properties\<close>

text \<open>C16: every alarm ends.  Whatever the two sample rates and the sizes of the buffers, a one-shot
  sound that starts from the beginning is dropped after at most four times its nominal number of
  device frames (plus one), provided it is short enough for the position to be tracked in
  binary64 (some \<open>2 ^ 50\<close> device frames); no buffer makes the callback panic.\<close>

theorem playback_ends:
  assumes "rates_ok s rate" and "0 < dc" and "sh_playback sh = Some pb" and "one_shot s 0 pb"
    and "4 * ds_frames s * rate \<le> (frame_count dc bufs - 1) * ds_sample_rate s"
  shows "\<exists>sh'. play_buffers dc rate sh bufs = Some sh' \<and> sh_playback sh' = None"
proof -
  let ?t = "of_nat (ds_frames s) :: rat" and ?n = "frame_count dc bufs"
  have r: "0 < ds_sample_rate s" "ds_sample_rate s < 2 ^ 32" "0 < rate" "rate < 2 ^ 32"
    "ds_frames s * rate \<le> 2 ^ 50 * ds_sample_rate s" "sound_wf s"
    using assms(1) by (simp_all add: rates_ok_def)
  obtain st where st: "resample_step (ds_sample_rate s) rate = FFin st"
    "of_nat (ds_sample_rate s) \<le> 2 * st * of_nat rate" "st \<le> 2 ^ 33"
    using resample_step_bounds[OF r(1-4)] by blast
  have rp: "0 < (of_nat rate :: rat)" using r(3) by simp
  have scale: "of_nat a * of_nat rate \<le> of_nat b * (2 * st * of_nat rate)"
    if "a * rate \<le> b * ds_sample_rate s" for a b
  proof -
    have "(of_nat a * of_nat rate :: rat) \<le> of_nat b * of_nat (ds_sample_rate s)"
      using that by (metis of_nat_le_iff of_nat_mult)
    also have "\<dots> \<le> of_nat b * (2 * st * of_nat rate)" using st(2) by (intro mult_left_mono) auto
    finally show ?thesis .
  qed
  have "?t \<le> 2 ^ 51 * st"
    using scale[of "ds_frames s" "2 ^ 50"] r(5) rp by (simp add: mult.assoc[symmetric])
  moreover have low: "2 powi (-40) \<le> st"
  proof -
    have "(1 :: rat) \<le> of_nat (ds_sample_rate s)" using r(1) by (metis Suc_leI of_nat_1 of_nat_le_iff One_nat_def)
    from this st(2) have one: "1 \<le> 2 * st * of_nat rate" by (rule order_trans)
    then have "0 < 2 * st * of_nat rate" by linarith
    from zero_less_mult_pos2[OF this rp] have "0 < st" by simp
    moreover have "(of_nat rate :: rat) \<le> 2 ^ 32"
      using r(4) by (metis less_imp_le of_nat_le_iff of_nat_numeral of_nat_power)
    ultimately have "2 * st * of_nat rate \<le> 2 * st * 2 ^ 32" by (intro mult_left_mono) auto
    from one this have "1 \<le> 2 * st * 2 ^ 32" by (rule order_trans)
    then show ?thesis by simp
  qed
  ultimately obtain sh' where sh': "play_buffers dc rate sh bufs = Some sh'"
    "sh_playback sh' = None \<or> (\<exists>pb'. sh_playback sh' = Some pb' \<and> alive_after s (st / 2) 0 ?n pb')"
    using play_buffers_alive[OF assms(1) st(1) _ _ st(3) assms(2-4)] by blast
  have "\<not> alive_after s (st / 2) 0 ?n pb'" for pb'
  proof -
    have "0 < 4 * ds_frames s * rate" using sound_wf_frames[OF r(6)] r(3) by simp
    then have n: "?n \<noteq> 0" using assms(5) by (cases "?n") auto
    have "of_nat (4 * ds_frames s) * of_nat rate \<le> of_nat (?n - 1) * (2 * st * of_nat rate)"
      using scale[OF assms(5)] .
    then have "of_nat (4 * ds_frames s) \<le> of_nat (?n - 1) * (2 * st)" using rp by (simp add: mult.assoc[symmetric])
    moreover have "(of_nat (?n - 1) :: rat) = of_nat ?n - 1" using n by (simp add: of_nat_diff)
    ultimately have "?t \<le> (of_nat ?n - 1) * (st / 2)" by (simp add: mult.commute)
    then have "?t + st / 2 \<le> of_nat ?n * (st / 2)" by (simp add: left_diff_distrib)
    with n show ?thesis by (simp add: alive_after_def)
  qed
  with sh' show ?thesis by blast
qed

theorem playback_ends_witness:
  "\<exists>sh'. play_buffers 2 44100 two_frames_shared [replicate 64 FNaN, replicate 33 FNaN] = Some sh'
    \<and> sh_playback sh' = None"
proof -
  obtain pb where pb: "sh_playback two_frames_shared = Some pb" "playing_at two_frames 0 pb"
    using two_frames_playing by blast
  have "one_shot two_frames 0 pb" using pb(2) by (simp add: one_shot_def playing_at_def full_volume_def)
  moreover have "rates_ok two_frames 44100"
    using two_frames_ok by (simp add: rates_ok_def source_ok_def)
  moreover have "frame_count 2 [replicate 64 FNaN, replicate 33 FNaN] = 49"
    by (simp add: frame_count_def eval_nat_numeral)
  ultimately show ?thesis
    using playback_ends[of two_frames 44100 2 two_frames_shared pb "[replicate 64 FNaN, replicate 33 FNaN]"] pb(1)
    by (simp add: two_frames_ok)
qed

section \<open>Looping sounds\<close>

text \<open>A repeating playback at full volume at position \<open>k\<close>, which is the number of frames of the source
  exactly when the next frame wraps around.\<close>

definition looping_at :: "decoded_sound \<Rightarrow> nat \<Rightarrow> playback \<Rightarrow> bool" where
  "looping_at s k pb \<longleftrightarrow>
     pb_sound pb = s \<and> vp_repeat (pb_profile pb) \<and> vp_target (pb_profile pb) = FFin 1
     \<and> vp_ramp (pb_profile pb) = Immediate \<and> pb_cursor_frames pb = FFin (of_nat k)
     \<and> k \<le> ds_frames s \<and> \<not> pb_finished pb \<and> pb_ok pb"

lemma fl_rem_same: "0 < n \<Longrightarrow> fl_rem (FFin (of_nat n)) (FFin (of_nat n)) = FFin 0"
  by (simp add: fl_rem_def rat_trunc_def)

lemma fill_frame_repeat:
  assumes "\<not> pb_finished pb" "ds_frames (pb_sound pb) \<noteq> 0" "ds_channels (pb_sound pb) \<noteq> 0"
    "vp_repeat (pb_profile pb)"
    and "pb1 = (if ds_frames (pb_sound pb) \<le> fl_as_usize (pb_cursor_frames pb)
      then pb\<lparr>pb_cursor_frames := fl_rem (pb_cursor_frames pb) (f64_of_nat (ds_frames (pb_sound pb)))\<rparr> else pb)"
    and "frame_gain rate pb1 = Some g"
  shows "fill_frame rate pb f = Some (render_frame (pb_sound pb) (fl_as_usize (pb_cursor_frames pb1)) g f,
    pb1\<lparr>pb_cursor_frames := fl_add f64_round (pb_cursor_frames pb1)
          (resample_step (ds_sample_rate (pb_sound pb)) rate),
        pb_frames_played := u64_saturating_inc (pb_frames_played pb1)\<rparr>)"
  using assms unfolding fill_frame_def Let_def by auto

lemma looping_frame:
  assumes "source_ok s" "looping_at s k pb" "length f = dc"
    and "2 \<le> ds_sample_rate s" "ds_sample_rate s < 2 ^ 32"
  shows "\<exists>pb'. fill_frame (ds_sample_rate s) pb f = Some (source_frame s dc (k mod ds_frames s), pb')
    \<and> looping_at s (Suc (k mod ds_frames s)) pb'"
proof -
  note fr = source_ok_frames[OF assms(1)]
  let ?k = "k mod ds_frames s"
  have pb: "pb_sound pb = s" "vp_repeat (pb_profile pb)" "vp_target (pb_profile pb) = FFin 1"
    "vp_ramp (pb_profile pb) = Immediate" "pb_cursor_frames pb = FFin (of_nat k)" "k \<le> ds_frames s"
    "\<not> pb_finished pb" "pb_ok pb" using assms(2) by (simp_all add: looping_at_def)
  define pb1 where "pb1 = pb\<lparr>pb_cursor_frames := FFin (of_nat ?k)\<rparr>"
  have "pb_ok pb1" using pb(8) by (simp add: pb1_def pb_ok_def)
  then obtain g where g: "frame_gain (ds_sample_rate s) pb1 = Some g"
    using frame_gain_total assms(4,5) by blast
  then have g1: "g = FFin 1" by (auto simp: frame_gain_def pb1_def pb gain_at_def unit_range_def)
  have lt: "?k < ds_frames s" using fr by simp
  have us: "fl_as_usize (FFin (of_nat k)) = k" "fl_as_usize (FFin (of_nat ?k)) = ?k"
    using fr pb(6) lt by (simp_all add: fl_as_usize_nat)
  have "f64_val (of_nat (Suc ?k))" using fr lt by (intro f64_val_nat) simp
  then have nxt: "f64_round (of_nat ?k + 1) = FFin (of_nat (Suc ?k))"
    using f64_round_val[of "of_nat (Suc ?k)"] by (simp add: add.commute)
  have st: "resample_step (ds_sample_rate s) (ds_sample_rate s) = FFin 1"
    using step_same_rate assms(4,5) by simp
  have wrap: "pb1 = (if ds_frames (pb_sound pb) \<le> fl_as_usize (pb_cursor_frames pb)
      then pb\<lparr>pb_cursor_frames := fl_rem (pb_cursor_frames pb) (f64_of_nat (ds_frames (pb_sound pb)))\<rparr> else pb)"
    unfolding pb(1,5) us(1) using pb(5,6) fr by (auto simp: pb1_def f64_of_nat_exact fl_rem_same)
  have fill: "fill_frame (ds_sample_rate s) pb f = Some (render_frame s ?k g f,
      pb1\<lparr>pb_cursor_frames := fl_add f64_round (FFin (of_nat ?k)) (FFin 1),
          pb_frames_played := u64_saturating_inc (pb_frames_played pb1)\<rparr>)"
    using fill_frame_repeat[OF pb(7) _ _ pb(2) wrap g, of f] fr by (simp add: pb(1) st pb1_def us(2))
  show ?thesis
    unfolding fill g1 render_exact[OF assms(1) lt assms(3)]
    using pb lt by (simp add: pb1_def nxt looping_at_def pb_ok_def u64_saturating_inc_def)
qed

lemma looping_frames:
  assumes "source_ok s" "2 \<le> ds_sample_rate s" "ds_sample_rate s < 2 ^ 32"
    and "looping_at s k pb" "list_all (\<lambda>f. length f = dc) fs"
  shows "\<exists>pb' k'. fill_frames (ds_sample_rate s) pb fs =
      Some (map (\<lambda>i. source_frame s dc (i mod ds_frames s)) [k..<k + length fs], pb')
    \<and> looping_at s k' pb' \<and> k' mod ds_frames s = (k + length fs) mod ds_frames s"
  using assms(4,5)
proof (induction fs arbitrary: k pb)
  case Nil
  then show ?case by auto
next
  case (Cons f fs)
  let ?t = "ds_frames s"
  obtain pb1 where 1: "fill_frame (ds_sample_rate s) pb f = Some (source_frame s dc (k mod ?t), pb1)"
    "looping_at s (Suc (k mod ?t)) pb1"
    using looping_frame[OF assms(1) Cons.prems(1) _ assms(2,3)] Cons.prems(2) by auto
  obtain pb2 k' where 2: "fill_frames (ds_sample_rate s) pb1 fs =
      Some (map (\<lambda>i. source_frame s dc (i mod ?t)) [Suc (k mod ?t)..<Suc (k mod ?t) + length fs], pb2)"
    "looping_at s k' pb2" "k' mod ?t = (Suc (k mod ?t) + length fs) mod ?t"
    using Cons.IH[OF 1(2)] Cons.prems(2) by auto
  have shift: "map (\<lambda>i. source_frame s dc (i mod ?t)) [Suc (k mod ?t)..<Suc (k mod ?t) + length fs]
      = map (\<lambda>i. source_frame s dc (i mod ?t)) [Suc k..<Suc k + length fs]"
  proof (rule nth_equalityI)
    fix i assume "i < length (map (\<lambda>i. source_frame s dc (i mod ?t)) [Suc (k mod ?t)..<Suc (k mod ?t) + length fs])"
    moreover have "(Suc (k mod ?t) + i) mod ?t = (Suc k + i) mod ?t"
      by (metis add_Suc mod_Suc_eq mod_add_left_eq)
    ultimately show "map (\<lambda>i. source_frame s dc (i mod ?t)) [Suc (k mod ?t)..<Suc (k mod ?t) + length fs] ! i
      = map (\<lambda>i. source_frame s dc (i mod ?t)) [Suc k..<Suc k + length fs] ! i"
      by (simp del: upt_Suc add_Suc)
  qed (simp del: upt_Suc)
  have "k' mod ?t = (k + length (f # fs)) mod ?t" 
    unfolding 2(3) length_Cons by (metis add_Suc add_Suc_right mod_Suc_eq mod_add_left_eq)
  moreover have "fill_frames (ds_sample_rate s) pb (f # fs) =
      Some (map (\<lambda>i. source_frame s dc (i mod ?t)) [k..<k + length (f # fs)], pb2)"
    using shift unfolding length_Cons upt_step by (simp add: 1(1) 2(1) del: upt_Suc)
  ultimately show ?case using 2(2) by blast
qed

text \<open>C17: looping playback.  At equal rates a repeating sound at full volume yields its frames
  cyclically, without a gap or a repeated frame at the seam, over buffers of any size; it is never
  dropped and its position stays within the source.\<close>

theorem looped_playback_exact:
  assumes "source_ok s" and "2 \<le> ds_sample_rate s" and "ds_sample_rate s < 2 ^ 32"
    and "sh_playback sh = Some pb" and "looping_at s k pb" and "length out = n * dc" and "0 < dc"
  shows "\<exists>sh' pb' k'. fill_f32 sh out dc (ds_sample_rate s) =
      Some (concat (map (\<lambda>i. source_frame s dc (i mod ds_frames s)) [k..<k + n]), sh')
    \<and> sh_playback sh' = Some pb' \<and> looping_at s k' pb' \<and> k' mod ds_frames s = (k + n) mod ds_frames s"
proof -
  note ch = chunks_exact[OF assms(6,7)]
  obtain pb' k' where pb': "fill_frames (ds_sample_rate s) pb (chunks dc out) =
      Some (map (\<lambda>i. source_frame s dc (i mod ds_frames s)) [k..<k + n], pb')"
    "looping_at s k' pb'" "k' mod ds_frames s = (k + n) mod ds_frames s"
    using looping_frames[OF assms(1-3,5), of dc "chunks dc out"] ch by auto
  then show ?thesis using assms(4,7) by (auto simp: fill_f32_def looping_at_def)
qed

theorem looped_playback_exact_witness:
  "\<exists>sh'. fill_f32 (snd (handle_play shared_new two_frames (full_volume\<lparr>vp_repeat := True\<rparr>) True))
      (replicate 3 FNaN) 1 8000 = Some ([FFin 1, FFin 3, FFin 1], sh') \<and> sh_playback sh' \<noteq> None"
proof -
  let ?sh = "snd (handle_play shared_new two_frames (full_volume\<lparr>vp_repeat := True\<rparr>) True)"
  obtain pb where pb: "sh_playback ?sh = Some pb" "looping_at two_frames 0 pb"
    by (simp add: handle_play_def looping_at_def full_volume_def pb_ok_def)
  have u: "[0..<3] = [0, 1, Suc (Suc 0)]" by (simp add: upt_rec)
  have src: "concat (map (\<lambda>i. source_frame two_frames 1 (i mod 2)) [0..<3]) = [FFin 1, FFin 3, FFin 1]"
    unfolding u source_frame_def two_frames_ok(2) by (simp add: two_frames_def)
  from looped_playback_exact[OF two_frames_ok(1) _ _ pb, of "replicate 3 FNaN" 3 1] src show ?thesis
    by (auto simp: two_frames_ok(2,3))
qed

end
