(* ===== verification/Worker.thy ===== *)
theory Worker
  imports Playback
begin

text \<open>
  The audio worker thread (\<open>audio/cpal_audio.rs\<close>): device selection and stream construction
  (\<open>pick_device\<close>, \<open>build_stream\<close>) over an interface of cpal, and \<open>worker_main\<close> as a state machine
  whose steps interleave with the callbacks of the stream, which run on another thread.
\<close>

section \<open>Opening a stream\<close>

text \<open>cpal is not part of the repository: its calls are the fields of a record.\<close>

datatype sample_format = FmtF32 | FmtI16 | FmtU16 | FmtOther string

record ('dev, 'st) cpal_host =
  h_output_devices :: "string + 'dev list"
  h_name :: "'dev \<Rightarrow> string option"
  h_default_output_device :: "'dev option"
  h_default_config :: "'dev \<Rightarrow> string + sample_format"
  h_build :: "'dev \<Rightarrow> sample_format \<Rightarrow> string + 'st"
  h_play :: "'st \<Rightarrow> string + unit"

definition pick_device :: "('dev, 'st) cpal_host \<Rightarrow> string option \<Rightarrow> audio_error + 'dev" where
  "pick_device host requested =
     (case requested of
        Some name \<Rightarrow>
          (case h_output_devices host of
             Inl e \<Rightarrow> Inl (DeviceConfig e)
           | Inr devices \<Rightarrow>
               ok_or (DeviceConfig (''output device not found: '' @ name))
                 (find (\<lambda>d. h_name host d = Some name) devices))
      | None \<Rightarrow> ok_or NoDevice (h_default_output_device host))"

definition build_stream :: "('dev, 'st) cpal_host \<Rightarrow> string option \<Rightarrow> audio_error + 'st" where
  "build_stream host device_name =
     bind_r (pick_device host device_name) (\<lambda>device.
     bind_r (map_err DeviceConfig (h_default_config host device)) (\<lambda>fmt.
     bind_r (case fmt of
               FmtOther f \<Rightarrow> Inl (BuildStream (''unsupported sample format: '' @ f))
             | _ \<Rightarrow> map_err BuildStream (h_build host device fmt)) (\<lambda>stream.
     bind_r (map_err PlayStream (h_play host stream)) (\<lambda>_. Inr stream))))"

section \<open>\<open>worker_main\<close>\<close>

definition DEVICE_RETRY_INTERVAL :: duration where
  "DEVICE_RETRY_INTERVAL = dur_from_secs 5"

text \<open>Where the loop stands: at its head, waiting for a command, before the retry check, between a
  successful rebuild and the reset of the flag, or left.\<close>

datatype wpc = WTop | WRecv | WRetry | WBuilt | WDone

record worker =
  wk_pc :: wpc
  wk_stream :: bool
  wk_shared :: shared
  wk_last_retry :: nat
  wk_replies :: "(audio_error + unit) list"

datatype recv = RecvCommand command | RecvTimeout | RecvDisconnected

datatype wevent =
    LTop
  | LRecv recv
  | LRetry nat "audio_error + unit"
  | LClear nat
  | LError
  | LFill "f32 list" nat nat

definition worker_start :: "nat \<Rightarrow> audio_error + unit \<Rightarrow> worker" where
  "worker_start now b =
     \<lparr>wk_pc = WTop, wk_stream = (case b of Inr _ \<Rightarrow> True | Inl _ \<Rightarrow> False),
      wk_shared = (case b of Inr _ \<Rightarrow> shared_new | Inl _ \<Rightarrow> shared_new\<lparr>sh_device_lost := True\<rparr>),
      wk_last_retry = now, wk_replies = []\<rparr>"

definition worker_top :: "worker \<Rightarrow> worker" where
  "worker_top w =
     w\<lparr>wk_pc := WRecv, wk_stream := (wk_stream w \<and> \<not> sh_device_lost (wk_shared w))\<rparr>"

definition worker_recv :: "recv \<Rightarrow> worker \<Rightarrow> worker" where
  "worker_recv m w =
     (case m of
        RecvCommand (Play s v) \<Rightarrow>
          (case handle_play (wk_shared w) s v (wk_stream w) of
             (r, sh) \<Rightarrow> w\<lparr>wk_pc := WRetry, wk_shared := sh, wk_replies := wk_replies w @ [r]\<rparr>)
      | RecvCommand Stop \<Rightarrow>
          (case handle_stop (wk_shared w) of
             (r, sh) \<Rightarrow> w\<lparr>wk_pc := WRetry, wk_shared := sh, wk_replies := wk_replies w @ [r]\<rparr>)
      | RecvCommand Shutdown \<Rightarrow> w\<lparr>wk_pc := WDone, wk_stream := False\<rparr>
      | RecvDisconnected \<Rightarrow> w\<lparr>wk_pc := WDone, wk_stream := False\<rparr>
      | RecvTimeout \<Rightarrow> w\<lparr>wk_pc := WRetry\<rparr>)"

definition worker_retry :: "nat \<Rightarrow> audio_error + unit \<Rightarrow> worker \<Rightarrow> worker" where
  "worker_retry now b w =
     (if \<not> wk_stream w \<and> DEVICE_RETRY_INTERVAL \<le> now - wk_last_retry w
      then (case b of
              Inr _ \<Rightarrow> w\<lparr>wk_pc := WBuilt\<rparr>
            | Inl _ \<Rightarrow> w\<lparr>wk_pc := WTop, wk_last_retry := now\<rparr>)
      else w\<lparr>wk_pc := WTop\<rparr>)"

definition worker_clear :: "nat \<Rightarrow> worker \<Rightarrow> worker" where
  "worker_clear now w =
     w\<lparr>wk_pc := WTop, wk_stream := True, wk_last_retry := now,
       wk_shared := (wk_shared w)\<lparr>sh_device_lost := False\<rparr>\<rparr>"

text \<open>The callbacks of a stream run from the moment it is built until it is dropped.\<close>

definition stream_live :: "worker \<Rightarrow> bool" where
  "stream_live w \<longleftrightarrow> wk_stream w \<or> wk_pc w = WBuilt"

definition error_callback :: "worker \<Rightarrow> worker" where
  "error_callback w =
     (if stream_live w then w\<lparr>wk_shared := (wk_shared w)\<lparr>sh_device_lost := True\<rparr>\<rparr> else w)"

definition data_callback :: "f32 list \<Rightarrow> nat \<Rightarrow> nat \<Rightarrow> worker \<Rightarrow> worker" where
  "data_callback out dc rate w =
     (if stream_live w
      then (case fill_f32 (wk_shared w) out dc rate of
              None \<Rightarrow> w
            | Some (_, sh) \<Rightarrow> w\<lparr>wk_shared := sh\<rparr>)
      else w)"

fun worker_step :: "wevent \<Rightarrow> worker \<Rightarrow> worker" where
  "worker_step LTop w = (if wk_pc w = WTop then worker_top w else w)"
| "worker_step (LRecv m) w = (if wk_pc w = WRecv then worker_recv m w else w)"
| "worker_step (LRetry now b) w = (if wk_pc w = WRetry then worker_retry now b w else w)"
| "worker_step (LClear now) w = (if wk_pc w = WBuilt then worker_clear now w else w)"
| "worker_step LError w = error_callback w"
| "worker_step (LFill out dc rate) w = data_callback out dc rate w"

definition worker_run :: "wevent list \<Rightarrow> worker \<Rightarrow> worker" where
  "worker_run evs w = fold worker_step evs w"

lemma worker_run_simps [simp]:
  "worker_run [] w = w" "worker_run (e # es) w = worker_run es (worker_step e w)"
  by (simp_all add: worker_run_def)

inductive worker_reach :: "worker \<Rightarrow> bool" where
  worker_init: "worker_reach (worker_start now b)"
| worker_next: "worker_reach w \<Longrightarrow> worker_reach (worker_step e w)"

lemma worker_reach_run: "worker_reach w \<Longrightarrow> worker_reach (worker_run evs w)"
  by (induction evs arbitrary: w) (auto intro: worker_next)

section \<open>Invariants\<close>

lemma fill_f32_lost: "fill_f32 sh out dc rate = Some (o', sh') \<Longrightarrow> sh_device_lost sh' = sh_device_lost sh"
  by (auto simp: fill_f32_def split: if_splits option.splits)

text \<open>While the loop runs without a stream, the device counts as lost.\<close>

definition worker_inv :: "worker \<Rightarrow> bool" where
  "worker_inv w \<longleftrightarrow>
     (wk_pc w \<noteq> WDone \<and> \<not> wk_stream w \<longrightarrow> sh_device_lost (wk_shared w)) \<and>
     (wk_pc w = WDone \<or> wk_pc w = WBuilt \<longrightarrow> \<not> wk_stream w)"

lemma worker_inv_recv: "worker_inv w \<Longrightarrow> wk_pc w = WRecv \<Longrightarrow> worker_inv (worker_recv m w)"
  by (auto simp: worker_recv_def worker_inv_def handle_play_def handle_stop_def
      split: recv.split command.split)

lemma error_callback_fields [simp]:
  "wk_pc (error_callback w) = wk_pc w" "wk_stream (error_callback w) = wk_stream w"
  "sh_device_lost (wk_shared (error_callback w)) \<longleftrightarrow> stream_live w \<or> sh_device_lost (wk_shared w)"
  by (simp_all add: error_callback_def)

lemma data_callback_fields [simp]:
  "wk_pc (data_callback out dc rate w) = wk_pc w" "wk_stream (data_callback out dc rate w) = wk_stream w"
  "sh_device_lost (wk_shared (data_callback out dc rate w)) = sh_device_lost (wk_shared w)"
proof -
  show "wk_pc (data_callback out dc rate w) = wk_pc w" "wk_stream (data_callback out dc rate w) = wk_stream w"
    by (simp_all add: data_callback_def split: option.split)
  show "sh_device_lost (wk_shared (data_callback out dc rate w)) = sh_device_lost (wk_shared w)"
    using fill_f32_lost[of "wk_shared w" out dc rate] by (auto simp: data_callback_def split: option.split)
qed

lemma worker_inv_callbacks:
  "worker_inv w \<Longrightarrow> worker_inv (error_callback w)"
  "worker_inv w \<Longrightarrow> worker_inv (data_callback out dc rate w)"
  by (simp_all add: worker_inv_def)

lemma worker_inv_step: "worker_inv w \<Longrightarrow> worker_inv (worker_step e w)"
proof (cases e)
  case LTop
  assume "worker_inv w"
  with LTop show ?thesis by (auto simp: worker_top_def worker_inv_def)
next
  case (LRetry now b)
  assume "worker_inv w"
  with LRetry show ?thesis by (auto simp: worker_retry_def worker_inv_def split: sum.split)
next
  case (LClear now)
  assume "worker_inv w"
  with LClear show ?thesis by (auto simp: worker_clear_def worker_inv_def)
qed (simp_all add: worker_inv_recv worker_inv_callbacks)

lemma worker_inv_reach: "worker_reach w \<Longrightarrow> worker_inv w"
proof (induction rule: worker_reach.induct)
  case (worker_init now b)
  show ?case by (auto simp: worker_inv_def worker_start_def split: sum.split)
qed (simp add: worker_inv_step)

section \<open>Properties\<close>

text \<open>An accepted sound has a device.  In every reachable state of the worker a \<open>Play\<close> command
  gets exactly one reply: success with the sound installed from its start when a stream is open,
  and \<open>DeviceUnavailable\<close> with the playback untouched when none is, which only happens while the
  device is flagged as lost.\<close>

lemma play_reply_exact:
  assumes "worker_reach w" and "wk_pc w = WRecv"
  shows "\<exists>r. wk_replies (worker_step (LRecv (RecvCommand (Play s v))) w) = wk_replies w @ [r]
    \<and> (if wk_stream w
       then r = Inr () \<and> sh_playback (wk_shared (worker_step (LRecv (RecvCommand (Play s v))) w)) =
              Some \<lparr>pb_sound = s, pb_profile = v, pb_frames_played = 0, pb_cursor_frames = FFin 0,
                    pb_finished = False\<rparr>
       else r = Inl DeviceUnavailable \<and> sh_device_lost (wk_shared w)
            \<and> wk_shared (worker_step (LRecv (RecvCommand (Play s v))) w) = wk_shared w)"
  using worker_inv_reach[OF assms(1)] assms(2)
  by (cases "wk_stream w") (simp_all add: worker_recv_def handle_play_def worker_inv_def)

lemma play_reply_exact_example:
  "wk_replies (worker_run [LTop, LRecv (RecvCommand (Play two_frames full_volume))]
     (worker_start 0 (Inl NoDevice))) = [Inl DeviceUnavailable]"
proof -
  let ?w = "worker_run [LTop] (worker_start 0 (Inl NoDevice))"
  have r: "worker_reach ?w" by (rule worker_reach_run) (rule worker_init)
  have "wk_pc ?w = WRecv" "\<not> wk_stream ?w" "wk_replies ?w = []"
    by (simp_all add: worker_start_def worker_top_def)
  with play_reply_exact[OF r, of two_frames full_volume] show ?thesis by simp
qed

text \<open>C21: a lost device is recovered.  From any reachable state at the head of the loop with the
  device lost, one pass whose wait times out at least the retry interval after the last attempt
  and whose rebuild succeeds ends with an open stream, the flag cleared, and the interrupted
  playback still in place.\<close>

theorem device_recovers:
  assumes "worker_reach w" and "wk_pc w = WTop" and "sh_device_lost (wk_shared w)"
    and "wk_last_retry w + 5000000000 \<le> now"
  shows "let w' = worker_run [LTop, LRecv RecvTimeout, LRetry now (Inr ()), LClear now'] w in
    wk_stream w' \<and> \<not> sh_device_lost (wk_shared w') \<and> wk_pc w' = WTop
    \<and> sh_playback (wk_shared w') = sh_playback (wk_shared w) \<and> worker_reach w'"
proof -
  have "worker_reach (worker_run [LTop, LRecv RecvTimeout, LRetry now (Inr ()), LClear now'] w)"
    using assms(1) by (rule worker_reach_run)
  then show ?thesis
    using assms(2-4)
    by (simp add: worker_top_def worker_recv_def worker_retry_def worker_clear_def DEVICE_RETRY_INTERVAL_def
        dur_from_secs_def)
qed

theorem device_recovers_witness:
  "wk_stream (worker_run [LTop, LRecv RecvTimeout, LRetry 5000000007 (Inr ()), LClear 5000000009]
     (worker_start 7 (Inl NoDevice)))"
proof -
  have r: "worker_reach (worker_start 7 (Inl NoDevice))" by (rule worker_init)
  show ?thesis
    using device_recovers[OF r, of 5000000007 5000000009] by (simp add: worker_start_def Let_def)
qed

text \<open>Events other than a reported error and the end of the worker.\<close>

fun no_error_no_shutdown :: "wevent \<Rightarrow> bool" where
  "no_error_no_shutdown LError \<longleftrightarrow> False"
| "no_error_no_shutdown (LRecv (RecvCommand Shutdown)) \<longleftrightarrow> False"
| "no_error_no_shutdown (LRecv RecvDisconnected) \<longleftrightarrow> False"
| "no_error_no_shutdown _ \<longleftrightarrow> True"

definition healthy :: "worker \<Rightarrow> bool" where
  "healthy w \<longleftrightarrow> wk_stream w \<and> \<not> sh_device_lost (wk_shared w) \<and> wk_pc w \<notin> {WDone, WBuilt}"

lemma healthy_step: "healthy w \<Longrightarrow> no_error_no_shutdown e \<Longrightarrow> healthy (worker_step e w)"
proof (cases e)
  case (LRecv m)
  assume "healthy w" "no_error_no_shutdown e"
  with LRecv show ?thesis
    by (cases m) (auto simp: healthy_def worker_recv_def handle_play_def handle_stop_def split: command.splits)
qed (simp_all add: healthy_def worker_top_def worker_retry_def worker_clear_def)

lemma healthy_run: "healthy w \<Longrightarrow> list_all no_error_no_shutdown evs \<Longrightarrow> healthy (worker_run evs w)"
  by (induction evs arbitrary: w) (auto intro: healthy_step)

text \<open>C38: an error reported between the rebuild and the reset of the flag is lost.  The reset
  overwrites the flag that the error callback of the new stream has just set, so the worker keeps
  the failed stream and, until another error is reported, never drops it and accepts every
  \<open>Play\<close>.\<close>

theorem lost_error:
  assumes "wk_pc w = WBuilt" and "list_all no_error_no_shutdown evs"
  shows "sh_device_lost (wk_shared (worker_step LError w))
    \<and> worker_step (LClear now) (worker_step LError w) = worker_step (LClear now) w
    \<and> wk_stream (worker_run evs (worker_step (LClear now) (worker_step LError w)))"
proof -
  have "healthy (worker_step (LClear now) w)"
    using assms(1) by (simp add: healthy_def worker_clear_def)
  moreover have "worker_step (LClear now) (worker_step LError w) = worker_step (LClear now) w"
    using assms(1) by (simp add: worker_clear_def error_callback_def)
  ultimately show ?thesis
    using healthy_run[OF _ assms(2)] assms(1) by (simp add: healthy_def stream_live_def)
qed

theorem lost_error_witness:
  "let w = worker_run [LTop, LRecv RecvTimeout, LRetry 5000000000 (Inr ())] (worker_start 0 (Inl NoDevice))
   in wk_pc w = WBuilt \<and> sh_device_lost (wk_shared (worker_step LError w))
      \<and> wk_stream (worker_run [LTop, LRecv RecvTimeout] (worker_step (LClear 5000000001) (worker_step LError w)))"
proof -
  let ?w = "worker_run [LTop, LRecv RecvTimeout, LRetry 5000000000 (Inr ())] (worker_start 0 (Inl NoDevice))"
  have pc: "wk_pc ?w = WBuilt"
    by (simp add: worker_start_def worker_top_def worker_recv_def worker_retry_def
        DEVICE_RETRY_INTERVAL_def dur_from_secs_def)
  have ok: "list_all no_error_no_shutdown [LTop, LRecv RecvTimeout]" by simp
  show ?thesis unfolding Let_def using pc lost_error[OF pc ok, of 5000000001] by blast
qed

end
