(* ===== verification/Audio_Service.thy ===== *)
theory Audio_Service
  imports Worker
begin

text \<open>
  The handle \<open>CpalAudio\<close> and its worker thread together (\<open>audio/cpal_audio.rs\<close>): \<open>spawn\<close>, the
  command channel, the worker's loop fed from that channel, \<open>Drop\<close> of the last handle, and the
  data callback of \<open>build_typed\<close> with its scratch buffer.  The whole refines the one-record
  player \<open>cpal\<close> that the control object is modelled with.
\<close>

section \<open>The data callback of \<open>build_typed\<close>\<close>

text \<open>\<open>from_sample\<close> is cpal's conversion to the sample type of the device.  The scratch buffer belongs
  to the closure and only ever grows.\<close>

definition grow_scratch :: "f32 list \<Rightarrow> nat \<Rightarrow> f32 list" where
  "grow_scratch scratch n =
     (if length scratch < n then scratch @ replicate (n - length scratch) (FFin 0) else scratch)"

definition typed_callback ::
  "(f32 \<Rightarrow> 't) \<Rightarrow> nat \<Rightarrow> nat \<Rightarrow> shared \<Rightarrow> f32 list \<Rightarrow> 't list \<Rightarrow> ('t list \<times> f32 list \<times> shared) option" where
  "typed_callback from_sample channels sample_rate sh scratch data =
     (let scratch1 = grow_scratch scratch (length data) in
      case fill_f32 sh (take (length data) scratch1) channels sample_rate of
        None \<Rightarrow> None
      | Some (buf, sh') \<Rightarrow>
          Some (map2 (\<lambda>_ src. from_sample src) data buf, buf @ drop (length data) scratch1, sh'))"

section \<open>The handle and the channel\<close>

record audio_service =
  sv_worker :: worker
  sv_queue :: "command list"

text \<open>\<open>spawn\<close>: the outcome of creating the thread, then the worker's initial build at time \<open>now\<close>.\<close>

definition cpal_spawn :: "string + unit \<Rightarrow> nat \<Rightarrow> audio_error + unit \<Rightarrow> audio_error + audio_service" where
  "cpal_spawn thread now b =
     (case thread of
        Inl e \<Rightarrow> Inl (AudioIo e)
      | Inr _ \<Rightarrow> Inr \<lparr>sv_worker = worker_start now b, sv_queue = []\<rparr>)"

text \<open>\<open>Sender::send\<close> fails once the worker has returned and dropped the receiver.\<close>

definition sv_send :: "command \<Rightarrow> audio_service \<Rightarrow> (audio_error + unit) \<times> audio_service" where
  "sv_send cmd y =
     (if wk_pc (sv_worker y) = WDone then (Inl WorkerUnavailable, y)
      else (Inr (), y\<lparr>sv_queue := sv_queue y @ [cmd]\<rparr>))"

text \<open>\<open>Drop for Inner\<close> sends \<open>Shutdown\<close>, ignoring a closed channel, and joins the thread: the join
  returns once the worker is done.\<close>

definition inner_drop :: "audio_service \<Rightarrow> audio_service" where
  "inner_drop y = snd (sv_send Shutdown y)"

definition joined :: "audio_service \<Rightarrow> bool" where
  "joined y \<longleftrightarrow> wk_pc (sv_worker y) = WDone"

text \<open>The next step of the worker thread.  \<open>recv_timeout\<close> takes the oldest command; it times out only
  when there is none.\<close>

definition thread_step :: "nat \<Rightarrow> audio_error + unit \<Rightarrow> audio_service \<Rightarrow> audio_service" where
  "thread_step now b y =
     (case wk_pc (sv_worker y) of
        WTop \<Rightarrow> y\<lparr>sv_worker := worker_step LTop (sv_worker y)\<rparr>
      | WRecv \<Rightarrow>
          (case sv_queue y of
             [] \<Rightarrow> y\<lparr>sv_worker := worker_step (LRecv RecvTimeout) (sv_worker y)\<rparr>
           | cmd # q \<Rightarrow> y\<lparr>sv_worker := worker_step (LRecv (RecvCommand cmd)) (sv_worker y), sv_queue := q\<rparr>)
      | WRetry \<Rightarrow> y\<lparr>sv_worker := worker_step (LRetry now b) (sv_worker y)\<rparr>
      | WBuilt \<Rightarrow> y\<lparr>sv_worker := worker_step (LClear now) (sv_worker y)\<rparr>
      | WDone \<Rightarrow> y)"

datatype aevent =
    APlay decoded_sound volume_profile
  | AStop
  | ADrop
  | AWork nat "audio_error + unit"
  | AError
  | AFill "f32 list" nat nat

fun aud_step :: "aevent \<Rightarrow> audio_service \<Rightarrow> audio_service" where
  "aud_step (APlay s v) y = snd (sv_send (Play s v) y)"
| "aud_step AStop y = snd (sv_send Stop y)"
| "aud_step ADrop y = inner_drop y"
| "aud_step (AWork now b) y = thread_step now b y"
| "aud_step AError y = y\<lparr>sv_worker := worker_step LError (sv_worker y)\<rparr>"
| "aud_step (AFill out dc rate) y = y\<lparr>sv_worker := worker_step (LFill out dc rate) (sv_worker y)\<rparr>"

definition aud_run :: "aevent list \<Rightarrow> audio_service \<Rightarrow> audio_service" where
  "aud_run evs y = fold aud_step evs y"

lemma aud_run_simps [simp]:
  "aud_run [] y = y" "aud_run (e # es) y = aud_run es (aud_step e y)"
  "aud_run (es @ [e]) y = aud_step e (aud_run es y)"
  by (simp_all add: aud_run_def)

section \<open>The stale scratch buffer\<close>

lemma chunks_lengths: "length xs = length ys \<Longrightarrow> map length (chunks n xs) = map length (chunks n ys)"
proof (induction n xs arbitrary: ys rule: chunks.induct)
  case (2 n x xs)
  then obtain y zs where ys: "ys = y # zs" by (cases ys) auto
  have l: "length (drop n (x # xs)) = length (drop n ys)" "length (take n (x # xs)) = length (take n ys)"
    using 2(2) by simp_all
  show ?case
  proof (cases "n = 0")
    case False
    from 2(1)[OF this l(1)] l(2) False show ?thesis
      unfolding ys by (simp del: take_Suc_Cons drop_Suc_Cons length_drop length_take)
  qed (use 2(2) ys in simp)
qed simp

lemma fill_frame_cong: "length f = length g \<Longrightarrow> fill_frame r pb f = fill_frame r pb g"
proof -
  assume l: "length f = length g"
  then have "silence f = silence g" by (simp add: silence_def map_replicate_const)
  moreover have "render_frame s i k f = render_frame s i k g" for s i k by (simp add: render_frame_def l)
  ultimately show ?thesis by (simp add: fill_frame_def Let_def split: option.split)
qed

lemma fill_frames_cong: "map length fs = map length gs \<Longrightarrow> fill_frames r pb fs = fill_frames r pb gs"
proof (induction fs arbitrary: gs pb)
  case (Cons f fs)
  then obtain g gs' where gs: "gs = g # gs'" "length f = length g" "map length fs = map length gs'"
    by (cases gs) auto
  from Cons.IH[OF gs(3)] fill_frame_cong[OF gs(2)] show ?case by (simp add: gs(1) split: option.split)
qed simp

lemma fill_f32_cong: "length a = length b \<Longrightarrow> 0 < dc \<Longrightarrow> fill_f32 sh a dc r = fill_f32 sh b dc r"
  using fill_frames_cong[OF chunks_lengths, of a b r _ dc]
  by (auto simp: fill_f32_def silence_def map_replicate_const split: option.split)

lemma length_grow_scratch: "n \<le> length (grow_scratch scratch n)"
  by (simp add: grow_scratch_def)

lemma map2_ignore: "length xs = length ys \<Longrightarrow> map2 (\<lambda>_ y. f y) xs ys = map f ys"
  by (induction xs ys rule: list_induct2) simp_all

lemma typed_callback_fresh:
  assumes "0 < dc"
  shows "map_option (\<lambda>(out, _, sh'). (out, sh')) (typed_callback conv dc rate sh scratch data)
    = map_option (\<lambda>(buf, sh'). (map conv buf, sh')) (fill_f32 sh (replicate (length data) (FFin 0)) dc rate)"
proof -
  let ?buf = "take (length data) (grow_scratch scratch (length data))"
  have l: "length ?buf = length data" using length_grow_scratch[of "length data" scratch] by simp
  then have eq: "fill_f32 sh (replicate (length data) (FFin 0)) dc rate = fill_f32 sh ?buf dc rate"
    using fill_f32_cong[OF _ assms, of "replicate (length data) (FFin 0)" ?buf] by simp
  show ?thesis
  proof (cases "fill_f32 sh ?buf dc rate")
    case None
    then show ?thesis by (simp add: typed_callback_def Let_def eq)
  next
    case (Some r)
    obtain buf sh' where r: "r = (buf, sh')" by (cases r)
    with Some have "length data = length buf" using fill_f32_length l by metis
    from map2_ignore[OF this, of conv] Some r show ?thesis by (simp add: typed_callback_def Let_def eq)
  qed
qed

section \<open>Refinement\<close>

text \<open>What a client of the handle may assume: commands take effect one at a time through
  \<open>send_and_wait\<close>, \<open>Shutdown\<close> ends the player, the device comes and goes, and buffers are filled
  in between.  The trace lists the commands with their replies.\<close>

inductive player_trace :: "cpal \<Rightarrow> (command \<times> (audio_error + unit) option) list \<Rightarrow> cpal \<Rightarrow> bool" where
  pt_start: "player_trace p [] p"
| pt_exec: "player_trace p tr q \<Longrightarrow> cp_alive q \<Longrightarrow> cmd \<noteq> Shutdown \<Longrightarrow> send_and_wait cmd q = (r, q') \<Longrightarrow>
    player_trace p (tr @ [(cmd, Some r)]) q'"
| pt_shutdown: "player_trace p tr q \<Longrightarrow> cp_alive q \<Longrightarrow> worker_exec Shutdown q = (r, q') \<Longrightarrow>
    player_trace p (tr @ [(Shutdown, None)]) q'"
| pt_device: "player_trace p tr q \<Longrightarrow>
    player_trace p tr (q\<lparr>cp_stream := st, cp_shared := (cp_shared q)\<lparr>sh_device_lost := lost\<rparr>\<rparr>)"
| pt_fill: "player_trace p tr q \<Longrightarrow> fill_f32 (cp_shared q) out dc rate = Some (out', sh) \<Longrightarrow>
    player_trace p tr (q\<lparr>cp_shared := sh\<rparr>)"

definition cpal_of :: "worker \<Rightarrow> cpal" where
  "cpal_of w = \<lparr>cp_alive = (wk_pc w \<noteq> WDone), cp_responsive = True, cp_stream = wk_stream w,
     cp_shared = wk_shared w\<rparr>"

definition acks :: "(command \<times> (audio_error + unit) option) list \<Rightarrow> (audio_error + unit) list" where
  "acks tr = concat (map (\<lambda>(_, r). case r of Some x \<Rightarrow> [x] | None \<Rightarrow> []) tr)"

fun event_command :: "aevent \<Rightarrow> command option" where
  "event_command (APlay s v) = Some (Play s v)"
| "event_command AStop = Some Stop"
| "event_command ADrop = Some Shutdown"
| "event_command _ = None"

text \<open>The commands that a schedule puts into the channel.\<close>

fun accepted :: "aevent list \<Rightarrow> audio_service \<Rightarrow> command list" where
  "accepted [] y = []"
| "accepted (e # es) y =
     (case event_command e of
        Some cmd \<Rightarrow> if wk_pc (sv_worker y) = WDone then [] else [cmd]
      | None \<Rightarrow> []) @ accepted es (aud_step e y)"

lemma acks_simps [simp]: "acks [] = []" "acks (tr @ [(c, Some r)]) = acks tr @ [r]"
  "acks (tr @ [(c, None)]) = acks tr"
  by (simp_all add: acks_def)

lemma accepted_append: "accepted (es @ fs) y = accepted es y @ accepted fs (aud_run es y)"
  by (induction es arbitrary: y) simp_all

lemma cpal_of_device:
  assumes "wk_pc w' \<noteq> WDone \<longleftrightarrow> wk_pc w \<noteq> WDone"
    and "wk_shared w' = (wk_shared w)\<lparr>sh_device_lost := lost\<rparr>"
  shows "cpal_of w' = (cpal_of w)\<lparr>cp_stream := wk_stream w',
    cp_shared := (cp_shared (cpal_of w))\<lparr>sh_device_lost := lost\<rparr>\<rparr>"
  using assms by (simp add: cpal_of_def)

text \<open>One step of the service is at most one step of the player.\<close>

definition sim_step :: "audio_service \<Rightarrow> audio_service \<Rightarrow> command list \<Rightarrow> bool" where
  "sim_step y y' new \<longleftrightarrow>
     (\<forall>p tr. player_trace p tr (cpal_of (sv_worker y)) \<longrightarrow>
       (\<exists>tr'. player_trace p (tr @ tr') (cpal_of (sv_worker y'))
         \<and> wk_replies (sv_worker y') = wk_replies (sv_worker y) @ acks tr'
         \<and> map fst tr' @ sv_queue y' = sv_queue y @ new))"

lemma sim_stutter:
  assumes "\<And>p tr. player_trace p tr (cpal_of (sv_worker y)) \<Longrightarrow> player_trace p tr (cpal_of (sv_worker y'))"
    and "wk_replies (sv_worker y') = wk_replies (sv_worker y)" "sv_queue y' = sv_queue y @ new"
  shows "sim_step y y' new"
  unfolding sim_step_def
proof (intro allI impI)
  fix p tr assume "player_trace p tr (cpal_of (sv_worker y))"
  with assms(1) have "player_trace p (tr @ []) (cpal_of (sv_worker y'))" by simp
  then show "\<exists>tr'. player_trace p (tr @ tr') (cpal_of (sv_worker y'))
      \<and> wk_replies (sv_worker y') = wk_replies (sv_worker y) @ acks tr'
      \<and> map fst tr' @ sv_queue y' = sv_queue y @ new"
    using assms(2,3) by (intro exI[of _ "[]"]) simp
qed

lemma sim_device:
  assumes "wk_pc (sv_worker y') \<noteq> WDone \<longleftrightarrow> wk_pc (sv_worker y) \<noteq> WDone"
    and "wk_shared (sv_worker y') = (wk_shared (sv_worker y))\<lparr>sh_device_lost := lost\<rparr>"
    and "wk_replies (sv_worker y') = wk_replies (sv_worker y)" "sv_queue y' = sv_queue y @ new"
  shows "sim_step y y' new"
proof (rule sim_stutter[OF _ assms(3,4)])
  fix p tr assume "player_trace p tr (cpal_of (sv_worker y))"
  then show "player_trace p tr (cpal_of (sv_worker y'))"
    unfolding cpal_of_device[OF assms(1,2)] by (rule pt_device)
qed

lemma sim_send: "sim_step y (snd (sv_send cmd y)) (if wk_pc (sv_worker y) = WDone then [] else [cmd])"
  by (rule sim_stutter) (simp_all add: sv_send_def)

lemma sim_exec:
  assumes "wk_pc (sv_worker y) = WRecv" "sv_queue y = cmd # q"
  shows "sim_step y (thread_step now b y) []"
  unfolding sim_step_def
proof (intro allI impI)
  let ?w = "sv_worker y"
  fix p tr assume tr: "player_trace p tr (cpal_of ?w)"
  have alive: "cp_alive (cpal_of ?w)" using assms(1) by (simp add: cpal_of_def)
  obtain r where r: "player_trace p (tr @ [(cmd, r)]) (cpal_of (worker_recv (RecvCommand cmd) ?w))"
    "wk_replies (worker_recv (RecvCommand cmd) ?w) = wk_replies ?w @ acks [(cmd, r)]"
  proof (cases "cmd = Shutdown")
    case True
    from pt_shutdown[OF tr alive] True that[of None] show ?thesis
      by (simp add: worker_exec_def worker_recv_def cpal_of_def acks_def)
  next
    case False
    obtain r q' where s: "send_and_wait cmd (cpal_of ?w) = (r, q')" by fastforce
    then have "q' = cpal_of (worker_recv (RecvCommand cmd) ?w)"
      "wk_replies (worker_recv (RecvCommand cmd) ?w) = wk_replies ?w @ [r]"
      using False assms(1)
      by (cases cmd; auto simp: send_and_wait_def worker_exec_def worker_recv_def cpal_of_def handle_play_def
          handle_stop_def split: if_splits)+
    with pt_exec[OF tr alive False s] that[of "Some r"] show ?thesis by (simp add: acks_def)
  qed
  then show "\<exists>tr'. player_trace p (tr @ tr') (cpal_of (sv_worker (thread_step now b y)))
      \<and> wk_replies (sv_worker (thread_step now b y)) = wk_replies ?w @ acks tr'
      \<and> map fst tr' @ sv_queue (thread_step now b y) = sv_queue y @ []"
    using assms by (intro exI[of _ "[(cmd, r)]"]) (simp add: thread_step_def)
qed

lemma shared_same_lost: "sh = sh\<lparr>sh_device_lost := sh_device_lost sh\<rparr>"
  by simp

lemma sim_thread: "sim_step y (thread_step now b y) []"
proof (cases "wk_pc (sv_worker y) = WRecv \<and> sv_queue y \<noteq> []")
  case True
  then show ?thesis using sim_exec by (metis neq_Nil_conv)
next
  case False
  let ?y = "thread_step now b y"
  have "wk_shared (sv_worker ?y) = (wk_shared (sv_worker y))\<lparr>sh_device_lost :=
      (sh_device_lost (wk_shared (sv_worker y)) \<and> wk_pc (sv_worker y) \<noteq> WBuilt)\<rparr>"
    "wk_pc (sv_worker ?y) \<noteq> WDone \<longleftrightarrow> wk_pc (sv_worker y) \<noteq> WDone"
    "wk_replies (sv_worker ?y) = wk_replies (sv_worker y)" "sv_queue ?y = sv_queue y @ []"
    using False
    by (cases "wk_pc (sv_worker y)"; cases b;
        auto simp: thread_step_def worker_top_def worker_recv_def worker_retry_def worker_clear_def)+
  then show ?thesis by (intro sim_device)
qed

lemma sim_aud_step: "sim_step y (aud_step e y) (accepted [e] y)"
proof (cases e)
  case (AFill out dc rate)
  show ?thesis
  proof (rule sim_stutter)
    fix p tr assume tr: "player_trace p tr (cpal_of (sv_worker y))"
    show "player_trace p tr (cpal_of (sv_worker (aud_step e y)))"
    proof (cases "stream_live (sv_worker y) \<and> fill_f32 (wk_shared (sv_worker y)) out dc rate \<noteq> None")
      case True
      then obtain o' sh where f: "fill_f32 (cp_shared (cpal_of (sv_worker y))) out dc rate = Some (o', sh)"
        by (auto simp: cpal_of_def)
      from pt_fill[OF tr f] f True show ?thesis
        by (simp add: AFill data_callback_def cpal_of_def)
    next
      case False
      then have "sv_worker (aud_step e y) = sv_worker y" by (auto simp: AFill data_callback_def split: option.split)
      with tr show ?thesis by simp
    qed
  qed (simp_all add: AFill data_callback_def split: option.split)
next
  case AError
  then show ?thesis
    by (intro sim_device[where lost = "stream_live (sv_worker y) \<or> sh_device_lost (wk_shared (sv_worker y))"])
       (simp_all add: error_callback_def)
qed (use sim_thread sim_send in \<open>simp_all add: inner_drop_def\<close>)

lemma service_simulation:
  "\<exists>tr. player_trace (cpal_of (sv_worker y)) tr (cpal_of (sv_worker (aud_run evs y)))
    \<and> wk_replies (sv_worker (aud_run evs y)) = wk_replies (sv_worker y) @ acks tr
    \<and> map fst tr @ sv_queue (aud_run evs y) = sv_queue y @ accepted evs y"
proof (induction evs rule: rev_induct)
  case Nil
  show ?case by (intro exI[of _ "[]"]) (simp add: pt_start)
next
  case (snoc e evs)
  then obtain tr where tr: "player_trace (cpal_of (sv_worker y)) tr (cpal_of (sv_worker (aud_run evs y)))"
    "wk_replies (sv_worker (aud_run evs y)) = wk_replies (sv_worker y) @ acks tr"
    "map fst tr @ sv_queue (aud_run evs y) = sv_queue y @ accepted evs y" by blast
  from sim_aud_step[of "aud_run evs y" e] tr(1) obtain tr' where tr':
    "player_trace (cpal_of (sv_worker y)) (tr @ tr') (cpal_of (sv_worker (aud_step e (aud_run evs y))))"
    "wk_replies (sv_worker (aud_step e (aud_run evs y))) = wk_replies (sv_worker (aud_run evs y)) @ acks tr'"
    "map fst tr' @ sv_queue (aud_step e (aud_run evs y)) = sv_queue (aud_run evs y) @ accepted [e] (aud_run evs y)"
    unfolding sim_step_def by blast
  have "acks (tr @ tr') = acks tr @ acks tr'" by (simp add: acks_def)
  moreover have "map fst (tr @ tr') @ sv_queue (aud_run (evs @ [e]) y) = sv_queue y @ accepted (evs @ [e]) y"
    using tr(3) tr'(3) by (simp add: accepted_append)
  ultimately show ?case using tr(2) tr'(1,2) by (intro exI[of _ "tr @ tr'"]) simp
qed

section \<open>Shutting down\<close>

text \<open>Steps of the thread to the next \<open>recv_timeout\<close>, that one included.\<close>

fun pc_rank :: "wpc \<Rightarrow> nat" where
  "pc_rank WRecv = 1"
| "pc_rank WTop = 2"
| "pc_rank WBuilt = 3"
| "pc_rank WRetry = 4"
| "pc_rank WDone = 0"

fun is_work :: "aevent \<Rightarrow> bool" where
  "is_work (AWork _ _) \<longleftrightarrow> True"
| "is_work _ \<longleftrightarrow> False"

definition work_steps :: "aevent list \<Rightarrow> nat" where
  "work_steps evs = length (filter is_work evs)"

definition ahead :: "audio_service \<Rightarrow> command list" where
  "ahead y = takeWhile (\<lambda>c. c \<noteq> Shutdown) (sv_queue y)"

text \<open>A shutdown under way: at most \<open>k\<close> steps of the thread and \<open>n\<close> replies are left.\<close>

definition closing :: "nat \<Rightarrow> nat \<Rightarrow> audio_service \<Rightarrow> bool" where
  "closing k n y \<longleftrightarrow>
     (if joined y then length (wk_replies (sv_worker y)) = n
      else Shutdown \<in> set (sv_queue y) \<and> 4 * length (ahead y) + pc_rank (wk_pc (sv_worker y)) \<le> k
           \<and> length (wk_replies (sv_worker y)) + length (ahead y) = n)"

lemma closing_send: "closing k n y \<Longrightarrow> closing k n (snd (sv_send cmd y))"
  by (auto simp: closing_def joined_def sv_send_def ahead_def takeWhile_append1)

lemma closing_callbacks:
  "closing k n y \<Longrightarrow> closing k n (aud_step AError y)"
  "closing k n y \<Longrightarrow> closing k n (aud_step (AFill out dc rate) y)"
proof -
  have "wk_replies (error_callback w) = wk_replies w" "wk_replies (data_callback out dc rate w) = wk_replies w" for w
    by (simp_all add: error_callback_def data_callback_def split: option.split)
  then show "closing k n y \<Longrightarrow> closing k n (aud_step AError y)"
    "closing k n y \<Longrightarrow> closing k n (aud_step (AFill out dc rate) y)"
    by (auto simp: closing_def joined_def ahead_def split: if_splits)
qed

lemma recv_command:
  "cmd \<noteq> Shutdown \<Longrightarrow> wk_pc (worker_recv (RecvCommand cmd) w) = WRetry
    \<and> length (wk_replies (worker_recv (RecvCommand cmd) w)) = Suc (length (wk_replies w))"
  by (cases cmd) (auto simp: worker_recv_def handle_play_def handle_stop_def)

lemma retry_fields: "wk_pc (worker_retry now b w) \<in> {WTop, WBuilt}" "wk_replies (worker_retry now b w) = wk_replies w"
  by (auto simp: worker_retry_def split: sum.split)

lemma closing_work:
  assumes "closing (Suc k) n y" shows "closing k n (thread_step now b y)"
proof (cases "wk_pc (sv_worker y)")
  case WRecv
  with assms obtain cmd q where q: "sv_queue y = cmd # q"
    by (cases "sv_queue y") (auto simp: closing_def joined_def)
  show ?thesis
  proof (cases "cmd = Shutdown")
    case True
    with WRecv q assms show ?thesis
      by (simp add: closing_def joined_def thread_step_def ahead_def worker_recv_def)
  next
    case False
    with WRecv q assms recv_command[OF False, of "sv_worker y"] show ?thesis
      by (simp add: closing_def joined_def thread_step_def ahead_def)
  qed
next
  case WRetry
  with assms retry_fields[of now b "sv_worker y"] show ?thesis
    by (auto simp: closing_def joined_def thread_step_def ahead_def)
qed (use assms in \<open>auto simp: closing_def joined_def thread_step_def ahead_def worker_top_def worker_clear_def\<close>)

lemma closing_run: "closing (work_steps evs + k) n y \<Longrightarrow> closing k n (aud_run evs y)"
proof (induction evs arbitrary: y)
  case (Cons e evs)
  have "closing (work_steps evs + k) n (aud_step e y)"
  proof (cases e)
    case (AWork now b)
    with Cons.prems closing_work show ?thesis by (simp add: work_steps_def)
  qed (use Cons.prems closing_send closing_callbacks in \<open>simp_all add: work_steps_def inner_drop_def\<close>)
  with Cons.IH show ?case by simp
qed (simp add: work_steps_def)

lemma closing_0: "closing 0 n y \<Longrightarrow> joined y \<and> length (wk_replies (sv_worker y)) = n"
  by (cases "wk_pc (sv_worker y)") (auto simp: closing_def joined_def)

lemma closing_mono: "closing k n y \<Longrightarrow> k \<le> k' \<Longrightarrow> closing k' n y"
  by (auto simp: closing_def)

lemma closing_drop:
  assumes "\<not> joined y" "Shutdown \<notin> set (sv_queue y)"
  shows "closing (4 * length (sv_queue y) + 4) (length (wk_replies (sv_worker y)) + length (sv_queue y)) (inner_drop y)"
proof -
  have "takeWhile (\<lambda>c. c \<noteq> Shutdown) (sv_queue y @ [Shutdown]) = sv_queue y"
    using assms(2) by (subst takeWhile_append2) auto
  moreover have "pc_rank (wk_pc (sv_worker y)) \<le> 4" by (cases "wk_pc (sv_worker y)") simp_all
  ultimately show ?thesis
    using assms(1) by (auto simp: closing_def joined_def inner_drop_def sv_send_def ahead_def)
qed

section \<open>Properties\<close>

text \<open>C9: the handle refines the player.  Whatever the interleaving of clients, worker steps, device
  errors, rebuilds and callbacks, the service behaves as the sequential player: the commands put
  into the channel take effect exactly once, in the order sent, each through \<open>send_and_wait\<close> of the
  player as it stands at that moment; the replies are the replies of those calls, in that order;
  what is not yet executed is still queued.\<close>

theorem service_refines_player:
  "\<exists>tr. player_trace (cpal_of (sv_worker y)) tr (cpal_of (sv_worker (aud_run evs y)))
    \<and> wk_replies (sv_worker (aud_run evs y)) = wk_replies (sv_worker y) @ acks tr
    \<and> map fst tr @ sv_queue (aud_run evs y) = sv_queue y @ accepted evs y"
  by (rule service_simulation)

text \<open>C20: dropping the last handle terminates.  The join returns after at most four steps of the
  worker thread per queued command and four more, whatever else happens in between (further
  sends, device errors, callbacks, rebuilds), and every command queued before has been answered.\<close>

theorem drop_terminates:
  assumes "\<not> joined y" and "Shutdown \<notin> set (sv_queue y)" and "4 * length (sv_queue y) + 4 \<le> work_steps evs"
  shows "joined (aud_run evs (inner_drop y))
    \<and> length (wk_replies (sv_worker (aud_run evs (inner_drop y))))
        = length (wk_replies (sv_worker y)) + length (sv_queue y)"
proof -
  from closing_mono[OF closing_drop[OF assms(1,2)] assms(3)]
  have "closing (work_steps evs + 0) (length (wk_replies (sv_worker y)) + length (sv_queue y)) (inner_drop y)"
    by simp
  from closing_0[OF closing_run[OF this]] show ?thesis .
qed

theorem drop_terminates_witness:
  "\<exists>y. cpal_spawn (Inr ()) 0 (Inl NoDevice) = Inr y
    \<and> joined (aud_run (AError # replicate 8 (AWork 9 (Inl NoDevice))) (inner_drop (aud_step AStop y)))"
proof -
  obtain y where y: "cpal_spawn (Inr ()) 0 (Inl NoDevice) = Inr y" by (simp add: cpal_spawn_def)
  then have "\<not> joined (aud_step AStop y)" "sv_queue (aud_step AStop y) = [Stop]"
    by (auto simp: cpal_spawn_def joined_def sv_send_def worker_start_def)
  moreover have "work_steps (AError # replicate 8 (AWork 9 (Inl NoDevice))) = 8" by (simp add: work_steps_def)
  ultimately show ?thesis
    using y drop_terminates[of "aud_step AStop y" "AError # replicate 8 (AWork 9 (Inl NoDevice))"] by auto
qed

text \<open>The scratch buffer leaks nothing.  On a device with at least one channel, what the data
  callback hands to the device is the converted output of \<open>fill_f32\<close> on a zeroed buffer of the
  size asked for, whatever earlier and longer buffers left in the scratch space.\<close>

lemma callback_ignores_scratch:
  assumes "0 < channels"
  shows "map_option (\<lambda>(out, _, sh'). (out, sh')) (typed_callback from_sample channels rate sh scratch data)
    = map_option (\<lambda>(buf, sh'). (map from_sample buf, sh'))
        (fill_f32 sh (replicate (length data) (FFin 0)) channels rate)"
  using assms by (rule typed_callback_fresh)

lemma callback_ignores_scratch_example:
  "map_option (\<lambda>(out, _, sh'). (out, sh')) (typed_callback (\<lambda>x. [x]) 2 8000 shared_new [FInf False, FNaN, FNaN] [[], []])
    = Some ([[FFin 0], [FFin 0]], shared_new)"
  using callback_ignores_scratch[of 2 "\<lambda>x. [x]" 8000 shared_new "[FInf False, FNaN, FNaN]" "[[], []]"]
  by (simp add: fill_f32_def silence_def shared_new_def)

end
