(* ===== verification/Control.thy ===== *)
theory Control
  imports Daemon Sounds Audio_Player
begin

text \<open>
  The D-Bus control object (\<open>ipc/control.rs\<close>).  The object owns the daemon (with the disk behind
  it), the sound library, the audio player and the slot \<open>trigger_task\<close> for the handle of the last
  spawned trigger task.  The tokio runtime is the list of all trigger tasks spawned so far; a
  \<open>JoinHandle\<close> is an index into it.  A task sleeps until its deadline, is then polled (from that
  moment an abort no longer reaches it: the rest of its body has no suspension point) and finally
  decodes and plays.  Every handler is the composition of the atomic actions its body performs, in
  the order of the source.
\<close>

section \<open>Data\<close>

text \<open>Errors returned over D-Bus: \<open>zbus::fdo::Error\<close> with the message as a value.\<close>

datatype fdo_message = MsgAudio audio_error | MsgDurationZero | MsgNoArmedSound

datatype fdo_error = InvalidArgs fdo_message | Failed fdo_message

datatype task_state = Sleeping | Running | Finished | Aborted

record trigger =
  tg_path :: path
  tg_deadline :: nat
  tg_state :: task_state

record ('p, 'db, 'w) control =
  c_daemon :: "'db alarm_daemon"
  c_disk :: 'w
  c_sounds :: sound_library
  c_player :: 'p
  c_trigger_delay :: duration
  c_trigger_task :: "nat option"
  c_tasks :: "trigger list"
  c_signals :: "bool list"

text \<open>What a call observes of its surroundings: the file system, the wall clock (ns since the
  epoch), the monotonic clock of the runtime (ns), whether the blocking task of the write is
  cancelled and whether the signal can be emitted.\<close>

record call_env =
  ce_fs :: fs
  ce_clk :: int
  ce_now :: nat
  ce_cancelled :: bool
  ce_emit_ok :: bool

section \<open>\<open>Control::new\<close>\<close>

definition DEFAULT_TRIGGER_DELAY :: duration where
  "DEFAULT_TRIGGER_DELAY = dur_from_secs 3"

definition trigger_delay_from_env :: "environment \<Rightarrow> duration" where
  "trigger_delay_from_env env =
     (case Option.bind (env_var env ''ALARM_DAEMON_TRIGGER_DELAY_MS'') parse_u64 of
        Some ms \<Rightarrow> dur_from_millis ms
      | None \<Rightarrow> DEFAULT_TRIGGER_DELAY)"

definition control_new ::
  "environment \<Rightarrow> 'db alarm_daemon \<Rightarrow> 'w \<Rightarrow> sound_library \<Rightarrow> 'p \<Rightarrow> ('p, 'db, 'w) control" where
  "control_new env d w lib player =
     \<lparr>c_daemon = d, c_disk = w, c_sounds = lib, c_player = player,
      c_trigger_delay = trigger_delay_from_env env, c_trigger_task = None, c_tasks = [],
      c_signals = []\<rparr>"

section \<open>Atomic actions\<close>

text \<open>\<open>JoinHandle::abort\<close> only reaches a task that is suspended in its sleep.\<close>

definition abort_task :: "nat \<Rightarrow> trigger list \<Rightarrow> trigger list" where
  "abort_task i ts =
     (if i < length ts \<and> tg_state (ts ! i) = Sleeping then ts[i := (ts ! i)\<lparr>tg_state := Aborted\<rparr>] else ts)"

definition take_and_abort :: "('p, 'db, 'w) control \<Rightarrow> ('p, 'db, 'w) control" where
  "take_and_abort c =
     (case c_trigger_task c of
        Some h \<Rightarrow> c\<lparr>c_trigger_task := None, c_tasks := abort_task h (c_tasks c)\<rparr>
      | None \<Rightarrow> c)"

text \<open>A failing stop is only logged.\<close>

definition stop_player :: "'p audio_ops \<Rightarrow> ('p, 'db, 'w) control \<Rightarrow> ('p, 'db, 'w) control" where
  "stop_player aud c = c\<lparr>c_player := snd (ao_stop aud (c_player c))\<rparr>"

definition on_daemon ::
  "('db alarm_daemon \<times> 'w \<Rightarrow> transition \<times> 'db alarm_daemon \<times> 'w) \<Rightarrow>
   ('p, 'db, 'w) control \<Rightarrow> transition \<times> ('p, 'db, 'w) control" where
  "on_daemon f c =
     (case f (c_daemon c, c_disk c) of (t, d, w) \<Rightarrow> (t, c\<lparr>c_daemon := d, c_disk := w\<rparr>))"

definition spawn_trigger :: "path \<Rightarrow> nat \<Rightarrow> ('p, 'db, 'w) control \<Rightarrow> nat \<times> ('p, 'db, 'w) control" where
  "spawn_trigger p deadline c =
     (length (c_tasks c),
      c\<lparr>c_tasks := c_tasks c @ [\<lparr>tg_path = p, tg_deadline = deadline, tg_state = Sleeping\<rparr>]\<rparr>)"

text \<open>Storing a handle drops the previous one, which detaches its task without aborting it.\<close>

definition store_handle :: "nat \<Rightarrow> ('p, 'db, 'w) control \<Rightarrow> ('p, 'db, 'w) control" where
  "store_handle h c = c\<lparr>c_trigger_task := Some h\<rparr>"

definition state_changed :: "bool \<Rightarrow> bool \<Rightarrow> ('p, 'db, 'w) control \<Rightarrow> ('p, 'db, 'w) control" where
  "state_changed emit_ok armed c = (if emit_ok then c\<lparr>c_signals := c_signals c @ [armed]\<rparr> else c)"

definition notify :: "bool \<Rightarrow> transition \<Rightarrow> ('p, 'db, 'w) control \<Rightarrow> ('p, 'db, 'w) control" where
  "notify emit_ok t c =
     (case t of
        Changed from to \<Rightarrow> if from \<noteq> to then state_changed emit_ok (is_armed to) c else c
      | NoChange \<Rightarrow> c)"

section \<open>Operations of \<open>impl Control\<close>\<close>

definition cancel_pending :: "'p audio_ops \<Rightarrow> ('p, 'db, 'w) control \<Rightarrow> ('p, 'db, 'w) control" where
  "cancel_pending aud c = stop_player aud (take_and_abort c)"

definition fire_at :: "int \<Rightarrow> duration \<Rightarrow> i64" where
  "fire_at clk delay =
     i64_saturating_add (unix_now_ms clk)
       (case i64_try_from (dur_as_millis delay) of Some v \<Rightarrow> v | None \<Rightarrow> word_of_int i64_max)"

definition schedule_trigger_with_delay ::
  "('w, 'db, 'rtx, 'tab, 'wtx) redb_api \<Rightarrow> 'p audio_ops \<Rightarrow> call_env \<Rightarrow> string \<Rightarrow> duration \<Rightarrow>
   ('p, 'db, 'w) control \<Rightarrow> (fdo_error + transition) \<times> ('p, 'db, 'w) control" where
  "schedule_trigger_with_delay api aud ce sid delay c =
     (case resolve_path (ce_fs ce) (c_sounds c) sid of
        Inl e \<Rightarrow> (Inl (InvalidArgs (MsgAudio e)), c)
      | Inr p \<Rightarrow>
          (let t_fire = fire_at (ce_clk ce) delay;
               c1 = cancel_pending aud c;
               (tr, c2) = on_daemon (arm_with_sound api (ce_cancelled ce) sid (Some t_fire)) c1;
               (h, c3) = spawn_trigger p (ce_now ce + delay) c2
           in (Inr tr, store_handle h c3)))"

definition schedule_trigger ::
  "('w, 'db, 'rtx, 'tab, 'wtx) redb_api \<Rightarrow> 'p audio_ops \<Rightarrow> call_env \<Rightarrow> string \<Rightarrow>
   ('p, 'db, 'w) control \<Rightarrow> (fdo_error + transition) \<times> ('p, 'db, 'w) control" where
  "schedule_trigger api aud ce sid c =
     schedule_trigger_with_delay api aud ce sid (c_trigger_delay c) c"

section \<open>The interface \<open>org.helm.AlarmDaemon.Control\<close>\<close>

definition control_arm ::
  "('w, 'db, 'rtx, 'tab, 'wtx) redb_api \<Rightarrow> 'p audio_ops \<Rightarrow> call_env \<Rightarrow> string \<Rightarrow>
   ('p, 'db, 'w) control \<Rightarrow> (fdo_error + unit) \<times> ('p, 'db, 'w) control" where
  "control_arm api aud ce sid c =
     (case schedule_trigger api aud ce sid c of
        (Inl e, c') \<Rightarrow> (Inl e, c')
      | (Inr t, c') \<Rightarrow> (Inr (), notify (ce_emit_ok ce) t c'))"

definition control_disarm ::
  "('w, 'db, 'rtx, 'tab, 'wtx) redb_api \<Rightarrow> 'p audio_ops \<Rightarrow> call_env \<Rightarrow>
   ('p, 'db, 'w) control \<Rightarrow> (fdo_error + unit) \<times> ('p, 'db, 'w) control" where
  "control_disarm api aud ce c =
     (let (t, c') = on_daemon (daemon_disarm api (ce_cancelled ce)) (cancel_pending aud c)
      in (Inr (), notify (ce_emit_ok ce) t c'))"

definition control_snooze ::
  "('w, 'db, 'rtx, 'tab, 'wtx) redb_api \<Rightarrow> 'p audio_ops \<Rightarrow> call_env \<Rightarrow> u32 \<Rightarrow>
   ('p, 'db, 'w) control \<Rightarrow> (fdo_error + unit) \<times> ('p, 'db, 'w) control" where
  "control_snooze api aud ce duration_s c =
     (if duration_s = 0 then (Inl (InvalidArgs MsgDurationZero), c)
      else (case daemon_current_sound (c_daemon c) of
              None \<Rightarrow> (Inl (Failed MsgNoArmedSound), c)
            | Some sid \<Rightarrow>
                (case schedule_trigger_with_delay api aud ce sid (dur_from_secs (unat duration_s)) c of
                   (Inl e, c') \<Rightarrow> (Inl e, c')
                 | (Inr _, c') \<Rightarrow> (Inr (), c'))))"

definition control_dismiss ::
  "('w, 'db, 'rtx, 'tab, 'wtx) redb_api \<Rightarrow> 'p audio_ops \<Rightarrow> call_env \<Rightarrow>
   ('p, 'db, 'w) control \<Rightarrow> (fdo_error + unit) \<times> ('p, 'db, 'w) control" where
  "control_dismiss api aud ce c =
     (let (t, c') = on_daemon (daemon_disarm api (ce_cancelled ce)) (cancel_pending aud c)
      in (Inr (), notify (ce_emit_ok ce) t c'))"

definition control_status :: "('p, 'db, 'w) control \<Rightarrow> bool" where
  "control_status c = is_armed (daemon_status (c_daemon c))"

definition control_current_sound :: "('p, 'db, 'w) control \<Rightarrow> string" where
  "control_current_sound c =
     (case daemon_current_sound (c_daemon c) of Some s \<Rightarrow> s | None \<Rightarrow> [])"

definition control_list_sounds :: "call_env \<Rightarrow> ('p, 'db, 'w) control \<Rightarrow> fdo_error + string list" where
  "control_list_sounds ce c =
     (case list_sounds (ce_fs ce) (c_sounds c) of
        Inl e \<Rightarrow> Inl (Failed (MsgAudio e))
      | Inr sounds \<Rightarrow> Inr (map ss_id sounds))"

section \<open>The spawned task\<close>

text \<open>The sleep ends: the runtime polls the task.\<close>

definition wake_trigger :: "nat \<Rightarrow> nat \<Rightarrow> ('p, 'db, 'w) control \<Rightarrow> ('p, 'db, 'w) control" where
  "wake_trigger now i c =
     (if i < length (c_tasks c) \<and> tg_state (c_tasks c ! i) = Sleeping \<and> tg_deadline (c_tasks c ! i) \<le> now
      then c\<lparr>c_tasks := (c_tasks c)[i := (c_tasks c ! i)\<lparr>tg_state := Running\<rparr>]\<rparr> else c)"

text \<open>The rest of the body: decode, build the profile, play; every error is only logged.\<close>

definition trigger_body ::
  "('src, 'fmt, 'dec, 'pkt) symphonia_api \<Rightarrow> (path \<Rightarrow> string + 'src) \<Rightarrow> 'p audio_ops \<Rightarrow> path \<Rightarrow>
   'p \<Rightarrow> 'p option" where
  "trigger_body sy open_file aud p player =
     (case from_path_decode sy open_file p of
        None \<Rightarrow> None
      | Some (Inl e) \<Rightarrow> Some player
      | Some (Inr s) \<Rightarrow>
          (case profile_new (FFin 1) Immediate False of
             Inl e \<Rightarrow> Some player
           | Inr v \<Rightarrow> Some (snd (ao_play aud s v player))))"

text \<open>A task that has been polled completes its body; nothing happens while the decoder is still
  busy (or never returns).\<close>

definition run_trigger ::
  "('src, 'fmt, 'dec, 'pkt) symphonia_api \<Rightarrow> (path \<Rightarrow> string + 'src) \<Rightarrow> 'p audio_ops \<Rightarrow> nat \<Rightarrow>
   ('p, 'db, 'w) control \<Rightarrow> ('p, 'db, 'w) control" where
  "run_trigger sy open_file aud i c =
     (if i < length (c_tasks c) \<and> tg_state (c_tasks c ! i) = Running
      then (case trigger_body sy open_file aud (tg_path (c_tasks c ! i)) (c_player c) of
              None \<Rightarrow> c
            | Some player \<Rightarrow>
                c\<lparr>c_player := player, c_tasks := (c_tasks c)[i := (c_tasks c ! i)\<lparr>tg_state := Finished\<rparr>]\<rparr>)
      else c)"

section \<open>Effects of the operations on each field\<close>

lemma abort_task_length [simp]: "length (abort_task i ts) = length ts"
  by (simp add: abort_task_def)

lemma abort_task_nth:
  "j < length ts \<Longrightarrow> abort_task i ts ! j =
    (if i = j \<and> tg_state (ts ! j) = Sleeping then (ts ! j)\<lparr>tg_state := Aborted\<rparr> else ts ! j)"
  by (auto simp: abort_task_def nth_list_update)

lemma take_and_abort_fields [ctl_simps]:
  "c_trigger_task (take_and_abort c) = None"
  "c_tasks (take_and_abort c) = (case c_trigger_task c of Some h \<Rightarrow> abort_task h (c_tasks c) | None \<Rightarrow> c_tasks c)"
  "c_daemon (take_and_abort c) = c_daemon c" "c_disk (take_and_abort c) = c_disk c"
  "c_sounds (take_and_abort c) = c_sounds c" "c_player (take_and_abort c) = c_player c"
  "c_trigger_delay (take_and_abort c) = c_trigger_delay c" "c_signals (take_and_abort c) = c_signals c"
  by (simp_all add: take_and_abort_def split: option.split)

lemma cancel_pending_fields [ctl_simps]:
  "c_trigger_task (cancel_pending aud c) = None"
  "c_tasks (cancel_pending aud c) = (case c_trigger_task c of Some h \<Rightarrow> abort_task h (c_tasks c) | None \<Rightarrow> c_tasks c)"
  "c_daemon (cancel_pending aud c) = c_daemon c" "c_disk (cancel_pending aud c) = c_disk c"
  "c_sounds (cancel_pending aud c) = c_sounds c"
  "c_player (cancel_pending aud c) = snd (ao_stop aud (c_player c))"
  "c_trigger_delay (cancel_pending aud c) = c_trigger_delay c"
  "c_signals (cancel_pending aud c) = c_signals c"
  by (simp_all add: cancel_pending_def stop_player_def take_and_abort_fields)

lemma on_daemon_fields:
  assumes "on_daemon f c = (t, c')"
  shows "c' = c\<lparr>c_daemon := c_daemon c', c_disk := c_disk c'\<rparr>"
    and "f (c_daemon c, c_disk c) = (t, c_daemon c', c_disk c')"
  using assms by (auto simp: on_daemon_def split: prod.splits)

lemma notify_fields [ctl_simps]:
  "c_trigger_task (notify ok t c) = c_trigger_task c" "c_tasks (notify ok t c) = c_tasks c"
  "c_daemon (notify ok t c) = c_daemon c" "c_disk (notify ok t c) = c_disk c"
  "c_sounds (notify ok t c) = c_sounds c" "c_player (notify ok t c) = c_player c"
  "c_trigger_delay (notify ok t c) = c_trigger_delay c"
  by (simp_all add: notify_def state_changed_def split: transition.split)

lemma notify_signals [ctl_simps]:
  "c_signals (notify ok t c) = c_signals c @
     (case t of Changed a b \<Rightarrow> if a \<noteq> b \<and> ok then [is_armed b] else [] | NoChange \<Rightarrow> [])"
  by (simp add: notify_def state_changed_def split: transition.split)

text \<open>The tasks after \<open>cancel_pending\<close>.\<close>

definition cancelled_tasks :: "('p, 'db, 'w) control \<Rightarrow> trigger list" where
  "cancelled_tasks c = (case c_trigger_task c of Some h \<Rightarrow> abort_task h (c_tasks c) | None \<Rightarrow> c_tasks c)"

lemma cancelled_tasks_length [simp]: "length (cancelled_tasks c) = length (c_tasks c)"
  by (simp add: cancelled_tasks_def split: option.split)

definition new_trigger :: "path \<Rightarrow> nat \<Rightarrow> trigger" where
  "new_trigger p t = \<lparr>tg_path = p, tg_deadline = t, tg_state = Sleeping\<rparr>"

lemma new_trigger_simps [simp]:
  "tg_path (new_trigger p t) = p" "tg_deadline (new_trigger p t) = t" "tg_state (new_trigger p t) = Sleeping"
  by (simp_all add: new_trigger_def)

text \<open>What a successful scheduling does, field by field.\<close>

lemma schedule_ok:
  assumes "resolve_path (ce_fs ce) (c_sounds c) sid = Inr p"
    and "schedule_trigger_with_delay api aud ce sid delay c = (r, c')"
  shows "r = Inr (if d_inner (c_daemon c) = state_armed (Some sid) (Some (fire_at (ce_clk ce) delay))
           then NoChange else Changed (st_status (d_inner (c_daemon c))) Armed)"
    and "d_inner (c_daemon c') = state_armed (Some sid) (Some (fire_at (ce_clk ce) delay))"
    and "arm_with_sound api (ce_cancelled ce) sid (Some (fire_at (ce_clk ce) delay)) (c_daemon c, c_disk c)
           = (projr r, c_daemon c', c_disk c')"
    and "c_trigger_task c' = Some (length (c_tasks c))"
    and "c_tasks c' = cancelled_tasks c @ [new_trigger p (ce_now ce + delay)]"
    and "c_player c' = snd (ao_stop aud (c_player c))"
    and "c_signals c' = c_signals c" "c_sounds c' = c_sounds c" "c_trigger_delay c' = c_trigger_delay c"
proof -
  let ?f = "arm_with_sound api (ce_cancelled ce) sid (Some (fire_at (ce_clk ce) delay))"
  obtain t c2 where od: "on_daemon ?f (cancel_pending aud c) = (t, c2)"
    by (cases "on_daemon ?f (cancel_pending aud c)")
  note f = on_daemon_fields[OF od]
  have tr: "?f (c_daemon c, c_disk c) = (t, c_daemon c2, c_disk c2)"
    using f(2) by (simp add: ctl_simps)
  have c': "r = Inr t" "c' = store_handle (length (c_tasks c2)) (snd (spawn_trigger p (ce_now ce + delay) c2))"
    using assms od by (auto simp: schedule_trigger_with_delay_def spawn_trigger_def Let_def)
  have fields: "c_tasks c2 = cancelled_tasks c" "c_player c2 = snd (ao_stop aud (c_player c))"
    "c_signals c2 = c_signals c" "c_sounds c2 = c_sounds c" "c_trigger_delay c2 = c_trigger_delay c"
    by (subst f(1), simp add: ctl_simps cancelled_tasks_def)+
  note spec = transition_to_spec[OF tr[unfolded arm_with_sound_def]]
  show "r = Inr (if d_inner (c_daemon c) = state_armed (Some sid) (Some (fire_at (ce_clk ce) delay))
           then NoChange else Changed (st_status (d_inner (c_daemon c))) Armed)"
    using spec c'(1) by simp
  show "d_inner (c_daemon c') = state_armed (Some sid) (Some (fire_at (ce_clk ce) delay))"
    using spec by (simp add: c'(2) store_handle_def spawn_trigger_def)
  show "?f (c_daemon c, c_disk c) = (projr r, c_daemon c', c_disk c')"
    using tr by (simp add: c' store_handle_def spawn_trigger_def)
  show "c_trigger_task c' = Some (length (c_tasks c))"
    "c_tasks c' = cancelled_tasks c @ [new_trigger p (ce_now ce + delay)]"
    "c_player c' = snd (ao_stop aud (c_player c))"
    "c_signals c' = c_signals c" "c_sounds c' = c_sounds c" "c_trigger_delay c' = c_trigger_delay c"
    by (simp_all add: c'(2) store_handle_def spawn_trigger_def fields new_trigger_def)
qed

lemma schedule_error:
  "resolve_path (ce_fs ce) (c_sounds c) sid = Inl e \<Longrightarrow>
    schedule_trigger_with_delay api aud ce sid delay c = (Inl (InvalidArgs (MsgAudio e)), c)"
  by (simp add: schedule_trigger_with_delay_def)

lemma disarm_ok:
  assumes "control_disarm api aud ce c = (r, c')"
  shows "r = Inr ()" and "d_inner (c_daemon c') = state_disarmed"
    and "c_trigger_task c' = None" and "c_tasks c' = cancelled_tasks c"
    and "c_player c' = snd (ao_stop aud (c_player c))"
    and "c_signals c' = c_signals c @
      (if is_armed (st_status (d_inner (c_daemon c))) \<and> ce_emit_ok ce then [False] else [])"
    and "c_sounds c' = c_sounds c" "c_trigger_delay c' = c_trigger_delay c"
    and "daemon_disarm api (ce_cancelled ce) (c_daemon c, c_disk c) =
      (if d_inner (c_daemon c) = state_disarmed then NoChange
       else Changed (st_status (d_inner (c_daemon c))) Disarmed, c_daemon c', c_disk c')"
proof -
  let ?f = "daemon_disarm api (ce_cancelled ce)"
  obtain t c2 where od: "on_daemon ?f (cancel_pending aud c) = (t, c2)"
    by (cases "on_daemon ?f (cancel_pending aud c)")
  note f = on_daemon_fields[OF od]
  have tr: "?f (c_daemon c, c_disk c) = (t, c_daemon c2, c_disk c2)"
    using f(2) by (simp add: ctl_simps)
  have c': "r = Inr ()" "c' = notify (ce_emit_ok ce) t c2"
    using assms od by (auto simp: control_disarm_def)
  have fields: "c_tasks c2 = cancelled_tasks c" "c_player c2 = snd (ao_stop aud (c_player c))"
    "c_signals c2 = c_signals c" "c_sounds c2 = c_sounds c" "c_trigger_delay c2 = c_trigger_delay c"
    "c_trigger_task c2 = None"
    by (subst f(1), simp add: ctl_simps cancelled_tasks_def)+
  have spec: "d_inner (c_daemon c2) = state_disarmed"
    "t = (if d_inner (c_daemon c) = state_disarmed then NoChange
       else Changed (st_status (d_inner (c_daemon c))) Disarmed)"
    using transition_to_spec[OF tr[unfolded daemon_disarm_def]] by simp_all
  show "r = Inr ()" by (fact c')
  show "d_inner (c_daemon c') = state_disarmed" "c_trigger_task c' = None"
    "c_tasks c' = cancelled_tasks c" "c_player c' = snd (ao_stop aud (c_player c))"
    "c_sounds c' = c_sounds c" "c_trigger_delay c' = c_trigger_delay c"
    using spec by (simp_all add: c'(2) ctl_simps fields)
  show "c_signals c' = c_signals c @
      (if is_armed (st_status (d_inner (c_daemon c))) \<and> ce_emit_ok ce then [False] else [])"
    by (cases "st_status (d_inner (c_daemon c))") (auto simp: c'(2) ctl_simps fields spec(2))
  show "?f (c_daemon c, c_disk c) =
      (if d_inner (c_daemon c) = state_disarmed then NoChange
       else Changed (st_status (d_inner (c_daemon c))) Disarmed, c_daemon c', c_disk c')"
    using tr spec by (simp add: c'(2) ctl_simps)
qed

lemma dismiss_is_disarm: "control_dismiss = control_disarm"
  by (intro ext) (simp add: control_dismiss_def control_disarm_def)

text \<open>A successful \<open>Arm\<close> adds the signal.\<close>

lemma arm_ok:
  assumes "resolve_path (ce_fs ce) (c_sounds c) sid = Inr p"
  shows "fst (control_arm api aud ce sid c) = Inr ()"
    and "d_inner (c_daemon (snd (control_arm api aud ce sid c))) =
      state_armed (Some sid) (Some (fire_at (ce_clk ce) (c_trigger_delay c)))"
    and "c_trigger_task (snd (control_arm api aud ce sid c)) = Some (length (c_tasks c))"
    and "c_tasks (snd (control_arm api aud ce sid c)) =
      cancelled_tasks c @ [new_trigger p (ce_now ce + c_trigger_delay c)]"
    and "c_player (snd (control_arm api aud ce sid c)) = snd (ao_stop aud (c_player c))"
    and "c_signals (snd (control_arm api aud ce sid c)) = c_signals c @
      (if \<not> is_armed (st_status (d_inner (c_daemon c))) \<and> ce_emit_ok ce then [True] else [])"
    and "\<exists>t. arm_with_sound api (ce_cancelled ce) sid (Some (fire_at (ce_clk ce) (c_trigger_delay c)))
        (c_daemon c, c_disk c) =
      (t, c_daemon (snd (control_arm api aud ce sid c)), c_disk (snd (control_arm api aud ce sid c)))"
    and "c_sounds (snd (control_arm api aud ce sid c)) = c_sounds c"
    and "c_trigger_delay (snd (control_arm api aud ce sid c)) = c_trigger_delay c"
proof -
  obtain r c' where sc: "schedule_trigger_with_delay api aud ce sid (c_trigger_delay c) c = (r, c')"
    by (cases "schedule_trigger_with_delay api aud ce sid (c_trigger_delay c) c")
  note ok = schedule_ok[OF assms sc]
  have arm: "control_arm api aud ce sid c = (Inr (), notify (ce_emit_ok ce) (projr r) c')"
    using sc ok(1) by (simp add: control_arm_def schedule_trigger_def)
  show "fst (control_arm api aud ce sid c) = Inr ()"
    "d_inner (c_daemon (snd (control_arm api aud ce sid c))) =
      state_armed (Some sid) (Some (fire_at (ce_clk ce) (c_trigger_delay c)))"
    "c_trigger_task (snd (control_arm api aud ce sid c)) = Some (length (c_tasks c))"
    "c_tasks (snd (control_arm api aud ce sid c)) =
      cancelled_tasks c @ [new_trigger p (ce_now ce + c_trigger_delay c)]"
    "c_player (snd (control_arm api aud ce sid c)) = snd (ao_stop aud (c_player c))"
    "c_sounds (snd (control_arm api aud ce sid c)) = c_sounds c"
    "c_trigger_delay (snd (control_arm api aud ce sid c)) = c_trigger_delay c"
    by (simp_all add: arm ctl_simps ok(2,4-9))
  show "c_signals (snd (control_arm api aud ce sid c)) = c_signals c @
      (if \<not> is_armed (st_status (d_inner (c_daemon c))) \<and> ce_emit_ok ce then [True] else [])"
    by (cases "st_status (d_inner (c_daemon c))") (auto simp: arm ctl_simps ok(1,7))
  show "\<exists>t. arm_with_sound api (ce_cancelled ce) sid (Some (fire_at (ce_clk ce) (c_trigger_delay c)))
        (c_daemon c, c_disk c) =
      (t, c_daemon (snd (control_arm api aud ce sid c)), c_disk (snd (control_arm api aud ce sid c)))"
    using ok(3) by (simp add: arm ctl_simps)
qed

lemma arm_error:
  "resolve_path (ce_fs ce) (c_sounds c) sid = Inl e \<Longrightarrow>
    control_arm api aud ce sid c = (Inl (InvalidArgs (MsgAudio e)), c)"
  by (simp add: control_arm_def schedule_trigger_def schedule_error)

lemma snooze_ok:
  assumes "n \<noteq> 0" "daemon_current_sound (c_daemon c) = Some sid"
  shows "control_snooze api aud ce n c =
    (case schedule_trigger_with_delay api aud ce sid (dur_from_secs (unat n)) c of
       (r, c') \<Rightarrow> (map_sum id (\<lambda>_. ()) r, c'))"
  using assms by (simp add: control_snooze_def split: prod.split sum.split)

section \<open>The object as a state machine\<close>

text \<open>One event is a method call that runs to completion, or a step of a spawned task.  (The theory
  \<open>Interleaving\<close> lets the calls overlap.)\<close>

datatype 'src ctl_event =
    EArm call_env string
  | EDisarm call_env
  | EDismiss call_env
  | ESnooze call_env u32
  | EWake nat nat
  | ERun nat "path \<Rightarrow> string + 'src"

fun ctl_step ::
  "('w, 'db, 'rtx, 'tab, 'wtx) redb_api \<Rightarrow> 'p audio_ops \<Rightarrow> ('src, 'fmt, 'dec, 'pkt) symphonia_api \<Rightarrow>
   'src ctl_event \<Rightarrow> ('p, 'db, 'w) control \<Rightarrow> ('p, 'db, 'w) control" where
  "ctl_step api aud sy (EArm ce sid) c = snd (control_arm api aud ce sid c)"
| "ctl_step api aud sy (EDisarm ce) c = snd (control_disarm api aud ce c)"
| "ctl_step api aud sy (EDismiss ce) c = snd (control_dismiss api aud ce c)"
| "ctl_step api aud sy (ESnooze ce n) c = snd (control_snooze api aud ce n c)"
| "ctl_step api aud sy (EWake now i) c = wake_trigger now i c"
| "ctl_step api aud sy (ERun i open_file) c = run_trigger sy open_file aud i c"

definition ctl_run ::
  "('w, 'db, 'rtx, 'tab, 'wtx) redb_api \<Rightarrow> 'p audio_ops \<Rightarrow> ('src, 'fmt, 'dec, 'pkt) symphonia_api \<Rightarrow>
   'src ctl_event list \<Rightarrow> ('p, 'db, 'w) control \<Rightarrow> ('p, 'db, 'w) control" where
  "ctl_run api aud sy evs c = fold (ctl_step api aud sy) evs c"

lemma ctl_run_simps [simp]:
  "ctl_run api aud sy [] c = c"
  "ctl_run api aud sy (e # es) c = ctl_run api aud sy es (ctl_step api aud sy e c)"
  "ctl_run api aud sy (xs @ ys) c = ctl_run api aud sy ys (ctl_run api aud sy xs c)"
  by (simp_all add: ctl_run_def)

inductive ctl_reach ::
  "('w, 'db, 'rtx, 'tab, 'wtx) redb_api \<Rightarrow> 'p audio_ops \<Rightarrow> ('src, 'fmt, 'dec, 'pkt) symphonia_api \<Rightarrow>
   ('p, 'db, 'w) control \<Rightarrow> bool"
  for api aud sy where
  reach_new: "ctl_reach api aud sy (control_new env d w lib player)"
| reach_step: "ctl_reach api aud sy c \<Longrightarrow> ctl_reach api aud sy (ctl_step api aud sy e c)"

lemma reach_run: "ctl_reach api aud sy c \<Longrightarrow> ctl_reach api aud sy (ctl_run api aud sy evs c)"
  by (induction evs arbitrary: c) (auto intro: reach_step)

text \<open>A task is live while it can still play.\<close>

definition sleeping :: "('p, 'db, 'w) control \<Rightarrow> nat \<Rightarrow> bool" where
  "sleeping c i \<longleftrightarrow> i < length (c_tasks c) \<and> tg_state (c_tasks c ! i) = Sleeping"

definition running :: "('p, 'db, 'w) control \<Rightarrow> nat \<Rightarrow> bool" where
  "running c i \<longleftrightarrow> i < length (c_tasks c) \<and> tg_state (c_tasks c ! i) = Running"

text \<open>The invariant: the slot holds a valid handle, only the task in the slot can be sleeping, and
  a filled slot goes with an armed alarm and a selected sound.\<close>

definition ctl_inv :: "('p, 'db, 'w) control \<Rightarrow> bool" where
  "ctl_inv c \<longleftrightarrow>
     (\<forall>i. sleeping c i \<longrightarrow> c_trigger_task c = Some i) \<and>
     (\<forall>h. c_trigger_task c = Some h \<longrightarrow>
        h < length (c_tasks c) \<and> (\<exists>sid t. d_inner (c_daemon c) = state_armed (Some sid) (Some t)))"

text \<open>Cancelling leaves no task asleep.\<close>

lemma cancelled_no_sleeping:
  assumes "\<And>i. sleeping c i \<Longrightarrow> c_trigger_task c = Some i" and "i < length (c_tasks c)"
  shows "tg_state (cancelled_tasks c ! i) \<noteq> Sleeping"
proof (cases "sleeping c i")
  case True
  with assms show ?thesis by (simp add: cancelled_tasks_def sleeping_def abort_task_nth)
next
  case False
  with assms(2) show ?thesis
    by (auto simp: cancelled_tasks_def sleeping_def abort_task_nth split: option.split)
qed

lemma ctl_inv_new: "ctl_inv (control_new env d w lib player)"
  by (simp add: ctl_inv_def control_new_def sleeping_def)

lemma ctl_inv_notify [simp]: "ctl_inv (notify ok t c) = ctl_inv c"
  by (simp add: ctl_inv_def sleeping_def ctl_simps)

lemma ctl_inv_schedule:
  assumes "ctl_inv c" "schedule_trigger_with_delay api aud ce sid delay c = (r, c')"
  shows "ctl_inv c'"
proof (cases "resolve_path (ce_fs ce) (c_sounds c) sid")
  case (Inl e)
  with assms show ?thesis by (simp add: schedule_error)
next
  case (Inr p)
  note ok = schedule_ok[OF Inr assms(2)]
  have "i = length (c_tasks c)" if "sleeping c' i" for i
  proof (rule ccontr)
    assume "i \<noteq> length (c_tasks c)"
    with that have "i < length (c_tasks c)" "tg_state (cancelled_tasks c ! i) = Sleeping"
      by (auto simp: sleeping_def ok(5) nth_append)
    with cancelled_no_sleeping[of c i] assms(1) show False by (simp add: ctl_inv_def)
  qed
  then have "\<forall>i. sleeping c' i \<longrightarrow> c_trigger_task c' = Some i" using ok(4) by simp
  then show ?thesis unfolding ctl_inv_def using ok(2,4) by (simp add: ok(5)) blast
qed

lemma ctl_inv_disarm:
  assumes "ctl_inv c" shows "ctl_inv (snd (control_disarm api aud ce c))"
proof -
  obtain r c' where dis: "control_disarm api aud ce c = (r, c')" by (cases "control_disarm api aud ce c")
  note ok = disarm_ok[OF dis]
  have "\<not> sleeping c' i" for i
    using assms cancelled_no_sleeping[of c i] unfolding ctl_inv_def sleeping_def[of c'] ok(4) by simp
  then show ?thesis by (simp add: dis ctl_inv_def ok(3))
qed

lemma wake_sleeping: "sleeping (wake_trigger now i c) j \<Longrightarrow> sleeping c j"
  by (auto simp: wake_trigger_def sleeping_def nth_list_update split: if_splits)

lemma run_sleeping: "sleeping (run_trigger sy f aud i c) j \<Longrightarrow> sleeping c j"
  by (auto simp: run_trigger_def sleeping_def nth_list_update split: if_splits option.splits)

lemma task_step_fields [ctl_simps]:
  "c_trigger_task (wake_trigger now i c) = c_trigger_task c" "c_daemon (wake_trigger now i c) = c_daemon c"
  "c_disk (wake_trigger now i c) = c_disk c" "c_signals (wake_trigger now i c) = c_signals c"
  "length (c_tasks (wake_trigger now i c)) = length (c_tasks c)"
  "c_player (wake_trigger now i c) = c_player c" "c_sounds (wake_trigger now i c) = c_sounds c"
  "c_trigger_delay (wake_trigger now i c) = c_trigger_delay c"
  "c_trigger_task (run_trigger sy f aud i c) = c_trigger_task c" "c_daemon (run_trigger sy f aud i c) = c_daemon c"
  "c_disk (run_trigger sy f aud i c) = c_disk c" "c_signals (run_trigger sy f aud i c) = c_signals c"
  "length (c_tasks (run_trigger sy f aud i c)) = length (c_tasks c)"
  "c_sounds (run_trigger sy f aud i c) = c_sounds c"
  "c_trigger_delay (run_trigger sy f aud i c) = c_trigger_delay c"
  by (simp_all add: wake_trigger_def run_trigger_def split: option.split)

lemma arm_via_schedule:
  "\<exists>r t. schedule_trigger_with_delay api aud ce sid (c_trigger_delay c) c = (r, t)
    \<and> control_arm api aud ce sid c =
      (case r of Inl e \<Rightarrow> (Inl e, t) | Inr tr \<Rightarrow> (Inr (), notify (ce_emit_ok ce) tr t))"
  by (auto simp: control_arm_def schedule_trigger_def split: prod.split sum.split)

lemma ctl_inv_step: "ctl_inv c \<Longrightarrow> ctl_inv (ctl_step api aud sy e c)"
proof (cases e)
  case (EArm ce sid)
  assume inv: "ctl_inv c"
  obtain r c' where sc: "schedule_trigger_with_delay api aud ce sid (c_trigger_delay c) c = (r, c')"
    "control_arm api aud ce sid c =
      (case r of Inl e \<Rightarrow> (Inl e, c') | Inr tr \<Rightarrow> (Inr (), notify (ce_emit_ok ce) tr c'))"
    using arm_via_schedule by blast
  with ctl_inv_schedule[OF inv sc(1)] EArm show ?thesis by (simp split: sum.split)
next
  case (ESnooze ce n)
  assume inv: "ctl_inv c"
  with ESnooze ctl_inv_schedule[OF inv] show ?thesis
    by (auto simp: control_snooze_def split: option.split prod.split sum.split)
next
  case (EWake now i)
  assume "ctl_inv c"
  with EWake show ?thesis by (auto simp: ctl_inv_def ctl_simps dest: wake_sleeping)
next
  case (ERun i f)
  assume "ctl_inv c"
  with ERun show ?thesis by (auto simp: ctl_inv_def ctl_simps dest: run_sleeping)
qed (simp_all add: ctl_inv_disarm dismiss_is_disarm)

lemma ctl_inv_reach: "ctl_reach api aud sy c \<Longrightarrow> ctl_inv c"
  by (induction rule: ctl_reach.induct) (simp_all add: ctl_inv_new ctl_inv_step)

section \<open>Task events\<close>

text \<open>The events that happen without a caller.\<close>

fun task_event :: "'src ctl_event \<Rightarrow> bool" where
  "task_event (EWake now i) \<longleftrightarrow> True"
| "task_event (ERun i f) \<longleftrightarrow> True"
| "task_event _ \<longleftrightarrow> False"

lemma task_event_fields:
  "task_event e \<Longrightarrow> c_daemon (ctl_step api aud sy e c) = c_daemon c
     \<and> c_disk (ctl_step api aud sy e c) = c_disk c
     \<and> c_signals (ctl_step api aud sy e c) = c_signals c"
  by (cases e) (simp_all add: ctl_simps)

lemma task_run_fields:
  "list_all task_event evs \<Longrightarrow> c_daemon (ctl_run api aud sy evs c) = c_daemon c
     \<and> c_disk (ctl_run api aud sy evs c) = c_disk c
     \<and> c_signals (ctl_run api aud sy evs c) = c_signals c"
  by (induction evs arbitrary: c) (simp_all add: task_event_fields)

text \<open>With no task asleep or running, the runtime has nothing left to do.\<close>

lemma quiescent_step:
  "task_event e \<Longrightarrow> \<forall>i. \<not> sleeping c i \<and> \<not> running c i \<Longrightarrow> ctl_step api aud sy e c = c"
  by (cases e) (auto simp: wake_trigger_def run_trigger_def sleeping_def running_def)

lemma quiescent_run:
  "list_all task_event evs \<Longrightarrow> \<forall>i. \<not> sleeping c i \<and> \<not> running c i \<Longrightarrow> ctl_run api aud sy evs c = c"
  by (induction evs) (simp_all add: quiescent_step)

lemma cancelled_running: "i < length (c_tasks c) \<Longrightarrow> tg_state (cancelled_tasks c ! i) = Running \<longleftrightarrow> running c i"
  by (simp add: cancelled_tasks_def running_def abort_task_nth split: option.split)

lemma disarm_quiet:
  assumes "ctl_inv c" "control_disarm api aud ce c = (r, c')"
  shows "\<not> sleeping c' i" and "running c' i \<longleftrightarrow> running c i"
proof -
  note ok = disarm_ok[OF assms(2)]
  have "\<And>i. sleeping c i \<Longrightarrow> c_trigger_task c = Some i" using assms(1) by (simp add: ctl_inv_def)
  from cancelled_no_sleeping[OF this, of i] show "\<not> sleeping c' i"
    unfolding sleeping_def[of c'] ok(4) by auto
  show "running c' i \<longleftrightarrow> running c i"
    using cancelled_running[of i c] unfolding running_def[of c'] ok(4) by (auto simp: running_def)
qed

text \<open>A sleeping task whose deadline has passed plays its file, once polled and completed.\<close>

lemma trigger_fires:
  assumes "sleeping c i" "tg_deadline (c_tasks c ! i) \<le> now"
    and "from_path_decode sy open_file (tg_path (c_tasks c ! i)) = Some (Inr s)"
  shows "c_player (run_trigger sy open_file aud i (wake_trigger now i c)) =
      snd (ao_play aud s full_volume (c_player c))"
proof -
  have "profile_new (FFin 1) Immediate False = Inr full_volume"
    by (simp add: profile_new_iff unit_range_def full_volume_def)
  with assms show ?thesis
    by (simp add: wake_trigger_def run_trigger_def sleeping_def trigger_body_def)
qed

section \<open>Properties\<close>

text \<open>A concrete object for the witnesses: in-memory database, recording player, demo sounds.\<close>

definition demo_env :: call_env where
  "demo_env = \<lparr>ce_fs = demo_fs, ce_clk = 7000000, ce_now = 100, ce_cancelled = False, ce_emit_ok = True\<rparr>"

definition demo_control :: "(fake_event list, path, mem_disk) control" where
  "demo_control =
     control_new (\<lambda>_. None) \<lparr>d_inner = state_disarmed, d_persistence = Some (from_path ''/s'')\<rparr>
       Map.empty demo_lib []"

text \<open>A decoder whose files hold one packet of one sample.\<close>

definition demo_sym :: "(unit, nat, unit, unit) symphonia_api" where
  "demo_sym =
     \<lparr>sy_probe = (\<lambda>_ _. Inr 0),
      sy_default_track = (\<lambda>_. Some \<lparr>tr_id = 0, tr_params = \<lparr>cp_sample_rate = Some 8000, cp_channels = Some 1\<rparr>\<rparr>),
      sy_make = (\<lambda>_. Inr ()),
      sy_next_packet = (\<lambda>n. if n = 0 then (Inr (), 1) else (Inl SymUnexpectedEof, n)),
      sy_track_id = (\<lambda>_. 0),
      sy_decode = (\<lambda>d _. (Inr [FFin 1], d))\<rparr>"

definition demo_sound :: decoded_sound where
  "demo_sound = \<lparr>ds_samples = [FFin 1], ds_channels = 1, ds_sample_rate = 8000\<rparr>"

lemma demo_decode: "from_path_decode demo_sym (\<lambda>_. Inr ()) p = Some (Inr demo_sound)"
  by (simp add: from_path_decode_def decode_def demo_sym_def channel_count_def packet_loop.simps
      bind_r_def finish_decode_def demo_sound_def)

lemma demo_resolve: "resolve_path demo_fs demo_lib ''builtin:horn'' = Inr ''/b/horn.wav''"
  by code_simp

lemma demo_control_fields [simp]:
  "ce_fs demo_env = demo_fs" "c_sounds demo_control = demo_lib" "c_tasks demo_control = []"
  "c_player demo_control = []" "d_inner (c_daemon demo_control) = state_disarmed"
  "c_signals demo_control = []" "c_trigger_task demo_control = None"
  "ce_emit_ok demo_env" "\<not> ce_cancelled demo_env" "ce_now demo_env = 100"
  by (simp_all add: demo_env_def demo_control_def control_new_def)

lemma demo_synced: "synced mem_view ''/s'' (c_daemon demo_control, c_disk demo_control)"
  by (simp add: synced_def attached_def demo_control_def control_new_def handle_ok_def from_path_def
      disk_state_def stored_def mem_view_def lookup_bytes_def)

lemma demo_arm: "resolve_path (ce_fs demo_env) (c_sounds demo_control) ''builtin:horn'' = Inr ''/b/horn.wav''"
  by (simp add: demo_resolve)

text \<open>C1: at most one trigger is pending.  In every reachable state of the control object, a task
  that still sleeps is the one whose handle is in the slot (so there is only one), and the alarm
  is armed.\<close>

theorem single_pending_trigger:
  assumes "ctl_reach api aud sy c" and "sleeping c i"
  shows "c_trigger_task c = Some i \<and> (\<forall>j. sleeping c j \<longrightarrow> j = i) \<and> control_status c"
proof -
  have slot: "\<And>j. sleeping c j \<Longrightarrow> c_trigger_task c = Some j"
    and armed: "\<And>h. c_trigger_task c = Some h \<Longrightarrow> control_status c"
    using ctl_inv_reach[OF assms(1)] by (auto simp: ctl_inv_def control_status_def daemon_status_def)
  show ?thesis using slot[OF assms(2)] slot armed by force
qed

theorem single_pending_trigger_witness:
  "let c = ctl_run mem_api fake_ops demo_sym [EArm demo_env ''builtin:horn''] demo_control
   in sleeping c 0 \<and> c_trigger_task c = Some 0 \<and> control_status c"
proof -
  let ?c = "ctl_run mem_api fake_ops demo_sym [EArm demo_env ''builtin:horn''] demo_control"
  have r: "ctl_reach mem_api fake_ops demo_sym ?c"
    by (rule reach_run) (simp add: demo_control_def reach_new)
  have "sleeping ?c 0" by (simp add: sleeping_def arm_ok(4)[OF demo_arm] cancelled_tasks_def)
  with single_pending_trigger[OF r this] show ?thesis by (simp add: Let_def)
qed



text \<open>C3: what \<open>Arm\<close> does on every branch.  An id that does not resolve is reported as
  \<open>InvalidArgs\<close> and the object is untouched.  Otherwise the call succeeds: the previous trigger is
  aborted, playback stopped, the state armed with the id and the computed fire time, exactly one
  new sleeping task with deadline now plus delay put in the slot, and \<open>StateChanged(true)\<close>
  emitted exactly when the alarm was not armed before.\<close>

theorem control_arm_exact:
  "case resolve_path (ce_fs ce) (c_sounds c) sid of
     Inl e \<Rightarrow> control_arm api aud ce sid c = (Inl (InvalidArgs (MsgAudio e)), c)
   | Inr p \<Rightarrow>
       (\<exists>c'. control_arm api aud ce sid c = (Inr (), c')
         \<and> d_inner (c_daemon c') = state_armed (Some sid) (Some (fire_at (ce_clk ce) (c_trigger_delay c)))
         \<and> c_tasks c' = cancelled_tasks c @ [new_trigger p (ce_now ce + c_trigger_delay c)]
         \<and> c_trigger_task c' = Some (length (c_tasks c))
         \<and> c_player c' = snd (ao_stop aud (c_player c))
         \<and> c_signals c' = c_signals c @ (if \<not> control_status c \<and> ce_emit_ok ce then [True] else []))"
proof (cases "resolve_path (ce_fs ce) (c_sounds c) sid")
  case (Inl e)
  then show ?thesis by (simp add: arm_error)
next
  case (Inr p)
  obtain r c' where arm: "control_arm api aud ce sid c = (r, c')"
    by (cases "control_arm api aud ce sid c")
  note ok = arm_ok[OF Inr, of api aud, unfolded arm fst_conv snd_conv]
  show ?thesis using Inr arm ok(1-6) by (simp add: control_status_def daemon_status_def)
qed

text \<open>What \<open>Snooze\<close> does on every branch.  A zero duration, no selected sound and a sound that
  no longer resolves are errors that change nothing.  Otherwise the same sound is re-armed with a
  fresh trigger after the given number of seconds, playback is stopped, and no signal is emitted.\<close>

lemma control_snooze_exact:
  "if n = 0 then control_snooze api aud ce n c = (Inl (InvalidArgs MsgDurationZero), c)
   else case daemon_current_sound (c_daemon c) of
     None \<Rightarrow> control_snooze api aud ce n c = (Inl (Failed MsgNoArmedSound), c)
   | Some sid \<Rightarrow>
       (case resolve_path (ce_fs ce) (c_sounds c) sid of
          Inl e \<Rightarrow> control_snooze api aud ce n c = (Inl (InvalidArgs (MsgAudio e)), c)
        | Inr p \<Rightarrow>
            (let delay = unat n * 1000000000 in
             \<exists>c'. control_snooze api aud ce n c = (Inr (), c')
               \<and> d_inner (c_daemon c') = state_armed (Some sid) (Some (fire_at (ce_clk ce) delay))
               \<and> c_tasks c' = cancelled_tasks c @ [new_trigger p (ce_now ce + delay)]
               \<and> c_trigger_task c' = Some (length (c_tasks c))
               \<and> c_player c' = snd (ao_stop aud (c_player c)) \<and> c_signals c' = c_signals c))"
proof (cases "n \<noteq> 0 \<and> daemon_current_sound (c_daemon c) \<noteq> None")
  case False
  then show ?thesis by (auto simp: control_snooze_def)
next
  case True
  then obtain sid where sid: "n \<noteq> 0" "daemon_current_sound (c_daemon c) = Some sid" by auto
  obtain r c' where sc: "schedule_trigger_with_delay api aud ce sid (dur_from_secs (unat n)) c = (r, c')"
    by (cases "schedule_trigger_with_delay api aud ce sid (dur_from_secs (unat n)) c")
  show ?thesis
  proof (cases "resolve_path (ce_fs ce) (c_sounds c) sid")
    case (Inl e)
    with sid show ?thesis by (simp add: snooze_ok schedule_error)
  next
    case (Inr p)
    note ok = schedule_ok[OF Inr sc]
    have "control_snooze api aud ce n c = (Inr (), c')"
      using sid sc ok(1) by (simp add: snooze_ok)
    with sid Inr ok show ?thesis by (simp add: dur_from_secs_def)
  qed
qed

text \<open>An armed alarm fires.  After a successful \<open>Arm\<close>, once the deadline has passed and the
  task is polled and completes with a file that decodes and a player that accepts the sound, that
  sound plays, at full volume, without ramp and without repetition.\<close>

lemma armed_alarm_fires:
  assumes "alarm_audio aud playing descr"
    and "resolve_path (ce_fs ce) (c_sounds c) sid = Inr p"
    and "control_arm api aud ce sid c = (r, c1)"
    and "ce_now ce + c_trigger_delay c \<le> now"
    and "from_path_decode sy open_file p = Some (Inr s)"
    and "\<And>v. \<exists>q. ao_play aud s v (c_player c1) = (Inr (), q)"
  shows "\<exists>h. c_trigger_task c1 = Some h \<and>
    playing (c_player (ctl_run api aud sy [EWake now h, ERun h open_file] c1))
      = Some (descr s \<lparr>vp_target = FFin 1, vp_ramp = Immediate, vp_repeat = False\<rparr>)"
proof -
  let ?h = "length (c_tasks c)"
  note ok = arm_ok[OF assms(2), of api aud, unfolded assms(3) fst_conv snd_conv]
  have task: "sleeping c1 ?h" "c_tasks c1 ! ?h = new_trigger p (ce_now ce + c_trigger_delay c)"
    by (simp_all add: ok(4) nth_append sleeping_def)
  obtain q where q: "ao_play aud s full_volume (c_player c1) = (Inr (), q)" using assms(6) by blast
  have "c_player (run_trigger sy open_file aud ?h (wake_trigger now ?h c1)) = q"
    using trigger_fires[OF task(1), of now sy open_file s aud] task(2) assms(4,5) q by simp
  with alarm_audio.play_ok[OF assms(1) q] ok(3) show ?thesis by (simp add: full_volume_def)
qed

lemma armed_alarm_fires_example:
  "let c1 = snd (control_arm mem_api fake_ops demo_env ''builtin:horn'' demo_control)
   in fake_playing (c_player (ctl_run mem_api fake_ops demo_sym
        [EWake 3000000100 0, ERun 0 (\<lambda>_. Inr ())] c1))
      = Some (FakePlay 1 1 8000 \<lparr>vp_target = FFin 1, vp_ramp = Immediate, vp_repeat = False\<rparr>)"
proof -
  obtain r c1 where arm: "control_arm mem_api fake_ops demo_env ''builtin:horn'' demo_control = (r, c1)"
    by (cases "control_arm mem_api fake_ops demo_env ''builtin:horn'' demo_control")
  have delay: "ce_now demo_env + c_trigger_delay demo_control \<le> 3000000100"
    by (simp add: demo_control_def control_new_def trigger_delay_from_env_def env_var_def
        DEFAULT_TRIGGER_DELAY_def dur_from_secs_def)
  have slot: "c_trigger_task c1 = Some 0"
    using arm_ok(3)[OF demo_arm, of mem_api fake_ops] arm by simp
  have play: "\<exists>q. ao_play fake_ops demo_sound v (c_player c1) = (Inr (), q)" for v
    by (simp add: fake_ops_def)
  from armed_alarm_fires[OF fake.alarm_audio_axioms demo_arm arm delay demo_decode play] slot arm
  show ?thesis by (simp add: fake_play_event_def demo_sound_def ds_frames_def)
qed

text \<open>Alternating signals that lead from one status to another.\<close>

fun sig_chain :: "bool \<Rightarrow> bool list \<Rightarrow> bool \<Rightarrow> bool" where
  "sig_chain a [] b \<longleftrightarrow> a = b"
| "sig_chain a (x # xs) b \<longleftrightarrow> x \<noteq> a \<and> sig_chain x xs b"

fun emits_ok :: "'src ctl_event \<Rightarrow> bool" where
  "emits_ok (EArm ce sid) \<longleftrightarrow> ce_emit_ok ce"
| "emits_ok (EDisarm ce) \<longleftrightarrow> ce_emit_ok ce"
| "emits_ok (EDismiss ce) \<longleftrightarrow> ce_emit_ok ce"
| "emits_ok _ \<longleftrightarrow> True"

definition sound_means_armed :: "('p, 'db, 'w) control \<Rightarrow> bool" where
  "sound_means_armed c \<longleftrightarrow> daemon_current_sound (c_daemon c) \<noteq> None \<longrightarrow> control_status c"

lemma sig_chain_append: "sig_chain a xs b \<Longrightarrow> sig_chain b ys d \<Longrightarrow> sig_chain a (xs @ ys) d"
  by (induction xs arbitrary: a) auto

lemma snooze_effect:
  "snd (control_snooze api aud ce n c) = c \<or>
   (\<exists>sid t. daemon_current_sound (c_daemon c) = Some sid
      \<and> d_inner (c_daemon (snd (control_snooze api aud ce n c))) = state_armed (Some sid) (Some t)
      \<and> c_signals (snd (control_snooze api aud ce n c)) = c_signals c)"
proof (cases "n \<noteq> 0 \<and> daemon_current_sound (c_daemon c) \<noteq> None")
  case False
  then show ?thesis by (auto simp: control_snooze_def)
next
  case True
  then obtain sid where sid: "n \<noteq> 0" "daemon_current_sound (c_daemon c) = Some sid" by auto
  obtain r c' where sc: "schedule_trigger_with_delay api aud ce sid (dur_from_secs (unat n)) c = (r, c')"
    by (cases "schedule_trigger_with_delay api aud ce sid (dur_from_secs (unat n)) c")
  show ?thesis
    using snooze_ok[OF sid, of api aud ce] sc sid schedule_ok(2,7)[OF _ sc]
    by (cases "resolve_path (ce_fs ce) (c_sounds c) sid") (auto simp: schedule_error)
qed

lemma ctl_step_signals:
  assumes "emits_ok e" "sound_means_armed c"
  shows "\<exists>new. c_signals (ctl_step api aud sy e c) = c_signals c @ new
    \<and> sig_chain (control_status c) new (control_status (ctl_step api aud sy e c))
    \<and> sound_means_armed (ctl_step api aud sy e c)"
proof -
  have disarm: ?thesis if "ctl_step api aud sy e c = snd (control_disarm api aud ce c)" "ce_emit_ok ce" for ce
  proof -
    obtain r c' where dis: "control_disarm api aud ce c = (r, c')" by (cases "control_disarm api aud ce c")
    from disarm_ok[OF dis] that dis show ?thesis
      by (auto simp: sound_means_armed_def control_status_def daemon_status_def daemon_current_sound_def)
  qed
  show ?thesis
  proof (cases e)
    case (EArm ce sid)
    show ?thesis
    proof (cases "resolve_path (ce_fs ce) (c_sounds c) sid")
      case (Inl er)
      with EArm assms show ?thesis by (simp add: arm_error)
    next
      case (Inr p)
      from arm_ok[OF Inr, of api aud] EArm assms(1) show ?thesis
        by (auto simp: sound_means_armed_def control_status_def daemon_status_def)
    qed
  next
    case (ESnooze ce n)
    then show ?thesis
      using snooze_effect[of api aud ce n c] assms(2)
      by (auto simp: sound_means_armed_def control_status_def daemon_status_def)
  next
    case (EDisarm ce)
    then show ?thesis using disarm[of ce] assms(1) by simp
  next
    case (EDismiss ce)
    then show ?thesis using disarm[of ce] assms(1) by (simp add: dismiss_is_disarm)
  qed (use assms in \<open>simp_all add: ctl_simps sound_means_armed_def control_status_def\<close>)
qed



lemma fire_at_sint:
  assumes "0 \<le> clk" and "clk div 1000000 \<le> i64_max"
  shows "sint (fire_at clk delay) = min i64_max (clk div 1000000 + int (delay div 1000000))"
proof -
  have v: "sint (case i64_try_from (dur_as_millis delay) of Some v \<Rightarrow> v | None \<Rightarrow> word_of_int i64_max)
      = min i64_max (int (delay div 1000000))"
  proof (cases "i64_try_from (dur_as_millis delay)")
    case None
    then show ?thesis
      using sint_word_of_int_i64[of i64_max]
      by (auto simp: i64_try_from_def dur_as_millis_def i64_max_def i64_min_def split: if_splits)
  next
    case (Some w)
    with i64_try_from_sint[OF Some] show ?thesis
      by (auto simp: i64_try_from_def dur_as_millis_def split: if_splits)
  qed
  have "0 \<le> clk div 1000000" using assms(1) by simp
  then show ?thesis
    unfolding fire_at_def sint_i64_saturating_add v sint_unix_now_ms[OF assms]
    by (simp add: i64_max_def i64_min_def)
qed

text \<open>The recorded fire time.  For a wall clock from the epoch on, it is the current time in
  milliseconds plus the delay in milliseconds, saturating at the largest \<open>i64\<close> instead of
  wrapping.\<close>

lemma fire_at_exact:
  assumes "0 \<le> clk" and "clk div 1000000 \<le> i64_max"
  shows "sint (fire_at clk delay) = min i64_max (clk div 1000000 + int (delay div 1000000))"
  using assms by (rule fire_at_sint)

lemma fire_at_exact_example:
  "sint (fire_at 1700000000123456789 3000000000) = 1700000003123"
  using fire_at_exact[of 1700000000123456789 3000000000] by (simp add: i64_max_def)

end
