(* ===== verification/Control_Types.thy ===== *)
theory Control_Types
  imports Control
begin

text \<open>
  The shape of the control object's state: what the status, the selected sound, the handle slot and
  the spawned tasks say of each other, kept by every method and task step.
\<close>

section \<open>Well-typed states\<close>

definition source_dir :: "sound_library \<Rightarrow> sound_source \<Rightarrow> path" where
  "source_dir lib s = (case s of Builtin \<Rightarrow> builtin_dir lib | Custom \<Rightarrow> custom_dir lib)"

text \<open>\<open>p\<close> is one of the two files that \<open>sid\<close> can stand for.\<close>

definition path_for :: "sound_library \<Rightarrow> string \<Rightarrow> path \<Rightarrow> bool" where
  "path_for lib sid p \<longleftrightarrow>
     (\<exists>src name. sid = sound_id src name \<and>
        (\<exists>ext \<in> {''wav'', ''flac''}. p = path_join (source_dir lib src) (name @ ''.'' @ ext)))"

text \<open>A disarmed state carries neither a sound nor a time.\<close>

definition state_typed :: "state \<Rightarrow> bool" where
  "state_typed st \<longleftrightarrow> (st_status st = Disarmed \<longrightarrow> st = state_disarmed)"

definition slot_typed :: "('p, 'db, 'w) control \<Rightarrow> bool" where
  "slot_typed c \<longleftrightarrow>
     (\<forall>h. c_trigger_task c = Some h \<longrightarrow> h < length (c_tasks c) \<and>
        (\<exists>sid t. d_inner (c_daemon c) = state_armed (Some sid) (Some t)
           \<and> path_for (c_sounds c) sid (tg_path (c_tasks c ! h))))"

definition ctl_typed :: "('p, 'db, 'w) control \<Rightarrow> bool" where
  "ctl_typed c \<longleftrightarrow>
     state_typed (d_inner (c_daemon c)) \<and> slot_typed c \<and>
     list_all (\<lambda>p. \<exists>sid. path_for (c_sounds c) sid p) (map tg_path (c_tasks c))"

section \<open>Preservation\<close>

lemma resolve_path_for: "resolve_path fs lib sid = Inr p \<Longrightarrow> path_for lib sid p"
proof -
  assume r: "resolve_path fs lib sid = Inr p"
  obtain src name where s: "sid = sound_id src name"
    "first_existing fs (source_dir lib src) name [''wav'', ''flac''] = Some p"
  proof (cases "strip_prefix ''builtin:'' sid")
    case (Some name)
    with r that[of Builtin name] show thesis
      by (simp add: resolve_path_def resolve_in_def strip_prefix_Some sound_id_def source_prefix_def source_dir_def)
  next
    case None
    then obtain name where "strip_prefix ''custom:'' sid = Some name"
      using r by (auto simp: resolve_path_def split: option.splits)
    with None r that[of Custom name] show thesis
      by (simp add: resolve_path_def resolve_in_def strip_prefix_Some sound_id_def source_prefix_def source_dir_def)
  qed
  with first_existing_Some[OF s(2)] show ?thesis
    unfolding path_for_def by (intro exI[of _ src] exI[of _ name]) simp
qed

lemma abort_paths [simp]: "map tg_path (abort_task h ts) = map tg_path ts"
  by (rule nth_equalityI) (simp_all add: abort_task_nth)

lemma cancelled_paths [simp]: "map tg_path (cancelled_tasks c) = map tg_path (c_tasks c)"
  by (simp add: cancelled_tasks_def split: option.split)

lemma update_paths: "tg_path t = tg_path (ts ! i) \<Longrightarrow> map tg_path (ts[i := t]) = map tg_path ts"
  by (metis list_update_id map_update)

lemma task_paths:
  "map tg_path (c_tasks (wake_trigger now i c)) = map tg_path (c_tasks c)"
  "map tg_path (c_tasks (run_trigger sy f aud i c)) = map tg_path (c_tasks c)"
  by (simp_all add: wake_trigger_def run_trigger_def update_paths split: option.split)

lemma state_typed_simps [simp]: "state_typed state_disarmed" "state_typed (state_armed s t)"
  by (simp_all add: state_typed_def state_armed_def)

lemma typed_schedule:
  assumes "ctl_typed c" "schedule_trigger_with_delay api aud ce sid delay c = (r, c')"
  shows "ctl_typed c'"
proof (cases "resolve_path (ce_fs ce) (c_sounds c) sid")
  case (Inl e)
  with assms show ?thesis by (simp add: schedule_error)
next
  case (Inr p)
  note ok = schedule_ok[OF Inr assms(2)] and pf = resolve_path_for[OF Inr]
  have "list_all (\<lambda>p. \<exists>sid. path_for (c_sounds c) sid p) (map tg_path (c_tasks c'))"
    using assms(1) pf unfolding ok(5) by (auto simp: ctl_typed_def)
  then show ?thesis
    using pf by (auto simp: ctl_typed_def slot_typed_def ok(2,4,5,8) nth_append)
qed

lemma typed_notify [simp]: "ctl_typed (notify ok t c) = ctl_typed c"
  by (simp add: ctl_typed_def slot_typed_def ctl_simps)

lemma typed_disarm: "ctl_typed c \<Longrightarrow> ctl_typed (snd (control_disarm api aud ce c))"
proof -
  assume c: "ctl_typed c"
  obtain r c' where dis: "control_disarm api aud ce c = (r, c')" by (cases "control_disarm api aud ce c")
  note ok = disarm_ok[OF dis]
  have "map tg_path (c_tasks c') = map tg_path (c_tasks c)" by (simp add: ok(4))
  with c show ?thesis
    unfolding dis snd_conv by (simp add: ctl_typed_def slot_typed_def ok(2,3,7))
qed

lemma typed_slot_task:
  assumes "map tg_path (c_tasks c') = map tg_path (c_tasks c)" "c_trigger_task c' = c_trigger_task c"
    "c_daemon c' = c_daemon c" "c_sounds c' = c_sounds c" "ctl_typed c"
  shows "ctl_typed c'"
proof -
  have l: "length (c_tasks c') = length (c_tasks c)" using assms(1) map_eq_imp_length_eq by blast
  moreover have "tg_path (c_tasks c' ! h) = tg_path (c_tasks c ! h)" if "h < length (c_tasks c)" for h
    using assms(1) that l by (metis nth_map)
  ultimately show ?thesis using assms(5) unfolding ctl_typed_def slot_typed_def assms(1-4) by auto
qed

lemma typed_step: "ctl_typed c \<Longrightarrow> ctl_typed (ctl_step api aud sy e c)"
proof (cases e)
  case (EArm ce sid)
  assume c: "ctl_typed c"
  obtain r c' where sc: "schedule_trigger_with_delay api aud ce sid (c_trigger_delay c) c = (r, c')"
    "control_arm api aud ce sid c =
      (case r of Inl e \<Rightarrow> (Inl e, c') | Inr tr \<Rightarrow> (Inr (), notify (ce_emit_ok ce) tr c'))"
    using arm_via_schedule by blast
  with typed_schedule[OF c sc(1)] EArm show ?thesis by (simp split: sum.split)
next
  case (ESnooze ce n)
  assume "ctl_typed c"
  with ESnooze typed_schedule show ?thesis
    by (auto simp: control_snooze_def split: option.split prod.split sum.split)
next
  case (EWake now i)
  assume "ctl_typed c"
  with EWake show ?thesis by (auto intro: typed_slot_task[where c = c] simp: task_paths ctl_simps)
next
  case (ERun i f)
  assume "ctl_typed c"
  with ERun show ?thesis by (auto intro: typed_slot_task[where c = c] simp: task_paths ctl_simps)
qed (simp_all add: typed_disarm dismiss_is_disarm)

lemma typed_run: "ctl_typed c \<Longrightarrow> ctl_typed (ctl_run api aud sy evs c)"
  by (induction evs arbitrary: c) (simp_all add: typed_step)

section \<open>Property\<close>

text \<open>C10: every reachable control object is well typed.  From a fresh object over any daemon state
  in which disarmed means no sound and no time, under any calls and task steps: that stays so; a
  filled slot holds the handle of a spawned task, which goes with an armed state whose sound id
  stands for exactly the file the task will play; and no task ever has another file than a WAV or
  FLAC path built from a namespaced id.\<close>

theorem control_well_typed:
  assumes "state_typed (d_inner d)"
    and "c = ctl_run api aud sy evs (control_new env d w lib player)"
  shows "(st_status (d_inner (c_daemon c)) = Disarmed \<longrightarrow> d_inner (c_daemon c) = state_disarmed)
    \<and> (\<forall>h. c_trigger_task c = Some h \<longrightarrow> h < length (c_tasks c) \<and>
        (\<exists>sid t. d_inner (c_daemon c) = state_armed (Some sid) (Some t)
           \<and> path_for (c_sounds c) sid (tg_path (c_tasks c ! h))))
    \<and> (\<forall>tg \<in> set (c_tasks c). \<exists>sid. path_for (c_sounds c) sid (tg_path tg))"
proof -
  have "ctl_typed (control_new env d w lib player)"
    using assms(1) by (simp add: ctl_typed_def slot_typed_def control_new_def)
  then have "ctl_typed c" unfolding assms(2) by (rule typed_run)
  then show ?thesis by (auto simp: ctl_typed_def slot_typed_def state_typed_def list_all_iff)
qed

theorem control_well_typed_witness:
  "let c = ctl_run mem_api fake_ops demo_sym [EArm demo_env ''builtin:horn''] demo_control in
   \<exists>sid t. d_inner (c_daemon c) = state_armed (Some sid) (Some t) \<and> path_for demo_lib sid ''/b/horn.wav''"
proof -
  let ?c0 = "demo_control" and ?c = "ctl_run mem_api fake_ops demo_sym [EArm demo_env ''builtin:horn''] demo_control"
  have st: "state_typed (d_inner \<lparr>d_inner = state_disarmed, d_persistence = Some (from_path ''/s'')\<rparr>)" by simp
  note ty = control_well_typed[OF st, of ?c mem_api fake_ops demo_sym "[EArm demo_env ''builtin:horn'']"
      "\<lambda>_. None" Map.empty demo_lib "[]", unfolded demo_control_def[symmetric], OF refl]
  from arm_ok(3,4,8)[OF demo_arm, of mem_api fake_ops] ty show ?thesis
    by (simp add: cancelled_tasks_def Let_def)
qed

end
