(* ===== verification/Interleaving.thy ===== *)
theory Interleaving
  imports Control
begin

text \<open>
  Overlapping method calls.  The D-Bus server runs every call as its own task on a multi-threaded
  runtime; the handlers of \<open>ipc/control.rs\<close> hold no lock across their suspension points, so the
  atomic actions of several calls and of the trigger tasks may interleave.  A call is the list of
  the actions its handler still has to perform, with the local variables of the handler; running
  a call alone is the handler of the theory \<open>Control\<close>.
\<close>

section \<open>Calls as programs of atomic actions\<close>

datatype action = ATakeAbort | AStop | ASwap | ASave | ASpawn path duration | AStore | AEmit

text \<open>\<open>cl_desired\<close> is the state the call asks for; \<open>cl_trans\<close>, \<open>cl_snapshot\<close> and \<open>cl_handle\<close> are
  the locals \<open>transition\<close>, \<open>snapshot\<close> and \<open>handle\<close>.\<close>

record call =
  cl_env :: call_env
  cl_desired :: state
  cl_prog :: "action list"
  cl_trans :: transition
  cl_snapshot :: "persisted_state option"
  cl_handle :: "nat option"

definition new_call :: "call_env \<Rightarrow> state \<Rightarrow> action list \<Rightarrow> call" where
  "new_call ce desired prog =
     \<lparr>cl_env = ce, cl_desired = desired, cl_prog = prog, cl_trans = NoChange, cl_snapshot = None,
      cl_handle = None\<rparr>"

definition exec_action ::
  "('w, 'db, 'rtx, 'tab, 'wtx) redb_api \<Rightarrow> 'p audio_ops \<Rightarrow> action \<Rightarrow>
   call \<times> ('p, 'db, 'w) control \<Rightarrow> call \<times> ('p, 'db, 'w) control" where
  "exec_action api aud a clc =
     (case clc of (cl, c) \<Rightarrow>
        (case a of
           ATakeAbort \<Rightarrow> (cl, take_and_abort c)
         | AStop \<Rightarrow> (cl, stop_player aud c)
         | ASwap \<Rightarrow>
             (case swap_state (cl_desired cl) (c_daemon c) of
                (None, d) \<Rightarrow> (cl\<lparr>cl_trans := NoChange, cl_snapshot := None\<rparr>, c\<lparr>c_daemon := d\<rparr>)
              | (Some (old, new, sn), d) \<Rightarrow>
                  (cl\<lparr>cl_trans := Changed old new, cl_snapshot := Some sn\<rparr>, c\<lparr>c_daemon := d\<rparr>))
         | ASave \<Rightarrow>
             (case cl_snapshot cl of
                None \<Rightarrow> (cl, c)
              | Some sn \<Rightarrow>
                  (case persist_snapshot api (ce_cancelled (cl_env cl)) sn (c_daemon c, c_disk c) of
                     (_, d, w) \<Rightarrow> (cl, c\<lparr>c_daemon := d, c_disk := w\<rparr>)))
         | ASpawn p delay \<Rightarrow>
             (case spawn_trigger p (ce_now (cl_env cl) + delay) c of
                (h, c') \<Rightarrow> (cl\<lparr>cl_handle := Some h\<rparr>, c'))
         | AStore \<Rightarrow>
             (cl, case cl_handle cl of Some h \<Rightarrow> store_handle h c | None \<Rightarrow> c)
         | AEmit \<Rightarrow> (cl, notify (ce_emit_ok (cl_env cl)) (cl_trans cl) c)))"

definition step_call ::
  "('w, 'db, 'rtx, 'tab, 'wtx) redb_api \<Rightarrow> 'p audio_ops \<Rightarrow>
   call \<times> ('p, 'db, 'w) control \<Rightarrow> call \<times> ('p, 'db, 'w) control" where
  "step_call api aud clc =
     (case cl_prog (fst clc) of
        [] \<Rightarrow> clc
      | a # rest \<Rightarrow> exec_action api aud a ((fst clc)\<lparr>cl_prog := rest\<rparr>, snd clc))"

section \<open>The programs of the handlers\<close>

definition schedule_call ::
  "call_env \<Rightarrow> sound_library \<Rightarrow> string \<Rightarrow> duration \<Rightarrow> action list \<Rightarrow> fdo_error + call" where
  "schedule_call ce lib sid delay tail =
     (case resolve_path (ce_fs ce) lib sid of
        Inl e \<Rightarrow> Inl (InvalidArgs (MsgAudio e))
      | Inr p \<Rightarrow>
          Inr (new_call ce (state_armed (Some sid) (Some (fire_at (ce_clk ce) delay)))
                 ([ATakeAbort, AStop, ASwap, ASave, ASpawn p delay, AStore] @ tail)))"

definition begin_arm :: "call_env \<Rightarrow> string \<Rightarrow> ('p, 'db, 'w) control \<Rightarrow> fdo_error + call" where
  "begin_arm ce sid c = schedule_call ce (c_sounds c) sid (c_trigger_delay c) [AEmit]"

definition begin_disarm :: "call_env \<Rightarrow> fdo_error + call" where
  "begin_disarm ce = Inr (new_call ce state_disarmed [ATakeAbort, AStop, ASwap, ASave, AEmit])"

text \<open>\<open>Snooze\<close> reads the selected sound once, when it starts.\<close>

definition begin_snooze :: "call_env \<Rightarrow> u32 \<Rightarrow> ('p, 'db, 'w) control \<Rightarrow> fdo_error + call" where
  "begin_snooze ce n c =
     (if n = 0 then Inl (InvalidArgs MsgDurationZero)
      else (case daemon_current_sound (c_daemon c) of
              None \<Rightarrow> Inl (Failed MsgNoArmedSound)
            | Some sid \<Rightarrow> schedule_call ce (c_sounds c) sid (dur_from_secs (unat n)) []))"

text \<open>Running a call to its end without interference.\<close>

definition run_alone ::
  "('w, 'db, 'rtx, 'tab, 'wtx) redb_api \<Rightarrow> 'p audio_ops \<Rightarrow> fdo_error + call \<Rightarrow>
   ('p, 'db, 'w) control \<Rightarrow> (fdo_error + unit) \<times> ('p, 'db, 'w) control" where
  "run_alone api aud b c =
     (case b of
        Inl e \<Rightarrow> (Inl e, c)
      | Inr cl \<Rightarrow> (Inr (), snd (fold (exec_action api aud) (cl_prog cl) (cl, c))))"

lemma run_alone_Inl [simp]: "run_alone api aud (Inl e) c = (Inl e, c)"
  by (simp add: run_alone_def)

lemma run_alone_disarm: "run_alone api aud (begin_disarm ce) c = control_disarm api aud ce c"
  by (auto simp: run_alone_def begin_disarm_def new_call_def exec_action_def control_disarm_def
      cancel_pending_def on_daemon_def daemon_disarm_def transition_to_def swap_state_def
      split: prod.split)

lemma run_alone_schedule:
  "run_alone api aud (schedule_call ce (c_sounds c) sid delay tail) c =
     (case schedule_trigger_with_delay api aud ce sid delay c of
        (Inl e, c') \<Rightarrow> (Inl e, c')
      | (Inr t, c') \<Rightarrow> (Inr (), if tail = [AEmit] then notify (ce_emit_ok ce) t c' else c'))"
  if "tail \<in> {[], [AEmit]}"
  using that
  by (auto simp: run_alone_def schedule_call_def schedule_trigger_with_delay_def new_call_def
      exec_action_def cancel_pending_def on_daemon_def arm_with_sound_def transition_to_def swap_state_def
      spawn_trigger_def Let_def split: prod.split sum.split)

section \<open>The system of overlapping calls\<close>

text \<open>Completed calls stay in the list, with an empty program.\<close>

record ('p, 'db, 'w) sys =
  s_ctl :: "('p, 'db, 'w) control"
  s_calls :: "call list"

datatype 'src sched =
    BeginArm call_env string
  | BeginDisarm call_env
  | BeginSnooze call_env u32
  | Step nat
  | Wake nat nat
  | Run nat "path \<Rightarrow> string + 'src"

definition start_call :: "fdo_error + call \<Rightarrow> ('p, 'db, 'w) sys \<Rightarrow> ('p, 'db, 'w) sys" where
  "start_call b s = (case b of Inl e \<Rightarrow> s | Inr cl \<Rightarrow> s\<lparr>s_calls := s_calls s @ [cl]\<rparr>)"

fun sys_step ::
  "('w, 'db, 'rtx, 'tab, 'wtx) redb_api \<Rightarrow> 'p audio_ops \<Rightarrow> ('src, 'fmt, 'dec, 'pkt) symphonia_api \<Rightarrow>
   'src sched \<Rightarrow> ('p, 'db, 'w) sys \<Rightarrow> ('p, 'db, 'w) sys" where
  "sys_step api aud sy (BeginArm ce sid) s = start_call (begin_arm ce sid (s_ctl s)) s"
| "sys_step api aud sy (BeginDisarm ce) s = start_call (begin_disarm ce) s"
| "sys_step api aud sy (BeginSnooze ce n) s = start_call (begin_snooze ce n (s_ctl s)) s"
| "sys_step api aud sy (Step i) s =
     (if i < length (s_calls s)
      then (case step_call api aud (s_calls s ! i, s_ctl s) of
              (cl, c) \<Rightarrow> \<lparr>s_ctl = c, s_calls = (s_calls s)[i := cl]\<rparr>)
      else s)"
| "sys_step api aud sy (Wake now i) s = s\<lparr>s_ctl := wake_trigger now i (s_ctl s)\<rparr>"
| "sys_step api aud sy (Run i f) s = s\<lparr>s_ctl := run_trigger sy f aud i (s_ctl s)\<rparr>"

definition sys_run ::
  "('w, 'db, 'rtx, 'tab, 'wtx) redb_api \<Rightarrow> 'p audio_ops \<Rightarrow> ('src, 'fmt, 'dec, 'pkt) symphonia_api \<Rightarrow>
   'src sched list \<Rightarrow> ('p, 'db, 'w) sys \<Rightarrow> ('p, 'db, 'w) sys" where
  "sys_run api aud sy xs s = fold (sys_step api aud sy) xs s"

lemma sys_run_simps [simp]:
  "sys_run api aud sy [] s = s"
  "sys_run api aud sy (x # xs) s = sys_run api aud sy xs (sys_step api aud sy x s)"
  "sys_run api aud sy (xs @ ys) s = sys_run api aud sy ys (sys_run api aud sy xs s)"
  by (simp_all add: sys_run_def)

definition sys_start :: "('p, 'db, 'w) control \<Rightarrow> ('p, 'db, 'w) sys" where
  "sys_start c = \<lparr>s_ctl = c, s_calls = []\<rparr>"

definition all_done :: "('p, 'db, 'w) sys \<Rightarrow> bool" where
  "all_done s \<longleftrightarrow> list_all (\<lambda>cl. cl_prog cl = []) (s_calls s)"

text \<open>The inductive view of the same system.\<close>

inductive sys_reach ::
  "('w, 'db, 'rtx, 'tab, 'wtx) redb_api \<Rightarrow> 'p audio_ops \<Rightarrow> ('src, 'fmt, 'dec, 'pkt) symphonia_api \<Rightarrow>
   ('p, 'db, 'w) control \<Rightarrow> ('p, 'db, 'w) sys \<Rightarrow> bool"
  for api aud sy c where
  sys_start: "sys_reach api aud sy c (sys_start c)"
| sys_next: "sys_reach api aud sy c s \<Longrightarrow> sys_reach api aud sy c (sys_step api aud sy x s)"

lemma sys_reach_run: "sys_reach api aud sy c s \<Longrightarrow> sys_reach api aud sy c (sys_run api aud sy xs s)"
  by (induction xs arbitrary: s) (auto intro: sys_next)

section \<open>What holds under every interleaving\<close>

text \<open>The states asked for so far, and the invariant: snapshots belong to the call that took them,
  the in-memory state is the initial one or one that was asked for.\<close>

definition requested :: "('p, 'db, 'w) sys \<Rightarrow> state set" where
  "requested s = cl_desired ` set (s_calls s)"

definition call_ok :: "call \<Rightarrow> bool" where
  "call_ok cl \<longleftrightarrow> (\<forall>sn. cl_snapshot cl = Some sn \<longrightarrow> sn = to_persisted (cl_desired cl))"

lemma exec_action_call:
  assumes "exec_action api aud a (cl, c) = (cl', c')" "call_ok cl"
  shows "call_ok cl' \<and> cl_desired cl' = cl_desired cl \<and> cl_env cl' = cl_env cl"
  using assms
  by (cases a) (auto simp: exec_action_def call_ok_def swap_state_def
      split: if_splits option.splits prod.splits)

lemma exec_action_inner:
  assumes "exec_action api aud a (cl, c) = (cl', c')"
  shows "d_inner (c_daemon c') \<in> {d_inner (c_daemon c), cl_desired cl}"
proof (cases a)
  case ASwap
  with assms show ?thesis
    by (auto simp: exec_action_def swap_state_def split: if_splits)
next
  case ASave
  with assms show ?thesis
    by (auto simp: exec_action_def split: option.splits prod.splits)
qed (use assms in \<open>auto simp: exec_action_def take_and_abort_fields stop_player_def spawn_trigger_def
    store_handle_def ctl_simps split: option.splits\<close>)

lemma step_call_call:
  assumes "step_call api aud (cl, c) = (cl', c')" "call_ok cl"
  shows "call_ok cl' \<and> cl_desired cl' = cl_desired cl"
  using assms exec_action_call[of api aud _ "cl\<lparr>cl_prog := _\<rparr>" c cl' c']
  by (auto simp: step_call_def call_ok_def split: list.splits)

lemma step_call_inner:
  assumes "step_call api aud (cl, c) = (cl', c')"
  shows "d_inner (c_daemon c') \<in> {d_inner (c_daemon c), cl_desired cl}"
  using assms exec_action_inner[of api aud _ "cl\<lparr>cl_prog := _\<rparr>" c cl' c']
  by (fastforce simp: step_call_def split: list.splits)

lemma new_call_ok: "begin_arm ce sid c = Inr cl \<Longrightarrow> call_ok cl"
  "begin_disarm ce = Inr cl \<Longrightarrow> call_ok cl" "begin_snooze ce n c = Inr cl \<Longrightarrow> call_ok cl"
  by (auto simp: begin_arm_def begin_disarm_def begin_snooze_def schedule_call_def new_call_def call_ok_def
      split: sum.splits if_splits option.splits)

definition sys_inv :: "state \<Rightarrow> ('p, 'db, 'w) sys \<Rightarrow> bool" where
  "sys_inv s0 s \<longleftrightarrow> list_all call_ok (s_calls s) \<and> d_inner (c_daemon (s_ctl s)) \<in> insert s0 (requested s)"

lemma sys_inv_start_call:
  assumes "sys_inv s0 s" "\<And>cl. b = Inr cl \<Longrightarrow> call_ok cl" shows "sys_inv s0 (start_call b s)"
  using assms by (auto simp: sys_inv_def start_call_def requested_def split: sum.split)

lemma desired_update:
  "i < length cls \<Longrightarrow> cl_desired cl = cl_desired (cls ! i) \<Longrightarrow>
    cl_desired ` set (cls[i := cl]) = cl_desired ` set cls"
  by (metis (no_types, lifting) list.set_map list_update_id map_update)

lemma sys_inv_step: "sys_inv s0 s \<Longrightarrow> sys_inv s0 (sys_step api aud sy x s)"
proof (cases x)
  case (Step i)
  assume inv: "sys_inv s0 s"
  show ?thesis
  proof (cases "i < length (s_calls s)")
    case True
    obtain cl c where st: "step_call api aud (s_calls s ! i, s_ctl s) = (cl, c)"
      by (cases "step_call api aud (s_calls s ! i, s_ctl s)")
    have "call_ok (s_calls s ! i)" using inv True by (simp add: sys_inv_def list_all_length)
    note cl = step_call_call[OF st this] and inner = step_call_inner[OF st]
    have "cl_desired (s_calls s ! i) \<in> requested s" using True by (simp add: requested_def)
    with inner inv have "d_inner (c_daemon c) \<in> insert s0 (requested s)" by (auto simp: sys_inv_def)
    moreover have "list_all call_ok ((s_calls s)[i := cl])"
      using inv cl by (auto simp: sys_inv_def list_all_iff dest: set_update_subset_insert[THEN subsetD])
    ultimately show ?thesis
      using Step True st cl desired_update[OF True, of cl] by (simp add: sys_inv_def requested_def)
  qed (use inv Step in simp)
qed (auto intro: sys_inv_start_call simp: new_call_ok, auto simp: sys_inv_def requested_def ctl_simps)

lemma sys_inv_reach: "sys_reach api aud sy c s \<Longrightarrow> sys_inv (d_inner (c_daemon c)) s"
  by (induction rule: sys_reach.induct)
    (simp_all add: sys_inv_step, simp add: sys_inv_def sys_start_def)

text \<open>The disk, with any commit failing or cancelled.\<close>

definition disk_inv ::
  "('w, 'db, 'rtx, 'tab, 'wtx) redb_view \<Rightarrow> path \<Rightarrow> bytes option \<Rightarrow> ('p, 'db, 'w) sys \<Rightarrow> bool" where
  "disk_inv view path v0 s \<longleftrightarrow>
     attached view path (c_daemon (s_ctl s)) \<and>
     stored view path (c_disk (s_ctl s)) \<in>
       insert v0 ((\<lambda>st. Some (encode_state (to_persisted st))) ` requested s)"

lemma attached_swap [simp]: "attached view path (d\<lparr>d_inner := st\<rparr>) = attached view path d"
  by (simp add: attached_def)

context redb_contract
begin

lemma persist_snapshot_disk:
  assumes "attached view path d" "persist_snapshot api cancelled sn (d, w) = (r, d', w')"
  shows "attached view path d' \<and> stored view path w' \<in> {stored view path w, Some (encode_state sn)}"
proof -
  obtain p where p: "d_persistence d = Some p" "handle_ok view p" "p_path p = path"
    using assms(1) by (auto simp: attached_def split: option.splits)
  obtain q p' w1 where sv: "save api p sn w = (q, p', w1)" by (cases "save api p sn w")
  show ?thesis
    using assms p sv store.save_atomic[OF p(2) sv] store.sv_keeps[OF p(2) sv]
    by (auto simp: persist_snapshot_def attached_def split: if_splits)
qed

lemma exec_action_disk:
  assumes "exec_action api aud a (cl, c) = (cl', c')" "call_ok cl" "attached view path (c_daemon c)"
  shows "attached view path (c_daemon c') \<and> stored view path (c_disk c') \<in>
    {stored view path (c_disk c), Some (encode_state (to_persisted (cl_desired cl)))}"
proof (cases a)
  case ASave
  show ?thesis
  proof (cases "cl_snapshot cl")
    case None
    with ASave assms show ?thesis by (simp add: exec_action_def)
  next
    case (Some sn)
    obtain r d w where ps: "persist_snapshot api (ce_cancelled (cl_env cl)) sn (c_daemon c, c_disk c) = (r, d, w)"
      by (cases "persist_snapshot api (ce_cancelled (cl_env cl)) sn (c_daemon c, c_disk c)")
    from persist_snapshot_disk[OF assms(3) ps] ps ASave Some assms(1,2) show ?thesis
      by (auto simp: exec_action_def call_ok_def)
  qed
qed (use assms in \<open>auto simp: exec_action_def take_and_abort_fields stop_player_def spawn_trigger_def
    store_handle_def ctl_simps swap_state_def split: option.splits if_splits\<close>)

lemma step_call_disk:
  assumes "step_call api aud (cl, c) = (cl', c')" "call_ok cl" "attached view path (c_daemon c)"
  shows "attached view path (c_daemon c') \<and> stored view path (c_disk c') \<in>
    {stored view path (c_disk c), Some (encode_state (to_persisted (cl_desired cl)))}"
proof (cases "cl_prog cl")
  case (Cons a rest)
  then show ?thesis
    using assms exec_action_disk[of aud a "cl\<lparr>cl_prog := rest\<rparr>" c cl' c' path]
    by (simp add: step_call_def call_ok_def)
qed (use assms in \<open>simp add: step_call_def\<close>)

lemma disk_inv_step:
  assumes "disk_inv view path v0 s" "list_all call_ok (s_calls s)"
  shows "disk_inv view path v0 (sys_step api aud sy x s)"
proof (cases x)
  case (Step i)
  show ?thesis
  proof (cases "i < length (s_calls s)")
    case True
    obtain cl c where st: "step_call api aud (s_calls s ! i, s_ctl s) = (cl, c)"
      by (cases "step_call api aud (s_calls s ! i, s_ctl s)")
    have ok: "call_ok (s_calls s ! i)" using assms(2) True by (simp add: list_all_length)
    have "cl_desired (s_calls s ! i) \<in> requested s" using True by (simp add: requested_def)
    with step_call_disk[OF st ok, of path] assms(1)
    have "attached view path (c_daemon c)"
      "stored view path (c_disk c) \<in> insert v0 ((\<lambda>st. Some (encode_state (to_persisted st))) ` requested s)"
      by (auto simp: disk_inv_def)
    then show ?thesis
      using Step True st step_call_call[OF st ok] desired_update[OF True, of cl]
      by (simp add: disk_inv_def requested_def)
  qed (use assms Step in simp)
qed (use assms in \<open>auto simp: disk_inv_def requested_def start_call_def ctl_simps split: sum.split\<close>)

lemma disk_inv_reach:
  assumes "sys_reach api aud sy c s" "attached view path (c_daemon c)"
  shows "disk_inv view path (stored view path (c_disk c)) s"
  using assms
proof (induction rule: sys_reach.induct)
  case sys_start
  then show ?case by (simp add: disk_inv_def sys_start_def)
next
  case (sys_next s x)
  then show ?case using sys_inv_reach[of api aud sy c s] by (simp add: disk_inv_step sys_inv_def)
qed

end

section \<open>Properties\<close>


text \<open>C13: no torn state under any interleaving.  Whatever calls overlap and whatever commits fail
  or are cancelled, the in-memory state is at every moment the initial one or one that some call
  asked for, and the database holds the initial payload or the encoding of such a state.\<close>

theorem interleaving_no_torn_state:
  assumes "redb_contract api view" and "attached view path (c_daemon c)"
    and "sys_reach api aud sy c s"
  shows "d_inner (c_daemon (s_ctl s)) \<in> insert (d_inner (c_daemon c)) (requested s)
    \<and> stored view path (c_disk (s_ctl s)) \<in> insert (stored view path (c_disk c))
        ((\<lambda>st. Some (encode_state (to_persisted st))) ` requested s)"
  using sys_inv_reach[OF assms(3)] redb_contract.disk_inv_reach[OF assms(1,3,2)]
  by (simp add: sys_inv_def disk_inv_def)

theorem interleaving_no_torn_state_witness:
  "let s = sys_run mem_api fake_ops demo_sym
        [BeginArm demo_env ''builtin:horn'', BeginDisarm demo_env, Step 0, Step 1, Step 0, Step 0, Step 0]
        (sys_start demo_control)
   in stored mem_view ''/s'' (c_disk (s_ctl s)) \<in> insert (stored mem_view ''/s'' Map.empty)
        ((\<lambda>st. Some (encode_state (to_persisted st))) ` requested s)"
proof -
  let ?s = "sys_run mem_api fake_ops demo_sym
        [BeginArm demo_env ''builtin:horn'', BeginDisarm demo_env, Step 0, Step 1, Step 0, Step 0, Step 0]
        (sys_start demo_control)"
  have att: "attached mem_view ''/s'' (c_daemon demo_control)"
    by (simp add: attached_def demo_control_def control_new_def handle_ok_def from_path_def)
  have r: "sys_reach mem_api fake_ops demo_sym demo_control ?s"
    by (rule sys_reach_run) (rule sys_start)
  have "c_disk demo_control = Map.empty" by (simp add: demo_control_def control_new_def)
  with interleaving_no_torn_state[OF mem.redb_contract_axioms att r] show ?thesis
    by (simp add: Let_def del: sys_run_simps)
qed

section \<open>Effects of single actions\<close>

definition exec_ctl ::
  "('w, 'db, 'rtx, 'tab, 'wtx) redb_api \<Rightarrow> 'p audio_ops \<Rightarrow> action \<Rightarrow> call \<Rightarrow>
   ('p, 'db, 'w) control \<Rightarrow> ('p, 'db, 'w) control" where
  "exec_ctl api aud a cl c = snd (exec_action api aud a (cl, c))"

lemma exec_ctl_fields:
  "c_tasks (exec_ctl api aud a cl c) =
     (case a of ATakeAbort \<Rightarrow> cancelled_tasks c
      | ASpawn p d \<Rightarrow> c_tasks c @ [new_trigger p (ce_now (cl_env cl) + d)] | _ \<Rightarrow> c_tasks c)"
  "c_trigger_task (exec_ctl api aud a cl c) =
     (case a of ATakeAbort \<Rightarrow> None
      | AStore \<Rightarrow> (case cl_handle cl of Some h \<Rightarrow> Some h | None \<Rightarrow> c_trigger_task c)
      | _ \<Rightarrow> c_trigger_task c)"
  "d_inner (c_daemon (exec_ctl api aud a cl c)) =
     (case a of ASwap \<Rightarrow> cl_desired cl | _ \<Rightarrow> d_inner (c_daemon c))"
  "c_signals (exec_ctl api aud a cl c) = c_signals c @
     (if a = AEmit then
        (case cl_trans cl of Changed x y \<Rightarrow> if x \<noteq> y \<and> ce_emit_ok (cl_env cl) then [is_armed y] else []
         | NoChange \<Rightarrow> []) else [])"
  "c_sounds (exec_ctl api aud a cl c) = c_sounds c"
  "c_trigger_delay (exec_ctl api aud a cl c) = c_trigger_delay c"
  by (auto simp: exec_ctl_def exec_action_def take_and_abort_fields cancelled_tasks_def stop_player_def
      spawn_trigger_def store_handle_def ctl_simps swap_state_def new_trigger_def
      split: action.split option.split prod.split)

context redb_reliable
begin

lemma persist_snapshot_stored:
  assumes "attached view path d" "persist_snapshot api False sn (d, w) = (r, d', w')"
  shows "stored view path w' = Some (encode_state sn)"
proof -
  obtain p where p: "d_persistence d = Some p" "handle_ok view p" "p_path p = path"
    using assms(1) by (auto simp: attached_def split: option.splits)
  obtain p' w1 where sv: "save api p sn w = (Inr (), p', w1)" using save_total[OF p(2)] by blast
  show ?thesis
    using assms p sv store.sv_ok[OF p(2) sv] store.sv_keeps[OF p(2) sv] by (auto simp: persist_snapshot_def)
qed

lemma exec_ctl_disk:
  assumes "attached view path (c_daemon c)"
  shows "attached view path (c_daemon (exec_ctl api aud a cl c))"
    and "\<not> ce_cancelled (cl_env cl) \<Longrightarrow> stored view path (c_disk (exec_ctl api aud a cl c)) =
      (case a of ASave \<Rightarrow> (case cl_snapshot cl of Some sn \<Rightarrow> Some (encode_state sn)
                            | None \<Rightarrow> stored view path (c_disk c))
       | _ \<Rightarrow> stored view path (c_disk c))"
  using assms
  by (auto simp: exec_ctl_def exec_action_def take_and_abort_fields stop_player_def
      spawn_trigger_def store_handle_def ctl_simps swap_state_def
      dest: persist_snapshot_disk persist_snapshot_stored
      split: action.split option.split prod.split)

end

lemma exec_call_fields:
  "fst (exec_action api aud a (cl, c)) =
     (case a of
        ASwap \<Rightarrow>
          (if d_inner (c_daemon c) = cl_desired cl then cl\<lparr>cl_trans := NoChange, cl_snapshot := None\<rparr>
           else cl\<lparr>cl_trans := Changed (st_status (d_inner (c_daemon c))) (st_status (cl_desired cl)),
                   cl_snapshot := Some (to_persisted (cl_desired cl))\<rparr>)
      | ASpawn p d \<Rightarrow> cl\<lparr>cl_handle := Some (length (c_tasks c))\<rparr>
      | _ \<Rightarrow> cl)"
  by (auto simp: exec_action_def swap_state_def spawn_trigger_def
      split: action.split option.split prod.split)

lemma step_call_Cons:
  "cl_prog cl = a # rest \<Longrightarrow> step_call api aud (cl, c) =
     (fst (exec_action api aud a (cl\<lparr>cl_prog := rest\<rparr>, c)), exec_ctl api aud a (cl\<lparr>cl_prog := rest\<rparr>) c)"
  by (simp add: step_call_def exec_ctl_def)

lemmas exec_simps = exec_ctl_fields exec_call_fields step_call_Cons new_call_def cancelled_tasks_def

text \<open>Two \<open>Arm\<close> calls that both pass \<open>cancel_pending\<close> before either stores its handle, and then a
  \<open>Disarm\<close> that runs alone.\<close>

definition orphan_schedule :: "call_env \<Rightarrow> string \<Rightarrow> call_env \<Rightarrow> string \<Rightarrow> call_env \<Rightarrow> 'src sched list" where
  "orphan_schedule ce1 sid1 ce2 sid2 ce3 =
     [BeginArm ce1 sid1, BeginArm ce2 sid2, Step 0, Step 1] @ replicate 6 (Step 0)
     @ replicate 6 (Step 1) @ BeginDisarm ce3 # replicate 5 (Step 2)"

lemma orphan_state:
  assumes "c_trigger_task c = None"
    and "resolve_path (ce_fs ce1) (c_sounds c) sid1 = Inr p1"
    and "resolve_path (ce_fs ce2) (c_sounds c) sid2 = Inr p2"
    and "s = sys_run api aud sy (orphan_schedule ce1 sid1 ce2 sid2 ce3) (sys_start c)"
  shows "all_done s" and "\<not> control_status (s_ctl s)" and "c_trigger_task (s_ctl s) = None"
    and "sleeping (s_ctl s) (length (c_tasks c))"
    and "c_tasks (s_ctl s) ! length (c_tasks c) = new_trigger p1 (ce_now ce1 + c_trigger_delay c)"
  using assms
  by (simp_all add: orphan_schedule_def sys_start_def start_call_def begin_arm_def begin_disarm_def
      schedule_call_def eval_nat_numeral exec_simps all_done_def control_status_def daemon_status_def
      sleeping_def abort_task_nth nth_append)

text \<open>C35: overlapping \<open>Arm\<close> calls can leave an orphaned trigger.  If two calls both pass
  \<open>cancel_pending\<close> before either stores its handle, the second store drops the handle of the
  first task without aborting it.  A later \<open>Disarm\<close> that runs alone and completes still leaves
  that task asleep: the alarm is disarmed, nothing is in the slot, and the trigger will go off.\<close>

theorem overlapping_arms_orphan_trigger:
  assumes "c_trigger_task c = None"
    and "resolve_path (ce_fs ce1) (c_sounds c) sid1 = Inr p1"
    and "resolve_path (ce_fs ce2) (c_sounds c) sid2 = Inr p2"
    and "from_path_decode sy open_file p1 = Some (Inr snd1)"
    and "ce_now ce1 + c_trigger_delay c \<le> now"
  shows "let s = sys_run api aud sy (orphan_schedule ce1 sid1 ce2 sid2 ce3) (sys_start c);
             h = length (c_tasks c);
             s' = sys_run api aud sy [Wake now h, Run h open_file] s
         in all_done s \<and> \<not> control_status (s_ctl s) \<and> c_trigger_task (s_ctl s) = None
            \<and> sleeping (s_ctl s) h \<and> \<not> control_status (s_ctl s')
            \<and> c_player (s_ctl s') = snd (ao_play aud snd1 full_volume (c_player (s_ctl s)))"
proof -
  let ?s = "sys_run api aud sy (orphan_schedule ce1 sid1 ce2 sid2 ce3) (sys_start c)"
  note os = orphan_state[OF assms(1-3) refl, of api aud sy ce3]
  from trigger_fires[OF os(4), of now sy open_file snd1 aud] os assms(4,5) show ?thesis
    by (simp add: Let_def control_status_def ctl_simps)
qed

theorem overlapping_arms_orphan_trigger_witness:
  "let s = sys_run mem_api fake_ops demo_sym
        (orphan_schedule demo_env ''builtin:horn'' demo_env ''builtin:horn'' demo_env) (sys_start demo_control);
       s' = sys_run mem_api fake_ops demo_sym [Wake 3000000100 0, Run 0 (\<lambda>_. Inr ())] s
   in \<not> control_status (s_ctl s') \<and> fake_playing (c_player (s_ctl s')) = Some (FakePlay 1 1 8000 full_volume)"
proof -
  have delay: "ce_now demo_env + c_trigger_delay demo_control \<le> 3000000100"
    by (simp add: demo_control_def control_new_def trigger_delay_from_env_def env_var_def
        DEFAULT_TRIGGER_DELAY_def dur_from_secs_def)
  have slot: "c_trigger_task demo_control = None" by simp
  from overlapping_arms_orphan_trigger[OF slot demo_arm demo_arm demo_decode delay,
      of mem_api fake_ops demo_env]
  show ?thesis
    by (simp add: Let_def fake_ops_def fake_push_def fake_playing_def fake_play_event_def demo_sound_def
        ds_frames_def del: sys_run_simps)
qed

text \<open>A \<open>Disarm\<close> that runs completely between the state swap of an \<open>Arm\<close> and its write.\<close>

definition overtake_schedule :: "call_env \<Rightarrow> string \<Rightarrow> call_env \<Rightarrow> 'src sched list" where
  "overtake_schedule ce1 sid ce2 =
     BeginArm ce1 sid # replicate 3 (Step 0) @ BeginDisarm ce2 # replicate 5 (Step 1) @ replicate 4 (Step 0)"

lemma overtake_state:
  assumes "c_trigger_task c = None" and "d_inner (c_daemon c) = state_disarmed"
    and "resolve_path (ce_fs ce1) (c_sounds c) sid = Inr p" and "ce_emit_ok ce1" "ce_emit_ok ce2"
    and "s = sys_run api aud sy (overtake_schedule ce1 sid ce2) (sys_start c)"
  shows "all_done s" and "d_inner (c_daemon (s_ctl s)) = state_disarmed"
    and "c_trigger_task (s_ctl s) = Some (length (c_tasks c))"
    and "sleeping (s_ctl s) (length (c_tasks c))"
    and "c_signals (s_ctl s) = c_signals c @ [False, True]"
  using assms
  by (simp_all add: overtake_schedule_def sys_start_def start_call_def begin_arm_def begin_disarm_def
      schedule_call_def eval_nat_numeral exec_simps all_done_def control_status_def daemon_status_def
      sleeping_def nth_append)

context redb_reliable
begin

lemma overtake_disk:
  assumes "attached view path (c_daemon c)" and "d_inner (c_daemon c) = state_disarmed"
    and "resolve_path (ce_fs ce1) (c_sounds c) sid = Inr p"
    and "\<not> ce_cancelled ce1" "\<not> ce_cancelled ce2"
    and "s = sys_run api aud sy (overtake_schedule ce1 sid ce2) (sys_start c)"
  shows "stored view path (c_disk (s_ctl s)) = Some (encode_state (to_persisted
      (state_armed (Some sid) (Some (fire_at (ce_clk ce1) (c_trigger_delay c))))))"
  using assms
  by (simp add: overtake_schedule_def sys_start_def start_call_def begin_arm_def begin_disarm_def
      schedule_call_def eval_nat_numeral exec_simps exec_ctl_disk)

end

text \<open>C36: a \<open>Disarm\<close> can be overtaken.  If a \<open>Disarm\<close> runs completely between the state swap of
  an \<open>Arm\<close> and its write, then after both calls have returned the alarm is disarmed in memory but
  armed on disk, a trigger task sleeps in the slot although the alarm is disarmed, and the last
  signal said armed.  No call fails and no write is lost.\<close>

theorem disarm_overtaken:
  assumes "redb_reliable api view" and "synced view path (c_daemon c, c_disk c)"
    and "d_inner (c_daemon c) = state_disarmed" and "c_trigger_task c = None"
    and "resolve_path (ce_fs ce1) (c_sounds c) sid = Inr p" and "rust_str sid" and "length sid \<le> 65535"
    and "\<not> ce_cancelled ce1 \<and> \<not> ce_cancelled ce2 \<and> ce_emit_ok ce1 \<and> ce_emit_ok ce2"
  shows "let s = sys_run api aud sy (overtake_schedule ce1 sid ce2) (sys_start c) in
    all_done s \<and> \<not> control_status (s_ctl s)
    \<and> disk_state (stored view path (c_disk (s_ctl s))) =
        Some (state_armed (Some sid) (Some (fire_at (ce_clk ce1) (c_trigger_delay c))))
    \<and> sleeping (s_ctl s) (length (c_tasks c)) \<and> last (c_signals (s_ctl s)) = True"
proof -
  let ?s = "sys_run api aud sy (overtake_schedule ce1 sid ce2) (sys_start c)"
  have emit: "ce_emit_ok ce1" "ce_emit_ok ce2" and run: "\<not> ce_cancelled ce1" "\<not> ce_cancelled ce2"
    using assms(8) by auto
  have att: "attached view path (c_daemon c)" using assms(2) by (simp add: synced_def)
  note st = overtake_state[OF assms(4,3,5) emit refl, of api aud sy]
  note dk = redb_reliable.overtake_disk[OF assms(1) att assms(3,5) run refl, of aud sy]
  show ?thesis
    unfolding Let_def dk using st assms(6,7)
    by (simp add: control_status_def daemon_status_def sound_storable_armed)
qed

theorem disarm_overtaken_witness:
  "let s = sys_run mem_api fake_ops demo_sym (overtake_schedule demo_env ''builtin:horn'' demo_env)
        (sys_start demo_control)
   in \<not> control_status (s_ctl s) \<and> last (c_signals (s_ctl s)) = True
      \<and> (\<exists>t. disk_state (stored mem_view ''/s'' (c_disk (s_ctl s))) = Some (state_armed (Some ''builtin:horn'') t))"
  using disarm_overtaken[OF mem.redb_reliable_axioms demo_synced _ _ demo_arm, of demo_env fake_ops demo_sym]
  by (auto simp: Let_def rust_str_def simp del: sys_run_simps)

text \<open>A \<open>Disarm\<close> that runs completely after a \<open>Snooze\<close> has read the selected sound.\<close>

definition resurrect_schedule :: "call_env \<Rightarrow> u32 \<Rightarrow> call_env \<Rightarrow> 'src sched list" where
  "resurrect_schedule ce1 n ce2 =
     BeginSnooze ce1 n # BeginDisarm ce2 # replicate 5 (Step 1) @ replicate 6 (Step 0)"

text \<open>C37: a \<open>Snooze\<close> that has read the selected sound re-arms the alarm even if a \<open>Disarm\<close> or
  \<open>Dismiss\<close> completes before it goes on: afterwards the alarm is armed again with a pending
  trigger, and since \<open>Snooze\<close> emits nothing, the last signal the clients saw said disarmed.\<close>

theorem snooze_resurrects_dismissed_alarm:
  assumes "d_inner (c_daemon c) = state_armed (Some sid) t" and "n \<noteq> 0"
    and "resolve_path (ce_fs ce1) (c_sounds c) sid = Inr p" and "ce_emit_ok ce2"
  shows "let s = sys_run api aud sy (resurrect_schedule ce1 n ce2) (sys_start c) in
    all_done s \<and> control_status (s_ctl s) \<and> sleeping (s_ctl s) (length (c_tasks c))
    \<and> c_signals (s_ctl s) = c_signals c @ [False]"
  using assms
  by (simp add: resurrect_schedule_def sys_start_def start_call_def begin_snooze_def begin_disarm_def
      daemon_current_sound_def schedule_call_def eval_nat_numeral exec_simps all_done_def
      control_status_def daemon_status_def sleeping_def nth_append split: option.split)

theorem snooze_resurrects_dismissed_alarm_witness:
  "let c = snd (control_arm mem_api fake_ops demo_env ''builtin:horn'' demo_control);
       s = sys_run mem_api fake_ops demo_sym (resurrect_schedule demo_env 5 demo_env) (sys_start c)
   in control_status (s_ctl s) \<and> c_signals (s_ctl s) = [True, False]"
proof -
  let ?c = "snd (control_arm mem_api fake_ops demo_env ''builtin:horn'' demo_control)"
  have r: "resolve_path (ce_fs demo_env) (c_sounds ?c) ''builtin:horn'' = Inr ''/b/horn.wav''"
    by (simp add: arm_ok(8)[OF demo_arm] demo_resolve)
  have "c_signals ?c = [True]" by (simp add: arm_ok(6)[OF demo_arm])
  with snooze_resurrects_dismissed_alarm[OF arm_ok(2)[OF demo_arm] _ r, of 5 demo_env mem_api fake_ops demo_sym]
  show ?thesis by (simp add: Let_def del: sys_run_simps)
qed

end
