(* ===== verification/Startup.thy ===== *)
theory Startup
  imports Control Worker
begin

text \<open>
  Process startup: configuration from the environment (\<open>config.rs\<close>), the choice of the log backend
  (\<open>logging.rs\<close>), the systemd notifications and the watchdog (\<open>systemd.rs\<close>), and the sequence of
  \<open>run\<close> in \<open>main.rs\<close>.  The outcomes of the calls into the operating system, zbus and sd-notify
  are the fields of the parameter \<open>boot\<close>; \<open>run\<close> returns the trace of its externally visible
  actions.
\<close>

section \<open>Configuration\<close>

datatype bus_kind = Session | System

datatype config_message =
    BadBus string
  | BadPersistence persistence_error
  | BadSounds audio_error
  | AudioInit audio_error

datatype alarm_error = AeDBus string | AeDBusName string | AeIo string | AeConfig config_message

definition bus_parse :: "string option \<Rightarrow> alarm_error + bus_kind" where
  "bus_parse raw =
     (case raw of
        None \<Rightarrow> Inr Session
      | Some s \<Rightarrow>
          if s = [] \<or> s = ''session'' then Inr Session
          else if s = ''system'' then Inr System
          else Inl (AeConfig (BadBus s)))"

definition bus_from_env :: "environment \<Rightarrow> alarm_error + bus_kind" where
  "bus_from_env env = bus_parse (env_var env ''ALARM_DAEMON_BUS'')"

definition bus_as_str :: "bus_kind \<Rightarrow> string" where
  "bus_as_str k = (case k of Session \<Rightarrow> ''session'' | System \<Rightarrow> ''system'')"

definition default_db_path_with_home :: "bus_kind \<Rightarrow> string \<Rightarrow> path" where
  "default_db_path_with_home k home =
     (case k of
        System \<Rightarrow> ''/var/lib/helm/alarm-daemon.redb''
      | Session \<Rightarrow> home @ ''/.local/state/helm/alarm-daemon.redb'')"

definition default_db_path :: "environment \<Rightarrow> bus_kind \<Rightarrow> path" where
  "default_db_path env k =
     default_db_path_with_home k (case env_var env ''HOME'' of Some h \<Rightarrow> h | None \<Rightarrow> ''.'')"

section \<open>Logging\<close>

datatype log_backend = Journald | Stderr

definition log_as_str :: "log_backend \<Rightarrow> string" where
  "log_as_str b = (case b of Journald \<Rightarrow> ''journald'' | Stderr \<Rightarrow> ''stderr'')"

definition running_under_systemd :: "environment \<Rightarrow> bool" where
  "running_under_systemd env \<longleftrightarrow> env_var_os env ''INVOCATION_ID'' \<noteq> None"

definition log_init :: "environment \<Rightarrow> string + unit \<Rightarrow> log_backend" where
  "log_init env journald =
     (if running_under_systemd env then (case journald of Inr _ \<Rightarrow> Journald | Inl _ \<Rightarrow> Stderr) else Stderr)"

section \<open>systemd\<close>

datatype notify_state = Ready | Stopping | Watchdog

datatype notify_log = SentDebug | FailedWarn | SkippedDebug

definition under_systemd_notify :: "environment \<Rightarrow> bool" where
  "under_systemd_notify env \<longleftrightarrow> env_var_os env ''NOTIFY_SOCKET'' \<noteq> None"

text \<open>The outcome of a notification only selects a log line.\<close>

definition notify_one :: "environment \<Rightarrow> string + unit \<Rightarrow> notify_log" where
  "notify_one env outcome =
     (case outcome of
        Inr _ \<Rightarrow> SentDebug
      | Inl _ \<Rightarrow> if under_systemd_notify env then FailedWarn else SkippedDebug)"

definition ping_period_for :: "duration \<Rightarrow> duration" where
  "ping_period_for watchdog_period = max (watchdog_period div 2) (dur_from_millis 1)"

definition u64_ms :: "duration \<Rightarrow> nat" where
  "u64_ms d = min (dur_as_millis d) (2 ^ 64 - 1)"

text \<open>The ticks of \<open>tokio::time::interval\<close> after the first one, which is consumed without a ping:
  the times of the first \<open>n\<close> pings of a loop started at \<open>start\<close>.\<close>

definition watchdog_loop :: "nat \<Rightarrow> duration \<Rightarrow> nat \<Rightarrow> nat list" where
  "watchdog_loop start ping_period n = map (\<lambda>k. start + Suc k * ping_period) [0..<n]"

definition spawn_watchdog :: "duration option \<Rightarrow> duration option" where
  "spawn_watchdog enabled = map_option ping_period_for enabled"

section \<open>\<open>run\<close>\<close>

text \<open>\<open>SoundLibrary::ensure_dirs\<close>.\<close>

definition ensure_dirs :: "(path \<Rightarrow> string + unit) \<Rightarrow> sound_library \<Rightarrow> audio_error + unit" where
  "ensure_dirs mkdir lib = map_err AudioIo (mkdir (custom_dir lib))"

definition BUS_NAME :: string where "BUS_NAME = ''org.helm.AlarmDaemon''"

definition OBJECT_PATH :: string where "OBJECT_PATH = ''/org/helm/AlarmDaemon''"

definition CONTROL_INTERFACE :: string where "CONTROL_INTERFACE = ''org.helm.AlarmDaemon.Control''"

record 'p boot =
  b_create_dir_all :: "path \<Rightarrow> string + unit"
  b_spawn_audio :: "string + 'p"
  b_builder :: "bus_kind \<Rightarrow> string + unit"
  b_name :: "string \<Rightarrow> string + unit"
  b_serve_at :: "string \<Rightarrow> string + unit"
  b_build :: "string + unit"
  b_watchdog_enabled :: "duration option"
  b_sigint :: "string + unit"
  b_sigterm :: "string + unit"
  b_signal :: string

datatype boot_event =
    EvLoaded path
  | EvMissedWhileDown path
  | EvSoundDirs path
  | EvAudioThread
  | EvNameOwned bus_kind
  | EvNotify notify_state
  | EvWatchdog duration
  | EvSignal string

text \<open>\<open>wait_for_shutdown\<close> installs both handlers before it waits.\<close>

definition wait_for_shutdown :: "'p boot \<Rightarrow> alarm_error + string" where
  "wait_for_shutdown b =
     bind_r (map_err AeIo (b_sigint b)) (\<lambda>_.
     bind_r (map_err AeIo (b_sigterm b)) (\<lambda>_. Inr (b_signal b)))"

definition connect :: "'p boot \<Rightarrow> bus_kind \<Rightarrow> alarm_error + unit" where
  "connect b k =
     bind_r (map_err AeDBus (b_builder b k)) (\<lambda>_.
     bind_r (map_err AeDBus (b_name b BUS_NAME)) (\<lambda>_.
     bind_r (map_err AeDBus (b_serve_at b OBJECT_PATH)) (\<lambda>_.
     map_err AeDBus (b_build b))))"

text \<open>What follows once the bus name is owned.\<close>

definition serve :: "'p boot \<Rightarrow> boot_event list \<times> (alarm_error + unit)" where
  "serve b =
     (let up = EvNotify Ready # (case spawn_watchdog (b_watchdog_enabled b) of None \<Rightarrow> [] | Some p \<Rightarrow> [EvWatchdog p])
      in case wait_for_shutdown b of
           Inl e \<Rightarrow> (up, Inl e)
         | Inr sig \<Rightarrow> (up @ [EvSignal sig, EvNotify Stopping], Inr ()))"

text \<open>The database path: the environment, else the default of the bus.\<close>

definition db_path :: "environment \<Rightarrow> bus_kind \<Rightarrow> path" where
  "db_path env k =
     (case env_var env ''ALARM_DAEMON_DB_PATH'' of Some p \<Rightarrow> p | None \<Rightarrow> default_db_path env k)"

text \<open>The result: the trace, the outcome, and the control object that was served, if any.\<close>

definition run ::
  "('w, 'db, 'rtx, 'tab, 'wtx) redb_api \<Rightarrow> 'p boot \<Rightarrow> environment \<Rightarrow> int \<Rightarrow> 'w \<Rightarrow>
   boot_event list \<times> (alarm_error + unit) \<times> ('p, 'db, 'w) control option" where
  "run api b env clk w =
     (case bus_from_env env of
        Inl e \<Rightarrow> ([], Inl e, None)
      | Inr k \<Rightarrow>
          (let path = db_path env k in
           case new_persistent api clk (from_path path) w of
             (Inl e, w') \<Rightarrow> ([], Inl (AeConfig (BadPersistence e)), None)
           | (Inr (d, recovery), w') \<Rightarrow>
               (let t1 = EvLoaded path # (if missed_while_down recovery then [EvMissedWhileDown path] else []);
                    lib = library_from_env env
                in case ensure_dirs (b_create_dir_all b) lib of
                     Inl e \<Rightarrow> (t1, Inl (AeConfig (BadSounds e)), None)
                   | Inr _ \<Rightarrow>
                       (let t2 = t1 @ [EvSoundDirs (custom_dir lib)] in
                        case b_spawn_audio b of
                          Inl e \<Rightarrow> (t2, Inl (AeConfig (AudioInit (AudioIo e))), None)
                        | Inr player \<Rightarrow>
                            (let t3 = t2 @ [EvAudioThread]; c = control_new env d w' lib player in
                             case connect b k of
                               Inl e \<Rightarrow> (t3, Inl e, None)
                             | Inr _ \<Rightarrow>
                                 (case serve b of
                                    (t4, r) \<Rightarrow> (t3 @ [EvNameOwned k] @ t4, r, Some c)))))))"

datatype exit_code = ExitSuccess | ExitFailure

definition main ::
  "('w, 'db, 'rtx, 'tab, 'wtx) redb_api \<Rightarrow> 'p boot \<Rightarrow> environment \<Rightarrow> int \<Rightarrow> 'w \<Rightarrow> exit_code" where
  "main api b env clk w =
     (case run api b env clk w of (_, Inr _, _) \<Rightarrow> ExitSuccess | (_, Inl _, _) \<Rightarrow> ExitFailure)"

section \<open>Lemmas\<close>

lemma serve_trace:
  "\<exists>post. fst (serve b) = EvNotify Ready # post \<and> EvNotify Ready \<notin> set post
    \<and> (case snd (serve b) of Inr _ \<Rightarrow> last post = EvNotify Stopping \<and> post \<noteq> []
       | Inl _ \<Rightarrow> EvNotify Stopping \<notin> set post)"
  by (auto simp: serve_def Let_def split: sum.split option.split)

text \<open>The trace of a start that reaches the bus.\<close>

lemma run_served:
  assumes "run api b env clk w = (tr, r, Some c)"
  shows "\<exists>k d rec w'. bus_from_env env = Inr k
    \<and> new_persistent api clk (from_path (db_path env k)) w = (Inr (d, rec), w')
    \<and> b_create_dir_all b (custom_dir (library_from_env env)) = Inr ()
    \<and> (\<exists>player. b_spawn_audio b = Inr player \<and> c = control_new env d w' (library_from_env env) player)
    \<and> connect b k = Inr ()
    \<and> tr = EvLoaded (db_path env k) #
        (if missed_while_down rec then [EvMissedWhileDown (db_path env k)] else []) @
        [EvSoundDirs (custom_dir (library_from_env env)), EvAudioThread, EvNameOwned k] @ fst (serve b)
    \<and> r = snd (serve b)"
proof -
  obtain k where k: "bus_from_env env = Inr k" using assms by (auto simp: run_def split: sum.splits)
  obtain d rec w' where np: "new_persistent api clk (from_path (db_path env k)) w = (Inr (d, rec), w')"
    using assms k by (auto simp: run_def Let_def split: sum.splits prod.splits)
  have "b_create_dir_all b (custom_dir (library_from_env env)) = Inr ()"
    using assms k np by (auto simp: run_def Let_def ensure_dirs_def map_err_def split: sum.splits)
  moreover from this obtain player where "b_spawn_audio b = Inr player"
    using assms k np by (auto simp: run_def Let_def ensure_dirs_def map_err_def split: sum.splits)
  ultimately show ?thesis
    using assms k np
    by (auto simp: run_def Let_def ensure_dirs_def map_err_def split: sum.splits prod.splits if_splits)
qed

lemma run_not_served:
  assumes "run api b env clk w = (tr, r, None)"
  shows "(\<exists>e. r = Inl e) \<and> (\<forall>s. EvNotify s \<notin> set tr)"
proof -
  have "\<exists>e. r = Inl e"
    using assms by (auto simp: run_def Let_def split: sum.splits prod.splits) (metis)+
  moreover have "EvNotify s \<notin> set tr" for s
    using assms by (auto simp: run_def Let_def split: sum.splits prod.splits if_splits)
  ultimately show ?thesis by blast
qed

section \<open>Properties\<close>

text \<open>C22: readiness is reported at the right moment.  If \<open>READY=1\<close> is sent, the database has been
  loaded, the sound directory created, the audio thread started and the bus name acquired before,
  in this order; it is sent once; a control object is served; \<open>STOPPING=1\<close> ends the trace exactly
  when the exit code is success.\<close>

theorem ready_after_startup:
  assumes "run api b env clk w = (tr, r, served)" and "EvNotify Ready \<in> set tr"
  shows "\<exists>k missed post. bus_from_env env = Inr k \<and> served \<noteq> None
    \<and> tr = [EvLoaded (db_path env k)] @ missed
        @ [EvSoundDirs (custom_dir (library_from_env env)), EvAudioThread, EvNameOwned k, EvNotify Ready] @ post
    \<and> set missed \<subseteq> {EvMissedWhileDown (db_path env k)} \<and> EvNotify Ready \<notin> set post
    \<and> (main api b env clk w = ExitSuccess \<longleftrightarrow> last tr = EvNotify Stopping)"
proof -
  obtain c where c: "served = Some c"
    using run_not_served[of api b env clk w tr r] assms by (cases served) auto
  obtain k and rec :: startup_recovery where s: "bus_from_env env = Inr k"
    "tr = EvLoaded (db_path env k) # (if missed_while_down rec then [EvMissedWhileDown (db_path env k)] else [])
      @ [EvSoundDirs (custom_dir (library_from_env env)), EvAudioThread, EvNameOwned k] @ fst (serve b)"
    "r = snd (serve b)"
    using run_served[OF assms(1)[unfolded c]] by blast
  obtain post where post: "fst (serve b) = EvNotify Ready # post" "EvNotify Ready \<notin> set post"
    "case snd (serve b) of Inr _ \<Rightarrow> last post = EvNotify Stopping \<and> post \<noteq> [] | Inl _ \<Rightarrow> EvNotify Stopping \<notin> set post"
    using serve_trace by blast
  have "main api b env clk w = ExitSuccess \<longleftrightarrow> last tr = EvNotify Stopping"
  proof -
    have l: "last tr = (if post = [] then EvNotify Ready else last post)"
      by (simp add: s(2) post(1))
    show ?thesis
      using post(3) l assms(1) s(3)[symmetric] by (cases r) (auto simp: main_def, metis last_in_set)
  qed
  then show ?thesis
    using s(1,2) post(1,2) c
    by (intro exI[of _ k] exI[of _ "if missed_while_down rec then [EvMissedWhileDown (db_path env k)] else []"]
        exI[of _ post]) auto
qed

text \<open>A start where every call succeeds, for the witnesses.\<close>

definition demo_boot :: "fake_event list boot" where
  "demo_boot =
     \<lparr>b_create_dir_all = (\<lambda>_. Inr ()), b_spawn_audio = Inr [], b_builder = (\<lambda>_. Inr ()),
      b_name = (\<lambda>_. Inr ()), b_serve_at = (\<lambda>_. Inr ()), b_build = Inr (),
      b_watchdog_enabled = Some 10000000000, b_sigint = Inr (), b_sigterm = Inr (), b_signal = ''SIGTERM''\<rparr>"

lemma empty_disk_state: "disk_state (stored mem_view path Map.empty) = Some state_disarmed"
  by (simp add: disk_state_def stored_def mem_view_def lookup_bytes_def)

lemma run_succeeds:
  assumes "redb_reliable api view" and "bus_from_env env = Inr k"
    and "disk_state (stored view (db_path env k) w) = Some st"
    and "b_create_dir_all b (custom_dir (library_from_env env)) = Inr ()"
    and "b_spawn_audio b = Inr player" and "connect b k = Inr ()"
  shows "\<exists>tr r c. run api b env clk w = (tr, r, Some c) \<and> d_inner (c_daemon c) = st \<and> c_player c = player
    \<and> EvNotify Ready \<in> set tr
    \<and> (EvMissedWhileDown (db_path env k) \<in> set tr \<longleftrightarrow>
         missed_while_down (evaluate_recovery clk (to_persisted st)))"
proof -
  obtain d rec w' where np: "new_persistent api clk (from_path (db_path env k)) w = (Inr (d, rec), w')"
    and d: "d_inner d = st"
    using redb_reliable.restart_synced[OF assms(1,3)] by blast
  have rec: "rec = evaluate_recovery clk (to_persisted st)" using new_persistent_recovery[OF np] d by simp
  have "EvNotify Ready \<in> set (fst (serve b))" "\<And>p. EvMissedWhileDown p \<notin> set (fst (serve b))"
    by (auto simp: serve_def Let_def split: sum.split option.split)
  then show ?thesis
    using assms(2,4-6) np d rec
    by (auto simp: run_def Let_def ensure_dirs_def map_err_def control_new_def split: prod.split)
qed

lemma demo_boot_succeeds:
  "\<exists>tr r c. run mem_api demo_boot (\<lambda>_. None) 0 Map.empty = (tr, r, Some c) \<and> EvNotify Ready \<in> set tr"
proof -
  have "bus_from_env (\<lambda>_. None) = Inr Session" by (simp add: bus_from_env_def env_var_def bus_parse_def)
  moreover have "connect demo_boot Session = Inr ()"
    by (simp add: connect_def demo_boot_def bind_r_def map_err_def)
  ultimately show ?thesis
    using run_succeeds[OF mem.redb_reliable_axioms _ empty_disk_state, of "\<lambda>_. None" Session demo_boot "[]" 0]
    by (auto simp: demo_boot_def)
qed

theorem ready_after_startup_witness:
  "\<exists>tr r served. run mem_api demo_boot (\<lambda>_. None) 0 Map.empty = (tr, r, served) \<and> served \<noteq> None
    \<and> EvAudioThread \<in> set tr"
proof -
  obtain tr r c where run: "run mem_api demo_boot (\<lambda>_. None) 0 Map.empty = (tr, r, Some c)"
    "EvNotify Ready \<in> set tr"
    using demo_boot_succeeds by blast
  from ready_after_startup[OF this] run(1) show ?thesis by auto
qed

text \<open>C29: startup serves what is on disk.  On a disk that answers, with a valid bus setting, a
  sound directory that can be created, an audio thread that starts and a bus that grants the
  name, the daemon comes up, serves exactly the stored state, and logs \<open>MissedWhileDown\<close> exactly
  when that state is armed with a fire time that is not in the future.\<close>

theorem startup_serves_stored_state:
  assumes "redb_reliable api view" and "bus_from_env env = Inr k"
    and "disk_state (stored view (db_path env k) w) = Some st"
    and "b_create_dir_all b (custom_dir (library_from_env env)) = Inr ()"
    and "b_spawn_audio b = Inr player" and "connect b k = Inr ()"
  shows "\<exists>tr r c. run api b env clk w = (tr, r, Some c) \<and> d_inner (c_daemon c) = st
    \<and> EvNotify Ready \<in> set tr
    \<and> (EvMissedWhileDown (db_path env k) \<in> set tr \<longleftrightarrow>
         st_status st = Armed \<and> (\<exists>t. st_next_fire_unix_ms st = Some t \<and> i64_le t (unix_now_ms clk)))"
proof -
  have "missed_while_down (evaluate_recovery clk (to_persisted st)) \<longleftrightarrow>
      st_status st = Armed \<and> (\<exists>t. st_next_fire_unix_ms st = Some t \<and> i64_le t (unix_now_ms clk))"
    by (cases "st_status st") (auto simp: evaluate_recovery_def to_persisted_def split: option.split)
  then show ?thesis using run_succeeds[OF assms, of clk] by auto
qed

theorem startup_serves_stored_state_witness:
  "\<exists>tr r c. run mem_api demo_boot (\<lambda>_. None) 0 Map.empty = (tr, r, Some c)
    \<and> d_inner (c_daemon c) = state_disarmed \<and> EvNotify Ready \<in> set tr"
proof -
  have "bus_from_env (\<lambda>_. None) = Inr Session" by (simp add: bus_from_env_def env_var_def bus_parse_def)
  moreover have "connect demo_boot Session = Inr ()"
    by (simp add: connect_def demo_boot_def bind_r_def map_err_def)
  ultimately show ?thesis
    using startup_serves_stored_state[OF mem.redb_reliable_axioms _ empty_disk_state,
        of "\<lambda>_. None" Session demo_boot "[]" 0]
    by (auto simp: demo_boot_def)
qed

text \<open>The watchdog is fed in time.  The ping period is never zero; for a watchdog timeout of at
  least two milliseconds it is at most half of it, so from readiness on every two consecutive
  pings are at most half a timeout apart.\<close>

lemma watchdog_fed_in_time:
  assumes "spawn_watchdog (Some timeout) = Some p" and "2000000 \<le> timeout" and "Suc k < n"
  shows "0 < p \<and> 2 * (watchdog_loop start p n ! 0 - start) \<le> timeout
    \<and> 2 * (watchdog_loop start p n ! Suc k - watchdog_loop start p n ! k) \<le> timeout"
proof -
  have p: "p = ping_period_for timeout" using assms(1) by (simp add: spawn_watchdog_def)
  have "0 < p" "2 * p \<le> timeout"
    using assms(2) by (auto simp: p ping_period_for_def dur_from_millis_def)
  moreover have "watchdog_loop start p n ! j = start + Suc j * p" if "j < n" for j
    using that by (simp add: watchdog_loop_def)
  ultimately show ?thesis using assms(3) by simp
qed

lemma watchdog_fed_in_time_example:
  "2 * (watchdog_loop 7 5000000000 3 ! 1 - watchdog_loop 7 5000000000 3 ! 0) \<le> 10000000000"
  using watchdog_fed_in_time[of 10000000000 5000000000 0 3 7]
  by (simp add: spawn_watchdog_def ping_period_for_def dur_from_millis_def)

text \<open>The bus setting.  Exactly the absent, the empty and the two documented values are
  accepted, and the names used in logs parse back to the same bus.\<close>

lemma bus_parse_exact:
  "bus_parse (Some (bus_as_str k)) = Inr k
   \<and> bus_parse raw = (case raw of
        None \<Rightarrow> Inr Session
      | Some s \<Rightarrow> if s \<in> {[], ''session''} then Inr Session
                  else if s = ''system'' then Inr System else Inl (AeConfig (BadBus s)))"
  by (cases k) (auto simp: bus_parse_def bus_as_str_def split: option.split)

end
