(* ===== verification/Client.thy ===== *)
theory Client
  imports Control
begin

text \<open>
  The client crate (\<open>alarm-daemon-client/src/client.rs\<close>): one function per method, the lazily built
  proxy, and the normalisation of the empty sound id.  The bus is a function \<open>call\<close> from a method
  name and an argument to a reply; the locale \<open>control_service\<close> states what the client relies on,
  and is interpreted on \<open>dispatch\<close>, which sends each method of the interface
  \<open>org.helm.AlarmDaemon.Control\<close> to the handler of the theory \<open>Control\<close>.
\<close>

section \<open>Messages\<close>

datatype bus_arg = NoArg | StrArg string | U32Arg u32

datatype bus_reply = UnitReply | BoolReply bool | StrReply string | StrsReply "string list"

datatype bus_error = RemoteError fdo_error | UnknownMethod string | BadMessage | Transport string

datatype client_error = ClientDBus bus_error

definition unit_reply :: "fdo_error + unit \<Rightarrow> bus_error + bus_reply" where
  "unit_reply r = (case r of Inl e \<Rightarrow> Inl (RemoteError e) | Inr _ \<Rightarrow> Inr UnitReply)"

definition dispatch ::
  "('w, 'db, 'rtx, 'tab, 'wtx) redb_api \<Rightarrow> 'p audio_ops \<Rightarrow> call_env \<Rightarrow> string \<Rightarrow> bus_arg \<Rightarrow>
   ('p, 'db, 'w) control \<Rightarrow> (bus_error + bus_reply) \<times> ('p, 'db, 'w) control" where
  "dispatch api aud ce m arg c =
     (if m = ''Arm'' then
        (case arg of StrArg sid \<Rightarrow> map_prod unit_reply id (control_arm api aud ce sid c) | _ \<Rightarrow> (Inl BadMessage, c))
      else if m = ''Disarm'' then map_prod unit_reply id (control_disarm api aud ce c)
      else if m = ''Snooze'' then
        (case arg of U32Arg n \<Rightarrow> map_prod unit_reply id (control_snooze api aud ce n c) | _ \<Rightarrow> (Inl BadMessage, c))
      else if m = ''Dismiss'' then map_prod unit_reply id (control_dismiss api aud ce c)
      else if m = ''Status'' then (Inr (BoolReply (control_status c)), c)
      else if m = ''CurrentSound'' then (Inr (StrReply (control_current_sound c)), c)
      else if m = ''ListSounds'' then
        (case control_list_sounds ce c of Inl e \<Rightarrow> Inl (RemoteError e) | Inr ids \<Rightarrow> Inr (StrsReply ids), c)
      else (Inl (UnknownMethod m), c))"

section \<open>\<open>AlarmDaemonClient\<close>\<close>

text \<open>The cell of the proxy: filled or not.\<close>

record client =
  cl_proxy :: bool

definition from_connection :: client where
  "from_connection = \<lparr>cl_proxy = False\<rparr>"

text \<open>Both take the outcome of opening the connection.\<close>

definition connect_session :: "bus_error + unit \<Rightarrow> client_error + client" where
  "connect_session connection = bind_r (map_err ClientDBus connection) (\<lambda>_. Inr from_connection)"

definition connect_system :: "bus_error + unit \<Rightarrow> client_error + client" where
  "connect_system connection = bind_r (map_err ClientDBus connection) (\<lambda>_. Inr from_connection)"

text \<open>The constants of \<open>constants.rs\<close>, and the object the proxy is built for.\<close>

definition CLIENT_BUS_NAME :: string where "CLIENT_BUS_NAME = ''org.helm.AlarmDaemon''"

definition CLIENT_OBJECT_PATH :: string where "CLIENT_OBJECT_PATH = ''/org/helm/AlarmDaemon''"

definition CLIENT_CONTROL_INTERFACE :: string where "CLIENT_CONTROL_INTERFACE = ''org.helm.AlarmDaemon.Control''"

definition proxy_target :: "string \<times> string \<times> string" where
  "proxy_target = (CLIENT_BUS_NAME, CLIENT_OBJECT_PATH, CLIENT_CONTROL_INTERFACE)"

text \<open>\<open>get_or_try_init\<close>: a failed construction leaves the cell empty.\<close>

definition proxy :: "bus_error + unit \<Rightarrow> client \<Rightarrow> (client_error + unit) \<times> client" where
  "proxy mk cl =
     (if cl_proxy cl then (Inr (), cl)
      else (case mk of
              Inl e \<Rightarrow> (Inl (ClientDBus e), cl)
            | Inr _ \<Rightarrow> (Inr (), cl\<lparr>cl_proxy := True\<rparr>)))"

definition proxy_call ::
  "bus_error + unit \<Rightarrow> (string \<Rightarrow> bus_arg \<Rightarrow> 's \<Rightarrow> (bus_error + bus_reply) \<times> 's) \<Rightarrow> string \<Rightarrow> bus_arg \<Rightarrow>
   (bus_reply \<Rightarrow> 'r option) \<Rightarrow> client \<times> 's \<Rightarrow> (client_error + 'r) \<times> client \<times> 's" where
  "proxy_call mk call m arg conv x =
     (case x of (cl, s) \<Rightarrow>
        (case proxy mk cl of
           (Inl e, cl') \<Rightarrow> (Inl e, cl', s)
         | (Inr _, cl') \<Rightarrow>
             (case call m arg s of
                (Inl e, s') \<Rightarrow> (Inl (ClientDBus e), cl', s')
              | (Inr r, s') \<Rightarrow> (ok_or (ClientDBus BadMessage) (conv r), cl', s'))))"

definition as_unit :: "bus_reply \<Rightarrow> unit option" where
  "as_unit r = (case r of UnitReply \<Rightarrow> Some () | _ \<Rightarrow> None)"

definition as_bool :: "bus_reply \<Rightarrow> bool option" where
  "as_bool r = (case r of BoolReply b \<Rightarrow> Some b | _ \<Rightarrow> None)"

definition as_str :: "bus_reply \<Rightarrow> string option" where
  "as_str r = (case r of StrReply s \<Rightarrow> Some s | _ \<Rightarrow> None)"

definition as_strs :: "bus_reply \<Rightarrow> string list option" where
  "as_strs r = (case r of StrsReply s \<Rightarrow> Some s | _ \<Rightarrow> None)"

type_synonym 's bus = "string \<Rightarrow> bus_arg \<Rightarrow> 's \<Rightarrow> (bus_error + bus_reply) \<times> 's"

definition client_list_sounds ::
  "bus_error + unit \<Rightarrow> 's bus \<Rightarrow> client \<times> 's \<Rightarrow> (client_error + string list) \<times> client \<times> 's" where
  "client_list_sounds mk call = proxy_call mk call ''ListSounds'' NoArg as_strs"

definition client_arm ::
  "bus_error + unit \<Rightarrow> 's bus \<Rightarrow> string \<Rightarrow> client \<times> 's \<Rightarrow> (client_error + unit) \<times> client \<times> 's" where
  "client_arm mk call sid = proxy_call mk call ''Arm'' (StrArg sid) as_unit"

definition client_disarm ::
  "bus_error + unit \<Rightarrow> 's bus \<Rightarrow> client \<times> 's \<Rightarrow> (client_error + unit) \<times> client \<times> 's" where
  "client_disarm mk call = proxy_call mk call ''Disarm'' NoArg as_unit"

definition client_snooze ::
  "bus_error + unit \<Rightarrow> 's bus \<Rightarrow> u32 \<Rightarrow> client \<times> 's \<Rightarrow> (client_error + unit) \<times> client \<times> 's" where
  "client_snooze mk call n = proxy_call mk call ''Snooze'' (U32Arg n) as_unit"

definition client_dismiss ::
  "bus_error + unit \<Rightarrow> 's bus \<Rightarrow> client \<times> 's \<Rightarrow> (client_error + unit) \<times> client \<times> 's" where
  "client_dismiss mk call = proxy_call mk call ''Dismiss'' NoArg as_unit"

definition client_status ::
  "bus_error + unit \<Rightarrow> 's bus \<Rightarrow> client \<times> 's \<Rightarrow> (client_error + bool) \<times> client \<times> 's" where
  "client_status mk call = proxy_call mk call ''Status'' NoArg as_bool"

definition client_current_sound ::
  "bus_error + unit \<Rightarrow> 's bus \<Rightarrow> client \<times> 's \<Rightarrow> (client_error + string option) \<times> client \<times> 's" where
  "client_current_sound mk call x =
     (case proxy_call mk call ''CurrentSound'' NoArg as_str x of
        (Inl e, y) \<Rightarrow> (Inl e, y)
      | (Inr sid, y) \<Rightarrow> (Inr (if sid = [] then None else Some sid), y))"

section \<open>What the client relies on\<close>

locale control_service =
  fixes call :: "'s bus"
    and armed :: "'s \<Rightarrow> bool"
    and selected :: "'s \<Rightarrow> string option"
  assumes status_reply: "call ''Status'' NoArg s = (Inr (BoolReply (armed s)), s)"
    and sound_reply: "call ''CurrentSound'' NoArg s =
      (Inr (StrReply (case selected s of Some x \<Rightarrow> x | None \<Rightarrow> [])), s)"
    and arm_reply: "call ''Arm'' (StrArg sid) s = (Inr r, s') \<Longrightarrow> r = UnitReply \<and> armed s' \<and> selected s' = Some sid"
    and arm_refused: "call ''Arm'' (StrArg sid) s = (Inl e, s') \<Longrightarrow> s' = s"
    and disarm_reply: "m \<in> {''Disarm'', ''Dismiss''} \<Longrightarrow>
      \<exists>s'. call m NoArg s = (Inr UnitReply, s') \<and> \<not> armed s' \<and> selected s' = None"
begin

lemma client_reads:
  "client_status (Inr ()) call (cl, s) = (Inr (armed s), cl\<lparr>cl_proxy := True\<rparr>, s)"
  "selected s \<noteq> Some [] \<Longrightarrow>
    client_current_sound (Inr ()) call (cl, s) = (Inr (selected s), cl\<lparr>cl_proxy := True\<rparr>, s)"
  by (auto simp: client_status_def client_current_sound_def proxy_call_def proxy_def status_reply sound_reply
      as_bool_def as_str_def ok_or_def split: option.split)

lemma client_arm_effect:
  "client_arm (Inr ()) call sid (cl, s) = (r, cl', s') \<Longrightarrow>
    (case r of Inr _ \<Rightarrow> armed s' \<and> selected s' = Some sid | Inl _ \<Rightarrow> s' = s)"
  by (auto simp: client_arm_def proxy_call_def proxy_def as_unit_def ok_or_def
      dest: arm_reply arm_refused split: prod.splits sum.splits if_splits)

lemma client_disarm_effect:
  "\<exists>s'. client_disarm (Inr ()) call (cl, s) = (Inr (), cl\<lparr>cl_proxy := True\<rparr>, s')
      \<and> \<not> armed s' \<and> selected s' = None"
  "\<exists>s'. client_dismiss (Inr ()) call (cl, s) = (Inr (), cl\<lparr>cl_proxy := True\<rparr>, s')
      \<and> \<not> armed s' \<and> selected s' = None"
  using disarm_reply[of "''Disarm''" s] disarm_reply[of "''Dismiss''" s]
  by (auto simp: client_disarm_def client_dismiss_def proxy_call_def proxy_def as_unit_def ok_or_def)

end

lemma dispatch_arm:
  assumes "dispatch api aud ce ''Arm'' (StrArg sid) c = (r, c')"
  shows "case r of
      Inr x \<Rightarrow> x = UnitReply \<and> control_status c' \<and> daemon_current_sound (c_daemon c') = Some sid
    | Inl _ \<Rightarrow> c' = c"
proof (cases "resolve_path (ce_fs ce) (c_sounds c) sid")
  case (Inl e)
  with assms show ?thesis by (auto simp: dispatch_def arm_error unit_reply_def)
next
  case (Inr p)
  obtain x c1 where arm: "control_arm api aud ce sid c = (x, c1)" by (cases "control_arm api aud ce sid c")
  from arm_ok(1,2)[OF Inr, of api aud] arm assms show ?thesis
    by (auto simp: dispatch_def unit_reply_def control_status_def daemon_status_def daemon_current_sound_def)
qed

lemma dispatch_disarm:
  assumes "m \<in> {''Disarm'', ''Dismiss''}"
  shows "\<exists>c'. dispatch api aud ce m NoArg c = (Inr UnitReply, c') \<and> \<not> control_status c'
    \<and> daemon_current_sound (c_daemon c') = None"
proof -
  obtain r c' where dis: "control_disarm api aud ce c = (r, c')" by (cases "control_disarm api aud ce c")
  from disarm_ok(1,2)[OF dis] dis assms show ?thesis
    by (auto simp: dispatch_def unit_reply_def dismiss_is_disarm control_status_def daemon_status_def
        daemon_current_sound_def)
qed

interpretation bus: control_service "dispatch api aud ce" control_status
  "\<lambda>c. daemon_current_sound (c_daemon c)"
  for api :: "('w, 'db, 'rtx, 'tab, 'wtx) redb_api" and aud :: "'p audio_ops" and ce
proof unfold_locales
  show "r = UnitReply \<and> control_status s' \<and> daemon_current_sound (c_daemon s') = Some sid"
    if "dispatch api aud ce ''Arm'' (StrArg sid) s = (Inr r, s')" for sid s r s'
    using dispatch_arm[OF that] by simp
  show "s' = s" if "dispatch api aud ce ''Arm'' (StrArg sid) s = (Inl e, s')" for sid s e s'
    using dispatch_arm[OF that] by simp
qed (auto simp: dispatch_disarm, simp_all add: dispatch_def control_current_sound_def)

section \<open>Properties\<close>

text \<open>What a client sees.  Through the bus, a successful \<open>arm\<close> is followed by \<open>status\<close> true and
  \<open>current_sound\<close> the armed id; a refused \<open>arm\<close> leaves the service as it was; \<open>disarm\<close> and
  \<open>dismiss\<close> always succeed and are followed by \<open>status\<close> false and no sound.\<close>

lemma client_sees_control:
  assumes "client_arm (Inr ()) (dispatch api aud ce) sid (cl, c) = (r, cl1, c1)" and "sid \<noteq> []"
    and "client_disarm (Inr ()) (dispatch api aud ce) (cl, c) = (r', cl2, c2)"
  shows "(case r of
      Inl _ \<Rightarrow> c1 = c
    | Inr _ \<Rightarrow> fst (client_status (Inr ()) (dispatch api aud ce) (cl1, c1)) = Inr True
        \<and> fst (client_current_sound (Inr ()) (dispatch api aud ce) (cl1, c1)) = Inr (Some sid))
    \<and> r' = Inr () \<and> fst (client_status (Inr ()) (dispatch api aud ce) (cl2, c2)) = Inr False
    \<and> fst (client_current_sound (Inr ()) (dispatch api aud ce) (cl2, c2)) = Inr None"
  using bus.client_arm_effect[OF assms(1)] bus.client_disarm_effect(1)[of api aud ce cl c] assms(2,3)
  by (auto simp: bus.client_reads split: sum.splits)

lemma client_sees_control_example:
  "\<exists>cl1 c1. client_arm (Inr ()) (dispatch mem_api fake_ops demo_env) ''builtin:horn'' (from_connection, demo_control)
      = (Inr (), cl1, c1)
    \<and> fst (client_current_sound (Inr ()) (dispatch mem_api fake_ops demo_env) (cl1, c1)) = Inr (Some ''builtin:horn'')"
proof -
  obtain r cl1 c1 where a: "client_arm (Inr ()) (dispatch mem_api fake_ops demo_env) ''builtin:horn''
      (from_connection, demo_control) = (r, cl1, c1)"
    by (cases "client_arm (Inr ()) (dispatch mem_api fake_ops demo_env) ''builtin:horn''
      (from_connection, demo_control)")
  obtain r2 cl2 c2 where d: "client_disarm (Inr ()) (dispatch mem_api fake_ops demo_env)
      (from_connection, demo_control) = (r2, cl2, c2)"
    by (cases "client_disarm (Inr ()) (dispatch mem_api fake_ops demo_env) (from_connection, demo_control)")
  obtain x c3 where arm: "control_arm mem_api fake_ops demo_env ''builtin:horn'' demo_control = (x, c3)"
    by (cases "control_arm mem_api fake_ops demo_env ''builtin:horn'' demo_control")
  have "r = Inr ()"
    using a arm_ok(1)[OF demo_arm, of mem_api fake_ops] arm
    by (auto simp: client_arm_def proxy_call_def proxy_def from_connection_def dispatch_def unit_reply_def
        as_unit_def ok_or_def)
  with client_sees_control[OF a _ d] a show ?thesis by simp
qed

end
