(* ===== verification/File_System.thy ===== *)
theory File_System
  imports Paths "HOL-Library.AList"
begin

text \<open>
  A file system that changes: the calls of \<open>std::fs\<close> that create, write, rename and remove, as the
  record \<open>fs_api\<close>, and what callers may rely on as the locale \<open>file_system\<close>.  Every call may fail; the
  laws say what a directory holds afterwards, in either case.  The locale is interpreted on an
  in-memory tree without links.
\<close>

section \<open>\<open>Path::with_extension\<close>\<close>

text \<open>Trailing slashes and \<open>/.\<close> are not part of the last component (on the reversed path).\<close>

fun trim_rev :: "string \<Rightarrow> string" where
  "trim_rev (c # cs) =
     (if c = CHR ''/'' then trim_rev cs
      else if c = CHR ''.'' \<and> (case cs of d # _ \<Rightarrow> d = CHR ''/'' | [] \<Rightarrow> False) then trim_rev cs
      else c # cs)"
| "trim_rev [] = []"

definition path_with_extension :: "path \<Rightarrow> string \<Rightarrow> path" where
  "path_with_extension p ext =
     (case file_name p of
        None \<Rightarrow> p
      | Some f \<Rightarrow>
          (let body = rev (trim_rev (rev p)) in
           take (length body - length f) body @ fst (split_at_dot f) @
             (if ext = [] then [] else CHR ''.'' # ext)))"

section \<open>The interface\<close>

datatype node = FileNode bytes | DirNode

record 'w fs_api =
  fa_view :: "'w \<Rightarrow> fs"
  fa_open :: "'w \<Rightarrow> path \<Rightarrow> string + bytes"
  fa_create_dir_all :: "path \<Rightarrow> 'w \<Rightarrow> (string + unit) \<times> 'w"
  fa_write :: "path \<Rightarrow> bytes \<Rightarrow> 'w \<Rightarrow> (string + unit) \<times> 'w"
  fa_rename :: "path \<Rightarrow> path \<Rightarrow> 'w \<Rightarrow> (string + unit) \<times> 'w"
  fa_remove_file :: "path \<Rightarrow> 'w \<Rightarrow> (string + unit) \<times> 'w"

text \<open>\<open>ents w d\<close> is what directory \<open>d\<close> holds, if it is one.\<close>

locale file_system =
  fixes api :: "'w fs_api"
    and ents :: "'w \<Rightarrow> path \<Rightarrow> (string \<rightharpoonup> node) option"
  assumes listing: "ents w d = Some m \<Longrightarrow>
      \<exists>es. fs_read_dir (fa_view api w) d = Inr (map Inr es) \<and> set es = dom m \<and> list_all entry_name es"
    and no_listing: "ents w d = None \<Longrightarrow> \<exists>e. fs_read_dir (fa_view api w) d = Inl e"
    and meta: "ents w d = Some m \<Longrightarrow> entry_name n \<Longrightarrow>
      (case m n of
         None \<Rightarrow> \<not> path_exists (fa_view api w) (path_join d n)
       | Some (FileNode b) \<Rightarrow> fs_metadata (fa_view api w) (path_join d n) = Inr (length b)
       | Some DirNode \<Rightarrow> path_exists (fa_view api w) (path_join d n))"
    and no_meta: "ents w d = None \<Longrightarrow> entry_name n \<Longrightarrow> \<not> path_exists (fa_view api w) (path_join d n)"
    and opened: "ents w d = Some m \<Longrightarrow> entry_name n \<Longrightarrow> m n = Some (FileNode b) \<Longrightarrow>
      fa_open api w (path_join d n) = Inr b"
    and create_ok: "fa_create_dir_all api d w = (Inr u, w') \<Longrightarrow>
      ents w' d = Some (case ents w d of Some m \<Rightarrow> m | None \<Rightarrow> Map.empty)"
    and create_fail: "fa_create_dir_all api d w = (Inl e, w') \<Longrightarrow> ents w' d = ents w d"
    and write_ok: "ents w d = Some m \<Longrightarrow> entry_name n \<Longrightarrow> fa_write api (path_join d n) b w = (Inr u, w') \<Longrightarrow>
      ents w' d = Some (m(n \<mapsto> FileNode b))"
    and write_fail: "ents w d = Some m \<Longrightarrow> entry_name n \<Longrightarrow> fa_write api (path_join d n) b w = (Inl e, w') \<Longrightarrow>
      \<exists>x. ents w' d = Some (m(n := x))"
    and rename_ok: "ents w d = Some m \<Longrightarrow> entry_name a \<Longrightarrow> entry_name n \<Longrightarrow> a \<noteq> n \<Longrightarrow> m a = Some (FileNode b) \<Longrightarrow>
      fa_rename api (path_join d a) (path_join d n) w = (Inr u, w') \<Longrightarrow>
      ents w' d = Some (m(a := None, n \<mapsto> FileNode b))"
    and rename_fail: "ents w d = Some m \<Longrightarrow> entry_name a \<Longrightarrow> entry_name n \<Longrightarrow>
      fa_rename api (path_join d a) (path_join d n) w = (Inl e, w') \<Longrightarrow> ents w' d = Some m"
    and remove_ok: "ents w d = Some m \<Longrightarrow> entry_name n \<Longrightarrow> fa_remove_file api (path_join d n) w = (Inr u, w') \<Longrightarrow>
      ents w' d = Some (m(n := None))"
    and remove_fail: "ents w d = Some m \<Longrightarrow> entry_name n \<Longrightarrow> fa_remove_file api (path_join d n) w = (Inl e, w') \<Longrightarrow>
      ents w' d = Some m"
begin

lemma exists_entry:
  "entry_name n \<Longrightarrow> path_exists (fa_view api w) (path_join d n) \<longleftrightarrow> (\<exists>m. ents w d = Some m \<and> m n \<noteq> None)"
proof (cases "ents w d")
  case (Some m)
  assume n: "entry_name n"
  with meta[OF Some n] show ?thesis
    by (cases "m n") (auto simp: Some path_exists_def split: node.splits)
qed (simp add: no_meta)

end

section \<open>An in-memory tree\<close>

text \<open>A process whose working directory is the root, on a tree of files and directories without
  links.\<close>

datatype tree = File bytes | Dir "(string \<times> tree) list"

fun t_get :: "tree \<Rightarrow> string list \<Rightarrow> tree option" where
  "t_get t [] = Some t"
| "t_get (File b) (c # cs) = None"
| "t_get (Dir l) (c # cs) = (case map_of l c of None \<Rightarrow> None | Some t \<Rightarrow> t_get t cs)"

text \<open>Change the directory at a path.\<close>

fun t_upd :: "string list \<Rightarrow> ((string \<times> tree) list \<Rightarrow> (string \<times> tree) list option) \<Rightarrow> tree \<Rightarrow> tree option" where
  "t_upd cs f (File b) = None"
| "t_upd [] f (Dir l) = map_option Dir (f l)"
| "t_upd (c # cs) f (Dir l) =
     (case map_of l c of
        None \<Rightarrow> None
      | Some t \<Rightarrow> map_option (\<lambda>t'. Dir (AList.update c t' l)) (t_upd cs f t))"

fun t_mkdirs :: "string list \<Rightarrow> tree \<Rightarrow> tree option" where
  "t_mkdirs cs (File b) = None"
| "t_mkdirs [] (Dir l) = Some (Dir l)"
| "t_mkdirs (c # cs) (Dir l) =
     map_option (\<lambda>t'. Dir (AList.update c t' l))
       (t_mkdirs cs (case map_of l c of None \<Rightarrow> Dir [] | Some t \<Rightarrow> t))"

definition put_file :: "string \<Rightarrow> bytes \<Rightarrow> (string \<times> tree) list \<Rightarrow> (string \<times> tree) list option" where
  "put_file n b l = (case map_of l n of Some (Dir _) \<Rightarrow> None | _ \<Rightarrow> Some (AList.update n (File b) l))"

definition drop_file :: "string \<Rightarrow> (string \<times> tree) list \<Rightarrow> (string \<times> tree) list option" where
  "drop_file n l = (case map_of l n of Some (File _) \<Rightarrow> Some (AList.delete n l) | _ \<Rightarrow> None)"

definition on_tree :: "tree \<Rightarrow> tree option \<Rightarrow> (string + unit) \<times> tree" where
  "on_tree w r = (case r of None \<Rightarrow> (Inl ''EIO'', w) | Some w' \<Rightarrow> (Inr (), w'))"

definition at_parent :: "path \<Rightarrow> (string \<Rightarrow> (string \<times> tree) list \<Rightarrow> (string \<times> tree) list option) \<Rightarrow> tree \<Rightarrow> tree option" where
  "at_parent p f w =
     (let cs = components p in if cs = [] then None else t_upd (butlast cs) (f (last cs)) w)"

definition mem_fs :: "tree fs_api" where
  "mem_fs =
     \<lparr>fa_view = (\<lambda>w.
        \<lparr>fs_metadata = (\<lambda>p. case t_get w (components p) of
             None \<Rightarrow> Inl ''ENOENT'' | Some (File b) \<Rightarrow> Inr (length b) | Some (Dir _) \<Rightarrow> Inr 0),
         fs_read_dir = (\<lambda>d. case t_get w (components d) of
             Some (Dir l) \<Rightarrow> Inr (map Inr (filter entry_name (map fst l))) | _ \<Rightarrow> Inl ''ENOTDIR'')\<rparr>),
      fa_open = (\<lambda>w p. case t_get w (components p) of Some (File b) \<Rightarrow> Inr b | _ \<Rightarrow> Inl ''ENOENT''),
      fa_create_dir_all = (\<lambda>d w. on_tree w (t_mkdirs (components d) w)),
      fa_write = (\<lambda>p b w. on_tree w (at_parent p (\<lambda>n. put_file n b) w)),
      fa_rename = (\<lambda>p q w. on_tree w
        (case t_get w (components p) of
           Some (File b) \<Rightarrow> Option.bind (at_parent p drop_file w) (at_parent q (\<lambda>n. put_file n b))
         | _ \<Rightarrow> None)),
      fa_remove_file = (\<lambda>p w. on_tree w (at_parent p drop_file w))\<rparr>"

definition node_of :: "tree \<Rightarrow> node" where
  "node_of t = (case t of File b \<Rightarrow> FileNode b | Dir _ \<Rightarrow> DirNode)"

definition dir_map :: "(string \<times> tree) list \<Rightarrow> (string \<rightharpoonup> node)" where
  "dir_map l n = (if entry_name n then map_option node_of (map_of l n) else None)"

definition mem_ents :: "tree \<Rightarrow> path \<Rightarrow> (string \<rightharpoonup> node) option" where
  "mem_ents w d = (case t_get w (components d) of Some (Dir l) \<Rightarrow> Some (dir_map l) | _ \<Rightarrow> None)"

lemma t_get_snoc: "t_get t (cs @ [n]) = (case t_get t cs of Some (Dir l) \<Rightarrow> map_of l n | _ \<Rightarrow> None)"
  by (induction t cs rule: t_get.induct) (auto split: option.split tree.split)

lemma t_upd_Some: "t_upd cs f t = Some t' \<Longrightarrow>
  \<exists>l l'. t_get t cs = Some (Dir l) \<and> f l = Some l' \<and> t_get t' cs = Some (Dir l')"
  by (induction cs f t arbitrary: t' rule: t_upd.induct) (auto simp: AList.update_conv' split: option.splits)

lemma t_mkdirs_Some: "t_mkdirs cs t = Some t' \<Longrightarrow>
  t_get t' cs = Some (case t_get t cs of Some x \<Rightarrow> x | None \<Rightarrow> Dir []) \<and>
  (\<exists>l. t_get t' cs = Some (Dir l))"
proof (induction cs t arbitrary: t' rule: t_mkdirs.induct)
  case (3 c cs l)
  then obtain u where u: "t_mkdirs cs (case map_of l c of None \<Rightarrow> Dir [] | Some t \<Rightarrow> t) = Some u"
    "t' = Dir (AList.update c u l)" by auto
  have "t_get (Dir []) cs = None \<or> t_get (Dir []) cs = Some (Dir [])" by (cases cs) simp_all
  with 3(1)[OF u(1)] u(2) show ?case by (auto simp: AList.update_conv' split: option.splits)
qed auto

lemma at_parent_entry:
  assumes "entry_name n" "at_parent (path_join d n) f w = Some w'"
  shows "\<exists>l l'. t_get w (components d) = Some (Dir l) \<and> f n l = Some l' \<and> t_get w' (components d) = Some (Dir l')"
  using assms(2) t_upd_Some by (auto simp: at_parent_def components_join_entry[OF assms(1)])

lemma dir_map_put: "entry_name n \<Longrightarrow> put_file n b l = Some l' \<Longrightarrow> dir_map l' = (dir_map l)(n \<mapsto> FileNode b)"
  by (auto simp: put_file_def dir_map_def AList.update_conv' node_of_def split: option.splits tree.splits)

lemma dir_map_drop: "drop_file n l = Some l' \<Longrightarrow> dir_map l' = (dir_map l)(n := None)"
  by (auto simp: drop_file_def dir_map_def AList.delete_conv' split: option.splits tree.splits)

lemma on_tree_eq: "on_tree w r = (Inr u, w') \<longleftrightarrow> r = Some w'" "on_tree w r = (Inl e, w') \<Longrightarrow> w' = w"
  by (auto simp: on_tree_def split: option.splits)

lemma mem_ents_Some: "mem_ents w d = Some m \<longleftrightarrow> (\<exists>l. t_get w (components d) = Some (Dir l) \<and> m = dir_map l)"
  by (auto simp: mem_ents_def split: option.splits tree.splits)

lemma mem_get_entry:
  assumes "mem_ents w d = Some m" "entry_name n"
  shows "m n = map_option node_of (t_get w (components (path_join d n)))"
  using assms by (auto simp: mem_ents_Some components_join_entry t_get_snoc dir_map_def)

lemma mem_fs_sel [simp]:
  "fs_read_dir (fa_view mem_fs w) d = (case t_get w (components d) of
     Some (Dir l) \<Rightarrow> Inr (map Inr (filter entry_name (map fst l))) | _ \<Rightarrow> Inl ''ENOTDIR'')"
  "fs_metadata (fa_view mem_fs w) p = (case t_get w (components p) of
     None \<Rightarrow> Inl ''ENOENT'' | Some (File b) \<Rightarrow> Inr (length b) | Some (Dir _) \<Rightarrow> Inr 0)"
  "fa_open mem_fs w p = (case t_get w (components p) of Some (File b) \<Rightarrow> Inr b | _ \<Rightarrow> Inl ''ENOENT'')"
  "fa_create_dir_all mem_fs d w = on_tree w (t_mkdirs (components d) w)"
  "fa_write mem_fs p b w = on_tree w (at_parent p (\<lambda>n. put_file n b) w)"
  "fa_rename mem_fs p q w = on_tree w
     (case t_get w (components p) of
        Some (File b) \<Rightarrow> Option.bind (at_parent p drop_file w) (at_parent q (\<lambda>n. put_file n b))
      | _ \<Rightarrow> None)"
  "fa_remove_file mem_fs p w = on_tree w (at_parent p drop_file w)"
  by (simp_all add: mem_fs_def)

lemma mem_listing:
  assumes "mem_ents w d = Some m"
  shows "\<exists>es. fs_read_dir (fa_view mem_fs w) d = Inr (map Inr es) \<and> set es = dom m \<and> list_all entry_name es"
proof -
  obtain l where l: "t_get w (components d) = Some (Dir l)" "m = dir_map l" using assms by (auto simp: mem_ents_Some)
  have "dom m = {n. entry_name n} \<inter> dom (map_of l)" by (auto simp: l(2) dir_map_def dom_def)
  then have "set (filter entry_name (map fst l)) = dom m" by (auto simp: dom_map_of_conv_image_fst)
  moreover have "list_all entry_name (filter entry_name (map fst l))" by (auto simp: list_all_iff)
  ultimately show ?thesis using l(1) by auto
qed

lemma mem_meta:
  assumes "mem_ents w d = Some m" "entry_name n"
  shows "case m n of None \<Rightarrow> \<not> path_exists (fa_view mem_fs w) (path_join d n)
      | Some (FileNode b) \<Rightarrow> fs_metadata (fa_view mem_fs w) (path_join d n) = Inr (length b)
      | Some DirNode \<Rightarrow> path_exists (fa_view mem_fs w) (path_join d n)"
  unfolding mem_get_entry[OF assms] path_exists_def
  by (auto simp: node_of_def split: option.splits tree.splits)

lemma mem_no_meta:
  "mem_ents w d = None \<Longrightarrow> entry_name n \<Longrightarrow> \<not> path_exists (fa_view mem_fs w) (path_join d n)"
  unfolding path_exists_def mem_fs_sel components_join_entry t_get_snoc mem_ents_def
  by (auto split: option.splits tree.splits)

lemma mem_file_entry:
  assumes "mem_ents w d = Some m" "entry_name n" "m n = Some (FileNode b)"
  shows "t_get w (components (path_join d n)) = Some (File b)"
proof -
  obtain t where t: "t_get w (components (path_join d n)) = Some t" "node_of t = FileNode b"
    using mem_get_entry[OF assms(1,2)] unfolding assms(3) by (auto simp: map_option_case split: option.splits)
  then show ?thesis by (cases t) (simp_all add: node_of_def)
qed

lemma mem_opened:
  assumes "mem_ents w d = Some m" "entry_name n" "m n = Some (FileNode b)"
  shows "fa_open mem_fs w (path_join d n) = Inr b"
  using mem_file_entry[OF assms] by simp

lemma mem_create:
  assumes "fa_create_dir_all mem_fs d w = (Inr u, w')"
  shows "mem_ents w' d = Some (case mem_ents w d of Some m \<Rightarrow> m | None \<Rightarrow> Map.empty)"
proof -
  have "t_mkdirs (components d) w = Some w'" using assms by (simp add: on_tree_eq)
  from t_mkdirs_Some[OF this] show ?thesis
    by (auto simp: mem_ents_def dir_map_def split: option.splits tree.splits)
qed

lemma mem_write:
  assumes "mem_ents w d = Some m" "entry_name n" "fa_write mem_fs (path_join d n) b w = (Inr u, w')"
  shows "mem_ents w' d = Some (m(n \<mapsto> FileNode b))"
  using at_parent_entry[OF assms(2), of d "\<lambda>n. put_file n b" w w'] assms dir_map_put[OF assms(2)]
  by (auto simp: on_tree_eq mem_ents_Some)

lemma mem_remove:
  assumes "mem_ents w d = Some m" "entry_name n" "fa_remove_file mem_fs (path_join d n) w = (Inr u, w')"
  shows "mem_ents w' d = Some (m(n := None))"
  using at_parent_entry[OF assms(2), of d drop_file w w'] assms dir_map_drop
  by (auto simp: on_tree_eq mem_ents_Some)

lemma mem_rename:
  assumes "mem_ents w d = Some m" "entry_name a" "entry_name n" "m a = Some (FileNode b)"
    and "fa_rename mem_fs (path_join d a) (path_join d n) w = (Inr u, w')"
  shows "mem_ents w' d = Some (m(a := None, n \<mapsto> FileNode b))"
proof -
  have "t_get w (components (path_join d a)) = Some (File b)"
    using mem_file_entry[OF assms(1,2,4)] .
  with assms(5) obtain w1 where w1: "at_parent (path_join d a) drop_file w = Some w1"
    "at_parent (path_join d n) (\<lambda>n. put_file n b) w1 = Some w'"
    by (auto simp: on_tree_eq bind_eq_Some_conv)
  from at_parent_entry[OF assms(2) w1(1)] at_parent_entry[OF assms(3) w1(2)] show ?thesis
    using assms(1) dir_map_put[OF assms(3)] dir_map_drop by (fastforce simp: mem_ents_Some)
qed

interpretation memfs: file_system mem_fs mem_ents
proof unfold_locales
  show "mem_ents w d = None \<Longrightarrow> \<exists>e. fs_read_dir (fa_view mem_fs w) d = Inl e" for w d
    by (auto simp: mem_ents_def split: option.splits tree.splits)
  show "fa_create_dir_all mem_fs d w = (Inl e, w') \<Longrightarrow> mem_ents w' d = mem_ents w d" for d w e w'
    using on_tree_eq(2) by auto
  show "mem_ents w d = Some m \<Longrightarrow> entry_name n \<Longrightarrow> fa_write mem_fs (path_join d n) b w = (Inl e, w') \<Longrightarrow>
      \<exists>x. mem_ents w' d = Some (m(n := x))" for w d m n b e w'
    using on_tree_eq(2) by (metis fun_upd_triv mem_fs_sel(5))
  show "mem_ents w d = Some m \<Longrightarrow> entry_name a \<Longrightarrow> entry_name n \<Longrightarrow>
      fa_rename mem_fs (path_join d a) (path_join d n) w = (Inl e, w') \<Longrightarrow> mem_ents w' d = Some m" for w d m a n e w'
    using on_tree_eq(2) by (metis mem_fs_sel(6))
  show "mem_ents w d = Some m \<Longrightarrow> entry_name n \<Longrightarrow> fa_remove_file mem_fs (path_join d n) w = (Inl e, w') \<Longrightarrow>
      mem_ents w' d = Some m" for w d m n e w'
    using on_tree_eq(2) by (metis mem_fs_sel(7))
qed ((rule mem_listing mem_meta mem_no_meta mem_opened mem_create mem_write mem_remove mem_rename; assumption)+)

end
