(* ===== verification/Registration.thy ===== *)
theory Registration
  imports Sounds Decoded File_System
begin

text \<open>
  Registering and removing custom sounds (\<open>test_helpers\<close> of \<open>audio/sounds.rs\<close>), over the mutable file
  system of \<open>File_System\<close> and the decoder interface of \<open>Decoded\<close>.  A decode that does not return
  makes the whole call not return (\<open>None\<close>).
\<close>

section \<open>Operations\<close>

definition MAX_CUSTOM_SOUND_BYTES :: nat where
  "MAX_CUSTOM_SOUND_BYTES = 5 * 1024 * 1024"

definition format_ext :: "sound_format \<Rightarrow> string" where
  "format_ext f = (case f of Wav \<Rightarrow> ''wav'' | Flac \<Rightarrow> ''flac'')"

definition sniff_format :: "bytes \<Rightarrow> audio_error + sound_format" where
  "sniff_format data =
     (if 12 \<le> length data \<and> take 4 data = as_bytes ''RIFF'' \<and> take 4 (drop 8 data) = as_bytes ''WAVE'' then Inr Wav
      else if 4 \<le> length data \<and> take 4 data = as_bytes ''fLaC'' then Inr Flac
      else Inl UnsupportedFormat)"

definition is_ascii_alphanumeric :: "char \<Rightarrow> bool" where
  "is_ascii_alphanumeric c \<longleftrightarrow>
     (let n = of_char c :: nat in 48 \<le> n \<and> n \<le> 57 \<or> 65 \<le> n \<and> n \<le> 90 \<or> 97 \<le> n \<and> n \<le> 122)"

definition to_ascii_lowercase :: "char \<Rightarrow> char" where
  "to_ascii_lowercase c = (let n = of_char c :: nat in if 65 \<le> n \<and> n \<le> 90 then char_of (n + 32) else c)"

text \<open>The \<open>{:x}\<close> format.\<close>

fun to_hex :: "nat \<Rightarrow> string" where
  "to_hex n =
     (if n < 16 then [''0123456789abcdef'' ! n] else to_hex (n div 16) @ [''0123456789abcdef'' ! (n mod 16)])"

declare to_hex.simps [simp del]

text \<open>On the bytes of the name: the bytes of a character outside ASCII are dropped one by one.\<close>

fun clean_name :: "string \<Rightarrow> string" where
  "clean_name [] = []"
| "clean_name (c # cs) =
     (if is_ascii_alphanumeric c then to_ascii_lowercase c # clean_name cs
      else if c = CHR ''-'' \<or> c = CHR ''_'' then c # clean_name cs
      else clean_name cs)"

definition make_custom_id :: "int \<Rightarrow> string \<Rightarrow> string" where
  "make_custom_id clk name =
     (let now = (if clk < 0 then 0 else nat clk);
          cleaned = clean_name name
      in (if cleaned = [] then ''sound'' else cleaned) @ ''-'' @ to_hex now)"

definition register_sound ::
  "'w fs_api \<Rightarrow> (bytes, 'fmt, 'dec, 'pkt) symphonia_api \<Rightarrow> sound_library \<Rightarrow> int \<Rightarrow> string \<Rightarrow> bytes \<Rightarrow> 'w \<Rightarrow>
   ((audio_error + string) \<times> 'w) option" where
  "register_sound api sy lib clk name data w =
     (if MAX_CUSTOM_SOUND_BYTES < length data
      then Some (Inl (SoundTooLarge (length data) MAX_CUSTOM_SOUND_BYTES), w)
      else (case sniff_format data of
        Inl e \<Rightarrow> Some (Inl e, w)
      | Inr format \<Rightarrow>
          (case from_bytes_decode sy data (Some (format_ext format)) of
             None \<Rightarrow> None
           | Some (Inl e) \<Rightarrow> Some (Inl e, w)
           | Some (Inr _) \<Rightarrow>
               (case fa_create_dir_all api (custom_dir lib) w of
                  (Inl e, w1) \<Rightarrow> Some (Inl (AudioIo e), w1)
                | (Inr _, w1) \<Rightarrow>
                    (let sid = make_custom_id clk name;
                         p = path_join (custom_dir lib) (sid @ ''.'' @ format_ext format);
                         tmp = path_with_extension p (format_ext format @ ''.tmp'')
                     in case fa_write api tmp data w1 of
                          (Inl e, w2) \<Rightarrow> Some (Inl (AudioIo e), w2)
                        | (Inr _, w2) \<Rightarrow>
                            (case fa_rename api tmp p w2 of
                               (Inl e, w3) \<Rightarrow> Some (Inl (AudioIo e), w3)
                             | (Inr _, w3) \<Rightarrow> Some (Inr (''custom:'' @ sid), w3)))))))"

fun remove_variants ::
  "'w fs_api \<Rightarrow> path \<Rightarrow> string \<Rightarrow> string list \<Rightarrow> bool \<Rightarrow> 'w \<Rightarrow> (audio_error + bool) \<times> 'w" where
  "remove_variants api dir sid [] removed_any w = (Inr removed_any, w)"
| "remove_variants api dir sid (ext # exts) removed_any w =
     (let p = path_join dir (sid @ ''.'' @ ext) in
      if path_exists (fa_view api w) p
      then (case fa_remove_file api p w of
              (Inl e, w') \<Rightarrow> (Inl (AudioIo e), w')
            | (Inr _, w') \<Rightarrow> remove_variants api dir sid exts True w')
      else remove_variants api dir sid exts removed_any w)"

definition unregister_sound ::
  "'w fs_api \<Rightarrow> sound_library \<Rightarrow> string \<Rightarrow> 'w \<Rightarrow> (audio_error + unit) \<times> 'w" where
  "unregister_sound api lib sid w =
     (case strip_prefix ''custom:'' sid of
        None \<Rightarrow> (Inl (InvalidSoundId sid), w)
      | Some name \<Rightarrow>
          (case remove_variants api (custom_dir lib) name [''wav'', ''flac''] False w of
             (Inl e, w') \<Rightarrow> (Inl e, w')
           | (Inr removed_any, w') \<Rightarrow> (if removed_any then Inr () else Inl (UnknownSound sid), w')))"

definition load_decoded ::
  "'w fs_api \<Rightarrow> (bytes, 'fmt, 'dec, 'pkt) symphonia_api \<Rightarrow> sound_library \<Rightarrow> string \<Rightarrow> 'w \<Rightarrow>
   (audio_error + decoded_sound) option" where
  "load_decoded api sy lib sid w =
     (case resolve_path (fa_view api w) lib sid of
        Inl e \<Rightarrow> Some (Inl e)
      | Inr p \<Rightarrow> from_path_decode sy (fa_open api w) p)"

section \<open>Custom ids\<close>

definition id_char :: "char \<Rightarrow> bool" where
  "id_char c \<longleftrightarrow>
     (let n = of_char c :: nat in 48 \<le> n \<and> n \<le> 57 \<or> 97 \<le> n \<and> n \<le> 122) \<or> c = CHR ''-'' \<or> c = CHR ''_''"

lemma hex_digit_char: "n < 16 \<Longrightarrow> id_char (''0123456789abcdef'' ! n)"
proof -
  assume "n < 16"
  then have "''0123456789abcdef'' ! n \<in> set ''0123456789abcdef''" by (intro nth_mem) simp
  moreover have "list_all id_char ''0123456789abcdef''" by (simp add: id_char_def Let_def)
  ultimately show ?thesis by (auto simp: list_all_iff)
qed

lemma to_hex_chars: "list_all id_char (to_hex n)"
proof (induction n rule: to_hex.induct)
  case (1 n)
  then show ?case by (subst to_hex.simps) (auto simp: hex_digit_char simp del: nth_Cons_numeral)
qed

lemma clean_name_chars: "list_all id_char (clean_name s)"
proof (induction s)
  case (Cons c s)
  have "id_char (to_ascii_lowercase c)" if "is_ascii_alphanumeric c"
    using that by (auto simp: id_char_def is_ascii_alphanumeric_def to_ascii_lowercase_def Let_def)
  with Cons show ?case by (auto simp: id_char_def)
qed simp

lemma custom_id_chars: "list_all id_char (make_custom_id clk name)" "make_custom_id clk name \<noteq> []"
  by (simp_all add: make_custom_id_def Let_def clean_name_chars to_hex_chars) (simp add: id_char_def Let_def)

lemma id_char_plain: "id_char c \<Longrightarrow> c \<noteq> CHR ''/'' \<and> c \<noteq> CHR ''.'' \<and> of_char c < (128 :: nat)"
  by (auto simp: id_char_def Let_def)

lemma id_chars_rust_str: "list_all id_char s \<Longrightarrow> rust_str s"
  unfolding rust_str_def by (rule utf8_valid_ascii) (auto simp: list_all_iff dest: id_char_plain)

lemma custom_id_plain:
  "CHR ''/'' \<notin> set (make_custom_id clk name)" "CHR ''.'' \<notin> set (make_custom_id clk name)"
  "rust_str (make_custom_id clk name)"
proof -
  have "\<forall>c \<in> set (make_custom_id clk name). c \<noteq> CHR ''/'' \<and> c \<noteq> CHR ''.''"
    using custom_id_chars(1)[of clk name] id_char_plain by (simp add: list_all_iff)
  then show "CHR ''/'' \<notin> set (make_custom_id clk name)" "CHR ''.'' \<notin> set (make_custom_id clk name)" by blast+
  show "rust_str (make_custom_id clk name)" using custom_id_chars(1) by (rule id_chars_rust_str)
qed

section \<open>File names\<close>

lemma sound_file_entry:
  assumes "2 \<le> length ext" "CHR ''/'' \<notin> set name" "CHR ''/'' \<notin> set ext"
  shows "entry_name (name @ ''.'' @ ext)"
proof -
  have long: "n \<noteq> ''.'' \<and> n \<noteq> ''..''" if "3 \<le> length n" for n :: string using that by auto
  have "3 \<le> length (name @ ''.'' @ ext)" using assms(1) by simp
  from long[OF this] have "name @ ''.'' @ ext \<noteq> ''.''" "name @ ''.'' @ ext \<noteq> ''..''" by blast+
  with assms(2,3) show ?thesis by (simp add: entry_name_def)
qed

lemma variant_entry: "CHR ''/'' \<notin> set name \<Longrightarrow> ext \<in> {''wav'', ''flac''} \<Longrightarrow> entry_name (name @ ''.'' @ ext)"
  by (rule sound_file_entry) auto

lemma tmp_entry: "CHR ''/'' \<notin> set name \<Longrightarrow> ext \<in> {''wav'', ''flac''} \<Longrightarrow> entry_name (name @ ''.'' @ ext @ ''.tmp'')"
  by (rule sound_file_entry) auto

lemma path_join_entry: "\<exists>pre. \<forall>n. entry_name n \<longrightarrow> path_join d n = pre @ n"
  by (cases "d = []"; cases "last d = CHR ''/''")
     (auto simp: path_join_def entry_not_absolute intro: exI[of _ "[]"] exI[of _ d] exI[of _ "d @ ''/''"])

lemma with_extension_entry:
  assumes "name \<noteq> []" "CHR ''/'' \<notin> set name" "ext \<in> {''wav'', ''flac''}"
  shows "path_with_extension (path_join d (name @ ''.'' @ ext)) (ext @ ''.tmp'') =
    path_join d (name @ ''.'' @ ext @ ''.tmp'')"
proof -
  let ?n = "name @ ''.'' @ ext"
  have n: "entry_name ?n" "entry_name (name @ ''.'' @ ext @ ''.tmp'')"
    using variant_entry tmp_entry assms(2,3) by blast+
  obtain pre where pre: "path_join d ?n = pre @ ?n"
    "path_join d (name @ ''.'' @ ext @ ''.tmp'') = pre @ name @ ''.'' @ ext @ ''.tmp''"
    using path_join_entry n by metis
  have "trim_rev (rev (pre @ ?n)) = rev (pre @ ?n)" using assms(3) by auto
  moreover have "split_at_dot ?n = (name, Some ext)" using assms by (intro split_at_dot_append) auto
  moreover have "file_name (pre @ ?n) = Some ?n" using file_name_join_entry[OF n(1), of d] unfolding pre(1) .
  ultimately show ?thesis
    unfolding pre path_with_extension_def by (simp add: Let_def)
qed

text \<open>Which names of a directory the listing takes, and under which stem.\<close>

definition sound_name :: "path \<Rightarrow> string \<Rightarrow> string \<Rightarrow> bool" where
  "sound_name d n stem \<longleftrightarrow>
     format_from_path (path_join d n) \<noteq> None \<and> Option.bind (file_stem (path_join d n)) os_to_str = Some stem"

lemma variant_sound_name:
  assumes "name \<noteq> []" "CHR ''/'' \<notin> set name" "rust_str name" "ext \<in> {''wav'', ''flac''}"
  shows "sound_name d (name @ ''.'' @ ext) name"
proof -
  have "split_at_dot (name @ ''.'' @ ext) = (name, Some ext)" using assms by (intro split_at_dot_append) auto
  moreover have "os_to_str ext = Some ext" using assms(4) by (auto simp: os_to_str_def rust_str_def)
  ultimately show ?thesis
    using assms variant_entry[OF assms(2,4)]
    by (auto simp: sound_name_def format_from_path_def extension_def file_stem_def os_to_str_def)
qed

lemma tmp_not_sound:
  assumes "CHR ''/'' \<notin> set name" "ext \<in> {''wav'', ''flac''}"
  shows "\<not> sound_name d (name @ ''.'' @ ext @ ''.tmp'') stem"
proof -
  have "split_at_dot ((name @ ''.'' @ ext) @ ''.'' @ ''tmp'') = (name @ ''.'' @ ext, Some ''tmp'')"
    by (rule split_at_dot_append) auto
  then show ?thesis
    using tmp_entry[OF assms]
    by (auto simp: sound_name_def format_from_path_def extension_def os_to_str_def rust_str_def)
qed

lemma tmp_not_variant: "ext \<in> {''wav'', ''flac''} \<Longrightarrow> x \<in> {''wav'', ''flac''} \<Longrightarrow> name @ ''.'' @ ext \<noteq> other @ ''.'' @ x @ ''.tmp''"
proof
  assume e: "ext \<in> {''wav'', ''flac''}" and "name @ ''.'' @ ext = other @ ''.'' @ x @ ''.tmp''"
  then have "last (name @ ''.'' @ ext) = last (other @ ''.'' @ x @ ''.tmp'')" by simp
  with e show False by auto
qed

section \<open>Effects on the custom directory\<close>

text \<open>The entries of a directory after it has been created.\<close>

definition ents_or_empty :: "(string \<rightharpoonup> node) option \<Rightarrow> (string \<rightharpoonup> node)" where
  "ents_or_empty x = (case x of Some m \<Rightarrow> m | None \<Rightarrow> Map.empty)"

lemma ents_or_empty_simps [simp]: "ents_or_empty (Some m) = m" "ents_or_empty None = Map.empty"
  by (simp_all add: ents_or_empty_def)

lemma format_ext_cases: "format_ext f \<in> {''wav'', ''flac''}"
  by (cases f) (simp_all add: format_ext_def)

context file_system
begin

lemma entry_exists:
  "entry_name n \<Longrightarrow> path_exists (fa_view api w) (path_join d n) \<longleftrightarrow> ents_or_empty (ents w d) n \<noteq> None"
  using exists_entry[of n w d] by (cases "ents w d") auto

lemma dir_ids_ents:
  "dir_ids (fa_view api w) d src =
    {sound_id src stem | n stem. n \<in> dom (ents_or_empty (ents w d)) \<and> sound_name d n stem}"
proof (cases "ents w d")
  case None
  then obtain e where "fs_read_dir (fa_view api w) d = Inl e" using no_listing by blast
  with None show ?thesis by (simp add: dir_ids_def)
next
  case (Some m)
  obtain es where es: "fs_read_dir (fa_view api w) d = Inr (map Inr es)" "set es = dom m" "list_all entry_name es"
    using listing[OF Some] by blast
  have "(\<exists>len. sound_entry (fa_view api w) d n stem len) \<longleftrightarrow> sound_name d n stem" if "n \<in> set es" for n stem
  proof -
    have "entry_name n" using es(3) that by (simp add: list_all_iff)
    then have "path_exists (fa_view api w) (path_join d n)" using that es(2) Some by (auto simp: entry_exists)
    then have "\<exists>len. fs_metadata (fa_view api w) (path_join d n) = Inr len"
      by (auto simp: path_exists_def split: sum.splits)
    then show ?thesis by (auto simp: sound_entry_def sound_name_def)
  qed
  then have "{sound_id src stem | n stem len. n \<in> set es \<and> sound_entry (fa_view api w) d n stem len}
      = {sound_id src stem | n stem. n \<in> set es \<and> sound_name d n stem}" by blast
  with es Some show ?thesis by (auto simp: dir_ids_def image_iff)
qed

lemma resolve_ents:
  assumes "CHR ''/'' \<notin> set name"
  shows "resolve_path (fa_view api w) lib (sound_id Custom name) =
    (if ents_or_empty (ents w (custom_dir lib)) (name @ ''.wav'') \<noteq> None then Inr (path_join (custom_dir lib) (name @ ''.wav''))
     else if ents_or_empty (ents w (custom_dir lib)) (name @ ''.flac'') \<noteq> None
       then Inr (path_join (custom_dir lib) (name @ ''.flac''))
     else Inl (UnknownSound (sound_id Custom name)))"
  using entry_exists[OF variant_entry[OF assms], of "''wav''" w] entry_exists[OF variant_entry[OF assms], of "''flac''" w]
  unfolding resolve_sound_id resolve_in_def by (auto simp: sound_id_def source_prefix_def Let_def)

text \<open>A registration step by step.\<close>

lemma register_cases:
  assumes "register_sound api sy lib clk name data w = Some (r, w')"
  obtains (early) e where "r = Inl e" "w' = w"
  | (mkdir) e where "r = Inl e" "ents w' (custom_dir lib) = ents w (custom_dir lib)"
  | (tmp) e ext x where "r = Inl e" "ext \<in> {''wav'', ''flac''}"
      "ents w' (custom_dir lib) = Some ((ents_or_empty (ents w (custom_dir lib)))
         (make_custom_id clk name @ ''.'' @ ext @ ''.tmp'' := x))"
  | (ok) f s where "sniff_format data = Inr f" "from_bytes_decode sy data (Some (format_ext f)) = Some (Inr s)"
      "r = Inr (sound_id Custom (make_custom_id clk name))"
      "ents w' (custom_dir lib) = Some ((ents_or_empty (ents w (custom_dir lib)))
         (make_custom_id clk name @ ''.'' @ format_ext f @ ''.tmp'' := None,
          make_custom_id clk name @ ''.'' @ format_ext f \<mapsto> FileNode data))"
proof -
  let ?id = "make_custom_id clk name" and ?d = "custom_dir lib"
  let ?m = "ents_or_empty (ents w ?d)"
  show thesis
  proof (cases "length data \<le> MAX_CUSTOM_SOUND_BYTES \<and> (\<exists>f s. sniff_format data = Inr f
      \<and> from_bytes_decode sy data (Some (format_ext f)) = Some (Inr s))")
    case False
    then show thesis
      using assms early
      by (auto simp: register_sound_def split: if_splits sum.splits option.splits)
  next
    case True
    then obtain f s where fs: "sniff_format data = Inr f"
      "from_bytes_decode sy data (Some (format_ext f)) = Some (Inr s)" by blast
    let ?n = "?id @ ''.'' @ format_ext f" and ?t = "?id @ ''.'' @ format_ext f @ ''.tmp''"
    note ext = format_ext_cases[of f] and plain = custom_id_plain[of clk name]
    have ne: "entry_name ?n" "entry_name ?t" "?t \<noteq> ?n"
      using variant_entry[OF plain(1) ext] tmp_entry[OF plain(1) ext] tmp_not_variant[OF ext ext] by metis+
    have wx: "path_with_extension (path_join ?d ?n) (format_ext f @ ''.tmp'') = path_join ?d ?t"
      by (rule with_extension_entry[OF custom_id_chars(2) plain(1) ext])
    obtain r1 w1 where c: "fa_create_dir_all api ?d w = (r1, w1)" by fastforce
    show thesis
    proof (cases r1)
      case (Inl e)
      with assms True fs c create_fail[of ?d w e w1] mkdir show thesis
        by (auto simp: register_sound_def)
    next
      case (Inr u1)
      then have e1: "ents w1 ?d = Some ?m" using create_ok c by (auto simp: ents_or_empty_def)
      obtain r2 w2 where w2: "fa_write api (path_join ?d ?t) data w1 = (r2, w2)" by fastforce
      show thesis
      proof (cases r2)
        case (Inl e)
        obtain x where "ents w2 ?d = Some (?m(?t := x))"
          using write_fail[OF e1 ne(2)] w2 Inl by blast
        moreover have "r = Inl (AudioIo e)" "w' = w2"
          using assms True fs c Inr w2 Inl wx by (auto simp: register_sound_def Let_def)
        ultimately show thesis using ext by (intro tmp) auto
      next
        case (Inr u2)
        then have e2: "ents w2 ?d = Some (?m(?t \<mapsto> FileNode data))" using write_ok[OF e1 ne(2)] w2 by blast
        obtain r3 w3 where w3: "fa_rename api (path_join ?d ?t) (path_join ?d ?n) w2 = (r3, w3)" by fastforce
        have res: "(r, w') = (case r3 of Inl e \<Rightarrow> (Inl (AudioIo e), w3) | Inr _ \<Rightarrow> (Inr (''custom:'' @ ?id), w3))"
          using assms True fs c w2 w3 Inr \<open>r1 = Inr u1\<close> wx
          by (auto simp: register_sound_def Let_def split: sum.splits)
        show thesis
        proof (cases r3)
          case (Inl e)
          then have "ents w3 ?d = Some (?m(?t \<mapsto> FileNode data))"
            using rename_fail[OF e2 ne(2,1)] w3 by blast
          then show thesis using Inl res ext by (intro tmp) auto
        next
          case (Inr u3)
          then have "ents w3 ?d = Some (?m(?t \<mapsto> FileNode data, ?t := None, ?n \<mapsto> FileNode data))"
            using rename_ok[OF e2 ne(2,1,3), of data] w3 by simp
          then show thesis using Inr res fs by (intro ok) (auto simp: sound_id_def source_prefix_def)
        qed
      qed
    qed
  qed
qed

lemma ids_ents_cong:
  assumes "\<And>n stem. sound_name d n stem \<Longrightarrow> ents_or_empty (ents w' d) n = ents_or_empty (ents w d) n"
  shows "dir_ids (fa_view api w') d src = dir_ids (fa_view api w) d src"
  using assms unfolding dir_ids_ents by (auto simp: dom_def) metis+

lemma resolve_ents_cong:
  assumes "CHR ''/'' \<notin> set name"
    and "\<And>ext. ext \<in> {''wav'', ''flac''} \<Longrightarrow>
      ents_or_empty (ents w' (custom_dir lib)) (name @ ''.'' @ ext) =
      ents_or_empty (ents w (custom_dir lib)) (name @ ''.'' @ ext)"
  shows "resolve_path (fa_view api w') lib (sound_id Custom name) =
    resolve_path (fa_view api w) lib (sound_id Custom name)"
  using assms(2)[of "''wav''"] assms(2)[of "''flac''"] unfolding resolve_ents[OF assms(1)] by simp

lemma register_failed:
  assumes "register_sound api sy lib clk name data w = Some (Inl e, w')"
  obtains "ents_or_empty (ents w' (custom_dir lib)) = ents_or_empty (ents w (custom_dir lib))"
  | ext where "ext \<in> {''wav'', ''flac''}" "\<And>n. n \<noteq> make_custom_id clk name @ ''.'' @ ext @ ''.tmp'' \<Longrightarrow>
      ents_or_empty (ents w' (custom_dir lib)) n = ents_or_empty (ents w (custom_dir lib)) n"
  using assms by (cases rule: register_cases) auto

lemma register_failed_invisible:
  assumes "register_sound api sy lib clk name data w = Some (Inl e, w')"
  shows "dir_ids (fa_view api w') (custom_dir lib) Custom = dir_ids (fa_view api w) (custom_dir lib) Custom"
    and "CHR ''/'' \<notin> set other \<Longrightarrow> resolve_path (fa_view api w') lib (sound_id Custom other) =
      resolve_path (fa_view api w) lib (sound_id Custom other)"
proof -
  note plain = custom_id_plain(1)[of clk name]
  from assms show "dir_ids (fa_view api w') (custom_dir lib) Custom = dir_ids (fa_view api w) (custom_dir lib) Custom"
  proof (cases rule: register_failed)
    case (2 ext)
    show ?thesis
      using 2(2) tmp_not_sound[OF plain 2(1)] by (intro ids_ents_cong) metis
  next
    case 1
    then show ?thesis by (intro ids_ents_cong) simp
  qed
  from assms show "resolve_path (fa_view api w') lib (sound_id Custom other) =
      resolve_path (fa_view api w) lib (sound_id Custom other)" if "CHR ''/'' \<notin> set other"
  proof (cases rule: register_failed)
    case (2 ext)
    show ?thesis
      using 2(2) tmp_not_variant[OF _ 2(1)] by (intro resolve_ents_cong[OF that]) metis
  next
    case 1
    then show ?thesis by (intro resolve_ents_cong[OF that]) simp
  qed
qed

text \<open>Removal: on success all variants are gone, on an error some may be; nothing else changes.\<close>

lemma remove_one:
  assumes "entry_name n" "fa_remove_file api (path_join d n) w = (r, w')" "ents_or_empty (ents w d) n \<noteq> None"
  shows "ents_or_empty (ents w' d) = (case r of Inr _ \<Rightarrow> (ents_or_empty (ents w d))(n := None) | Inl _ \<Rightarrow> ents_or_empty (ents w d))"
proof (cases "ents w d")
  case (Some m)
  with assms remove_ok[OF Some assms(1)] remove_fail[OF Some assms(1)] show ?thesis
    by (auto split: sum.split)
qed (use assms(3) in simp)

lemma remove_variants_effect:
  assumes "remove_variants api d name exts b w = (r, w')" "CHR ''/'' \<notin> set name" "set exts \<subseteq> {''wav'', ''flac''}"
  shows "(\<forall>n. (\<forall>ext \<in> set exts. n \<noteq> name @ ''.'' @ ext) \<longrightarrow> ents_or_empty (ents w' d) n = ents_or_empty (ents w d) n)
    \<and> (\<forall>n. ents_or_empty (ents w d) n = None \<longrightarrow> ents_or_empty (ents w' d) n = None)
    \<and> (case r of
         Inr b' \<Rightarrow> (\<forall>ext \<in> set exts. ents_or_empty (ents w' d) (name @ ''.'' @ ext) = None)
           \<and> (b' \<longleftrightarrow> b \<or> (\<exists>ext \<in> set exts. ents_or_empty (ents w d) (name @ ''.'' @ ext) \<noteq> None))
           \<and> (b' \<or> w' = w)
       | Inl e \<Rightarrow> \<exists>x. e = AudioIo x)"
  using assms
proof (induction exts arbitrary: b w)
  case Nil
  then show ?case by auto
next
  case (Cons ext exts)
  let ?n = "name @ ''.'' @ ext"
  have n: "entry_name ?n" using variant_entry Cons.prems(2,3) by simp
  show ?case
  proof (cases "ents_or_empty (ents w d) ?n = None")
    case True
    then have "remove_variants api d name exts b w = (r, w')"
      using Cons.prems(1) entry_exists[OF n] by (simp add: Let_def)
    from Cons.IH[OF this Cons.prems(2)] Cons.prems(3) True show ?thesis by (auto split: sum.splits)
  next
    case False
    then have ex: "path_exists (fa_view api w) (path_join d ?n)" using entry_exists[OF n] by simp
    obtain r1 w1 where w1: "fa_remove_file api (path_join d ?n) w = (r1, w1)" by fastforce
    note eff = remove_one[OF n w1 False]
    show ?thesis
    proof (cases r1)
      case (Inl e)
      with Cons.prems(1) ex w1 have "r = Inl (AudioIo e)" "w' = w1" by (simp_all add: Let_def)
      with eff Inl show ?thesis by simp
    next
      case (Inr u)
      with Cons.prems(1) ex w1 have "remove_variants api d name exts True w1 = (r, w')" by (simp add: Let_def)
      from Cons.IH[OF this Cons.prems(2)] Cons.prems(3) eff Inr False show ?thesis
        by (auto split: sum.splits if_splits)
    qed
  qed
qed

lemma unregister_effect:
  assumes "unregister_sound api lib (sound_id Custom name) w = (r, w')" "CHR ''/'' \<notin> set name"
  shows "(\<forall>n. n \<noteq> name @ ''.wav'' \<longrightarrow> n \<noteq> name @ ''.flac'' \<longrightarrow>
        ents_or_empty (ents w' (custom_dir lib)) n = ents_or_empty (ents w (custom_dir lib)) n)
    \<and> (case r of
         Inr _ \<Rightarrow> resolve_path (fa_view api w') lib (sound_id Custom name) = Inl (UnknownSound (sound_id Custom name))
           \<and> (\<exists>p. resolve_path (fa_view api w) lib (sound_id Custom name) = Inr p)
           \<and> (\<forall>ext \<in> {''wav'', ''flac''}. ents_or_empty (ents w' (custom_dir lib)) (name @ ''.'' @ ext) = None)
       | Inl e \<Rightarrow> (\<exists>x. e = AudioIo x) \<or> e = UnknownSound (sound_id Custom name) \<and> w' = w
           \<and> resolve_path (fa_view api w) lib (sound_id Custom name) = Inl e)"
proof -
  obtain r1 w1 where rv: "remove_variants api (custom_dir lib) name [''wav'', ''flac''] False w = (r1, w1)" by fastforce
  note eff = remove_variants_effect[OF rv assms(2)]
  have "strip_prefix ''custom:'' (sound_id Custom name) = Some name"
    using strip_prefix_append[of "''custom:''" name] by (simp add: sound_id_def source_prefix_def)
  then have "(r, w') = (case r1 of Inl e \<Rightarrow> (Inl e, w1)
      | Inr b \<Rightarrow> (if b then Inr () else Inl (UnknownSound (sound_id Custom name)), w1))"
    using assms(1) rv by (auto simp: unregister_sound_def split: sum.splits)
  with eff show ?thesis
    unfolding resolve_ents[OF assms(2)] by (cases r1) (auto split: if_splits)
qed

lemma registered_effect:
  assumes "register_sound api sy lib clk name data w = Some (Inr sid, w')"
    and "\<not> path_exists (fa_view api w) (path_join (custom_dir lib) (make_custom_id clk name @ ''.wav''))"
  obtains f s p where "sid = sound_id Custom (make_custom_id clk name)"
    "sniff_format data = Inr f" "from_bytes_decode sy data (Some (format_ext f)) = Some (Inr s)"
    "p = path_join (custom_dir lib) (make_custom_id clk name @ ''.'' @ format_ext f)"
    "resolve_path (fa_view api w') lib sid = Inr p" "load_decoded api sy lib sid w' = Some (Inr s)"
    "sid \<in> dir_ids (fa_view api w') (custom_dir lib) Custom"
    "ents w' (custom_dir lib) = Some ((ents_or_empty (ents w (custom_dir lib)))
         (make_custom_id clk name @ ''.'' @ format_ext f @ ''.tmp'' := None,
          make_custom_id clk name @ ''.'' @ format_ext f \<mapsto> FileNode data))"
  using assms(1)
proof (cases rule: register_cases)
  case (ok f s)
  let ?id = "make_custom_id clk name" and ?d = "custom_dir lib"
  note plain = custom_id_plain[of clk name] and ne = custom_id_chars(2)[of clk name]
  let ?p = "path_join ?d (?id @ ''.'' @ format_ext f)"
  have n: "entry_name (?id @ ''.'' @ format_ext f)" using variant_entry[OF plain(1) format_ext_cases] .
  have sid: "sid = sound_id Custom ?id" using ok(3) by simp
  have wav: "ents_or_empty (ents w ?d) (?id @ ''.wav'') = None"
    using assms(2) entry_exists[OF variant_entry[OF plain(1)], of "''wav''" w ?d] by simp
  have res: "resolve_path (fa_view api w') lib sid = Inr ?p"
    unfolding sid resolve_ents[OF plain(1)] ok(4) ents_or_empty_simps
    using wav by (cases f) (auto simp: format_ext_def)
  have "fa_open api w' ?p = Inr data" using opened[OF ok(4) n] by simp
  moreover have "extension ?p = Some (format_ext f)" "rust_str (format_ext f)"
    using split_at_dot_append[OF ne, of "format_ext f"] n by (cases f; simp add: extension_def format_ext_def rust_str_def)+
  ultimately have "load_decoded api sy lib sid w' = Some (Inr s)"
    using ok(2) res by (simp add: load_decoded_def from_path_decode_def from_bytes_decode_def)
  moreover have "sid \<in> dir_ids (fa_view api w') ?d Custom"
    using variant_sound_name[OF ne plain(1,3) format_ext_cases, of ?d f]
    unfolding dir_ids_ents ok(4) sid by fastforce
  ultimately show thesis using that ok sid res by blast
qed auto

lemma register_unregister:
  assumes "register_sound api sy lib clk name data w = Some (Inr sid, w1)"
    and "\<forall>ext \<in> {''wav'', ''flac''}.
      \<not> path_exists (fa_view api w) (path_join (custom_dir lib) (make_custom_id clk name @ ''.'' @ ext))"
    and "unregister_sound api lib sid w1 = (Inr u, w2)"
  shows "resolve_path (fa_view api w2) lib sid = Inl (UnknownSound sid)
    \<and> dir_ids (fa_view api w2) (custom_dir lib) Custom = dir_ids (fa_view api w) (custom_dir lib) Custom"
proof -
  let ?id = "make_custom_id clk name" and ?d = "custom_dir lib"
  note plain = custom_id_plain(1)[of clk name]
  have fresh: "ents_or_empty (ents w ?d) (?id @ ''.'' @ ext) = None" if "ext \<in> {''wav'', ''flac''}" for ext
    using bspec[OF assms(2) that] entry_exists[OF variant_entry[OF plain that]] by simp
  have "\<not> path_exists (fa_view api w) (path_join ?d (?id @ ''.wav''))" using assms(2) by simp
  then obtain f where reg: "sid = sound_id Custom ?id"
    "ents w1 ?d = Some ((ents_or_empty (ents w ?d))(?id @ ''.'' @ format_ext f @ ''.tmp'' := None,
          ?id @ ''.'' @ format_ext f \<mapsto> FileNode data))"
    using registered_effect[OF assms(1)] by metis
  note un = unregister_effect[OF assms(3)[unfolded reg(1)] plain, unfolded reg(2) ents_or_empty_simps]
  have "ents_or_empty (ents w2 ?d) n = ents_or_empty (ents w ?d) n" if "sound_name ?d n stem" for n stem
  proof (cases "n = ?id @ ''.wav'' \<or> n = ?id @ ''.flac''")
    case True
    then show ?thesis using un fresh[of "''wav''"] fresh[of "''flac''"] by auto
  next
    case False
    moreover have "n \<noteq> ?id @ ''.'' @ format_ext f @ ''.tmp''"
      using that tmp_not_sound[OF plain format_ext_cases] by metis
    moreover have "n \<noteq> ?id @ ''.'' @ format_ext f" using False by (cases f) (auto simp: format_ext_def)
    ultimately show ?thesis using un by simp
  qed
  from ids_ents_cong[of ?d w2 w, OF this] un reg(1) show ?thesis by simp
qed

end

section \<open>Properties\<close>

text \<open>A concrete disk and decoder for the witnesses: \<open>/b\<close> and an empty \<open>/c\<close>, files that decode to one
  sample.\<close>

definition demo_tree :: tree where
  "demo_tree = Dir [(''b'', Dir []), (''c'', Dir [])]"

definition bytes_sym :: "(bytes, nat, unit, unit) symphonia_api" where
  "bytes_sym =
     \<lparr>sy_probe = (\<lambda>_ _. Inr 0),
      sy_default_track = (\<lambda>_. Some \<lparr>tr_id = 0, tr_params = \<lparr>cp_sample_rate = Some 8000, cp_channels = Some 1\<rparr>\<rparr>),
      sy_make = (\<lambda>_. Inr ()),
      sy_next_packet = (\<lambda>n. if n = 0 then (Inr (), 1) else (Inl SymUnexpectedEof, n)),
      sy_track_id = (\<lambda>_. 0),
      sy_decode = (\<lambda>d _. (Inr [FFin 1], d))\<rparr>"

definition riff :: bytes where
  "riff = as_bytes ''RIFF....WAVE''"

lemma bytes_sym_decode: "from_bytes_decode bytes_sym b e = Some (Inr \<lparr>ds_samples = [FFin 1], ds_channels = 1, ds_sample_rate = 8000\<rparr>)"
  by (simp add: from_bytes_decode_def decode_def bytes_sym_def channel_count_def packet_loop.simps
      bind_r_def finish_decode_def)

lemma riff_wav: "sniff_format riff = Inr Wav" "length riff = 12"
  by (simp_all add: sniff_format_def riff_def as_bytes_def)

lemma demo_custom_id: "make_custom_id 31 ''A b'' = ''ab-1f''"
  by code_simp



text \<open>Removal, on every outcome.  For an id whose name is a plain file name: on success the id
  resolved before and is unknown afterwards, even if both a WAV and a FLAC file existed; otherwise
  either the id was unknown and nothing has changed, or the file system reported an error.  No other
  id of the library is affected.\<close>

lemma unregister_exact:
  assumes "file_system api ents" and "CHR ''/'' \<notin> set name"
    and "unregister_sound api lib (sound_id Custom name) w = (r, w')"
  shows "(case r of
      Inr _ \<Rightarrow> (\<exists>p. resolve_path (fa_view api w) lib (sound_id Custom name) = Inr p)
        \<and> resolve_path (fa_view api w') lib (sound_id Custom name) = Inl (UnknownSound (sound_id Custom name))
    | Inl e \<Rightarrow> (\<exists>x. e = AudioIo x) \<or> e = UnknownSound (sound_id Custom name) \<and> w' = w
        \<and> resolve_path (fa_view api w) lib (sound_id Custom name) = Inl e)
    \<and> (\<forall>other. CHR ''/'' \<notin> set other \<and> other \<noteq> name \<longrightarrow>
        resolve_path (fa_view api w') lib (sound_id Custom other) =
        resolve_path (fa_view api w) lib (sound_id Custom other))"
proof -
  note un = file_system.unregister_effect[OF assms(1,3,2)]
  have "resolve_path (fa_view api w') lib (sound_id Custom other) = resolve_path (fa_view api w) lib (sound_id Custom other)"
    if "CHR ''/'' \<notin> set other" "other \<noteq> name" for other
    using un that(2) by (intro file_system.resolve_ents_cong[OF assms(1) that(1)]) auto
  with un show ?thesis by (auto split: sum.splits)
qed

lemma unregister_exact_example:
  "\<exists>w'. unregister_sound mem_fs demo_lib ''custom:dup''
      (Dir [(''c'', Dir [(''dup.wav'', File riff), (''dup.flac'', File [])])]) = (Inr (), w')
    \<and> resolve_path (fa_view mem_fs w') demo_lib ''custom:dup'' = Inl (UnknownSound ''custom:dup'')"
proof -
  have c: "components ''/c/dup.wav'' = [''c'', ''dup.wav'']" "components ''/c/dup.flac'' = [''c'', ''dup.flac'']"
    "path_join ''/c'' ''dup.wav'' = ''/c/dup.wav''" "path_join ''/c'' ''dup.flac'' = ''/c/dup.flac''"
    by code_simp+
  obtain w' where un: "unregister_sound mem_fs demo_lib (sound_id Custom ''dup'')
      (Dir [(''c'', Dir [(''dup.wav'', File riff), (''dup.flac'', File [])])]) = (Inr (), w')"
    by (simp add: unregister_sound_def sound_id_def source_prefix_def demo_lib_def Let_def c path_exists_def
        on_tree_def at_parent_def drop_file_def)
  from unregister_exact[OF memfs.file_system_axioms _ un] un show ?thesis
    by (auto simp: sound_id_def source_prefix_def)
qed

text \<open>A failed registration is invisible.  Whichever step fails, the custom directory contributes
  the same ids to the listing as before and every custom id with a plain name resolves as before: the
  only trace can be a \<open>.tmp\<close> file, which neither the listing nor the resolution takes.\<close>

lemma failed_registration_invisible:
  assumes "file_system api ents" and "register_sound api sy lib clk name data w = Some (Inl e, w')"
  shows "dir_ids (fa_view api w') (custom_dir lib) Custom = dir_ids (fa_view api w) (custom_dir lib) Custom
    \<and> (\<forall>other. CHR ''/'' \<notin> set other \<longrightarrow>
        resolve_path (fa_view api w') lib (sound_id Custom other) =
        resolve_path (fa_view api w) lib (sound_id Custom other))"
  using file_system.register_failed_invisible[OF assms] by blast

text \<open>A directory of the target's name makes the rename fail and leaves the temporary file.\<close>

lemma failed_registration_invisible_example:
  "\<exists>w'. register_sound mem_fs bytes_sym demo_lib 31 ''A b'' riff
        (Dir [(''c'', Dir [(''ab-1f.wav'', Dir [])])]) = Some (Inl (AudioIo ''EIO''), w')
    \<and> t_get w' [''c'', ''ab-1f.wav.tmp''] = Some (File riff)
    \<and> dir_ids (fa_view mem_fs w') ''/c'' Custom =
        dir_ids (fa_view mem_fs (Dir [(''c'', Dir [(''ab-1f.wav'', Dir [])])])) ''/c'' Custom"
proof -
  have c: "components ''/c'' = [''c'']" "components ''/c/ab-1f.wav'' = [''c'', ''ab-1f.wav'']"
    "components ''/c/ab-1f.wav.tmp'' = [''c'', ''ab-1f.wav.tmp'']"
    "path_with_extension ''/c/ab-1f.wav'' ''wav.tmp'' = ''/c/ab-1f.wav.tmp''"
    "path_join ''/c'' ''ab-1f.wav'' = ''/c/ab-1f.wav''"
    by code_simp+
  obtain w' where reg: "register_sound mem_fs bytes_sym demo_lib 31 ''A b'' riff
      (Dir [(''c'', Dir [(''ab-1f.wav'', Dir [])])]) = Some (Inl (AudioIo ''EIO''), w')"
    "t_get w' [''c'', ''ab-1f.wav.tmp''] = Some (File riff)"
    by (simp add: register_sound_def MAX_CUSTOM_SOUND_BYTES_def riff_wav bytes_sym_decode demo_custom_id
        demo_lib_def format_ext_def Let_def c on_tree_def at_parent_def put_file_def drop_file_def)
  from failed_registration_invisible[OF memfs.file_system_axioms reg(1)] reg show ?thesis
    by (auto simp: demo_lib_def)
qed

end
