(* ===== verification/Introspect.thy ===== *)
theory Introspect
  imports Client
begin

text \<open>
  The introspection check (\<open>tests/introspect_xml.rs\<close>): the extraction of one interface from the
  events of an XML document, the static schema \<open>data/dbus/org.helm.AlarmDaemon.Control.xml\<close> as such
  events, and what the schema promises of the control object.  The XML reader (quick-xml) is not
  part of the repository: a document is the sequence of its events.
\<close>

section \<open>Events\<close>

text \<open>The attributes of an element are those the reader could read, in order; a value that cannot be
  unescaped is \<open>None\<close>.  \<open>XOther\<close> is text, a comment, a declaration; \<open>XErr\<close> is a syntax error.\<close>

type_synonym attrs = "(string \<times> string option) list"

datatype xml_event =
    XStart string attrs
  | XEmpty string attrs
  | XEnd string
  | XOther
  | XErr string

definition attr :: "attrs \<Rightarrow> string \<Rightarrow> string option" where
  "attr as key = Option.bind (find (\<lambda>(k, _). k = key) as) snd"

section \<open>The extracted surface\<close>

record arg =
  arg_name :: "string option"
  arg_signature :: string
  arg_direction :: "string option"

record surface =
  sf_methods :: "(string \<times> arg list) list"
  sf_signals :: "(string \<times> arg list) list"

datatype member_kind = Method | Signal

definition insert_member :: "surface \<Rightarrow> member_kind \<Rightarrow> string \<Rightarrow> arg list \<Rightarrow> surface" where
  "insert_member sf kind name args =
     (case kind of
        Method \<Rightarrow> sf\<lparr>sf_methods := btree_insert name args (sf_methods sf)\<rparr>
      | Signal \<Rightarrow> sf\<lparr>sf_signals := btree_insert name args (sf_signals sf)\<rparr>)"

section \<open>\<open>parse_interface\<close>\<close>

record pstate =
  ps_surface :: surface
  ps_in_target :: bool
  ps_member :: "(member_kind \<times> string \<times> arg list) option"

definition or_default :: "string option \<Rightarrow> string" where
  "or_default x = (case x of Some s \<Rightarrow> s | None \<Rightarrow> [])"

definition parse_start :: "string \<Rightarrow> string \<Rightarrow> attrs \<Rightarrow> pstate \<Rightarrow> pstate" where
  "parse_start target n as p =
     (if n = ''interface'' \<and> attr as ''name'' = Some target then p\<lparr>ps_in_target := True\<rparr>
      else if n = ''method'' \<and> ps_in_target p
        then p\<lparr>ps_member := Some (Method, or_default (attr as ''name''), [])\<rparr>
      else if n = ''signal'' \<and> ps_in_target p
        then p\<lparr>ps_member := Some (Signal, or_default (attr as ''name''), [])\<rparr>
      else p)"

definition parse_empty :: "string \<Rightarrow> attrs \<Rightarrow> pstate \<Rightarrow> pstate" where
  "parse_empty n as p =
     (case (n = ''arg'', ps_member p) of
        (True, Some (kind, name, args)) \<Rightarrow>
          p\<lparr>ps_member := Some (kind, name,
              args @ [\<lparr>arg_name = attr as ''name'', arg_signature = or_default (attr as ''type''),
                       arg_direction = attr as ''direction''\<rparr>])\<rparr>
      | _ \<Rightarrow>
          if (n = ''method'' \<or> n = ''signal'') \<and> ps_in_target p
          then p\<lparr>ps_surface := insert_member (ps_surface p) (if n = ''method'' then Method else Signal)
                   (or_default (attr as ''name'')) []\<rparr>
          else p)"

definition parse_end :: "string \<Rightarrow> pstate \<Rightarrow> pstate" where
  "parse_end n p =
     (if n = ''interface'' then p\<lparr>ps_in_target := False\<rparr>
      else if n = ''method'' \<or> n = ''signal''
        then (case ps_member p of
                Some (kind, name, args) \<Rightarrow>
                  p\<lparr>ps_surface := insert_member (ps_surface p) kind name args, ps_member := None\<rparr>
              | None \<Rightarrow> p)
      else p)"

text \<open>The loop; a syntax error is a panic, the left value.\<close>

fun parse_events :: "string \<Rightarrow> xml_event list \<Rightarrow> pstate \<Rightarrow> string + pstate" where
  "parse_events target [] p = Inr p"
| "parse_events target (XErr e # es) p = Inl e"
| "parse_events target (XStart n as # es) p = parse_events target es (parse_start target n as p)"
| "parse_events target (XEmpty n as # es) p = parse_events target es (parse_empty n as p)"
| "parse_events target (XEnd n # es) p = parse_events target es (parse_end n p)"
| "parse_events target (XOther # es) p = parse_events target es p"

definition surface_empty :: surface where
  "surface_empty = \<lparr>sf_methods = [], sf_signals = []\<rparr>"

definition parse_interface :: "xml_event list \<Rightarrow> string \<Rightarrow> string + surface option" where
  "parse_interface xml target =
     (case parse_events target xml \<lparr>ps_surface = surface_empty, ps_in_target = False, ps_member = None\<rparr> of
        Inl e \<Rightarrow> Inl e
      | Inr p \<Rightarrow>
          Inr (if sf_methods (ps_surface p) = [] \<and> sf_signals (ps_surface p) = [] then None
               else Some (ps_surface p)))"

definition TARGET_INTERFACE :: string where
  "TARGET_INTERFACE = ''org.helm.AlarmDaemon.Control''"

section \<open>The static schema\<close>

definition static_schema :: "xml_event list" where
  "static_schema =
   [
    XOther, XOther, XOther,
    XStart ''node'' [(''xmlns:doc'', Some ''http://www.freedesktop.org/dbus/1.0/doc.dtd'')],
    XStart ''interface'' [(''name'', Some ''org.helm.AlarmDaemon.Control'')], XStart ''doc:doc'' [],
    XStart ''doc:description'' [], XStart ''doc:para'' [], XOther, XStart ''doc:tt'' [], XOther,
    XEnd ''doc:tt'', XOther, XStart ''doc:tt'' [], XOther, XEnd ''doc:tt'', XOther, XEnd ''doc:para'',
    XStart ''doc:para'' [], XOther, XStart ''doc:tt'' [], XOther, XEnd ''doc:tt'', XOther,
    XStart ''doc:tt'' [], XOther, XEnd ''doc:tt'', XOther, XEnd ''doc:para'', XEnd ''doc:description'',
    XEnd ''doc:doc'', XStart ''method'' [(''name'', Some ''Arm'')],
    XEmpty ''arg'' [(''name'', Some ''sound_id''), (''type'', Some ''s''), (''direction'', Some ''in'')],
    XStart ''doc:doc'' [], XStart ''doc:description'' [], XStart ''doc:para'' [], XOther,
    XStart ''doc:tt'' [], XOther, XEnd ''doc:tt'', XOther, XStart ''doc:i'' [], XOther, XEnd ''doc:i'',
    XOther, XEnd ''doc:para'', XStart ''doc:para'' [], XStart ''doc:tt'' [], XOther, XEnd ''doc:tt'', XOther,
    XEnd ''doc:para'', XStart ''doc:list'' [], XStart ''doc:item'' [], XStart ''doc:term'' [],
    XStart ''doc:tt'' [], XOther, XEnd ''doc:tt'', XEnd ''doc:term'', XEnd ''doc:item'',
    XStart ''doc:item'' [], XStart ''doc:term'' [], XStart ''doc:tt'' [], XOther, XEnd ''doc:tt'',
    XEnd ''doc:term'', XEnd ''doc:item'', XEnd ''doc:list'', XStart ''doc:para'' [], XOther,
    XStart ''doc:ref'' [(''type'', Some ''method''), (''to'', Some ''Control.ListSounds'')], XOther,
    XEnd ''doc:ref'', XOther, XStart ''doc:tt'' [], XOther, XEnd ''doc:tt'', XOther, XEnd ''doc:para'',
    XEnd ''doc:description'', XStart ''doc:errors'' [],
    XEmpty ''doc:error'' [(''name'', Some ''org.freedesktop.DBus.Error.InvalidArgs''), (''description'', Some ''sound_id is unknown or malformed'')],
    XEnd ''doc:errors'', XEnd ''doc:doc'', XEnd ''method'', XStart ''method'' [(''name'', Some ''Disarm'')],
    XStart ''doc:doc'' [], XStart ''doc:description'' [], XStart ''doc:para'' [], XOther,
    XStart ''doc:tt'' [], XOther, XEnd ''doc:tt'', XOther, XEnd ''doc:para'', XEnd ''doc:description'',
    XEnd ''doc:doc'', XEnd ''method'', XStart ''method'' [(''name'', Some ''Snooze'')],
    XEmpty ''arg'' [(''name'', Some ''duration_s''), (''type'', Some ''u''), (''direction'', Some ''in'')],
    XStart ''doc:doc'' [], XStart ''doc:description'' [], XStart ''doc:para'' [], XOther,
    XStart ''doc:tt'' [], XOther, XEnd ''doc:tt'', XOther, XEnd ''doc:para'', XEnd ''doc:description'',
    XStart ''doc:errors'' [],
    XEmpty ''doc:error'' [(''name'', Some ''org.freedesktop.DBus.Error.InvalidArgs''), (''description'', Some ''duration_s is zero'')],
    XEmpty ''doc:error'' [(''name'', Some ''org.freedesktop.DBus.Error.Failed''), (''description'', Some ''no sound is currently armed'')],
    XEnd ''doc:errors'', XEnd ''doc:doc'', XEnd ''method'', XStart ''method'' [(''name'', Some ''Dismiss'')],
    XStart ''doc:doc'' [], XStart ''doc:description'' [], XStart ''doc:para'' [], XOther,
    XStart ''doc:i'' [], XOther, XEnd ''doc:i'', XOther, XEnd ''doc:para'', XEnd ''doc:description'',
    XEnd ''doc:doc'', XEnd ''method'', XStart ''method'' [(''name'', Some ''Status'')],
    XEmpty ''arg'' [(''type'', Some ''b''), (''direction'', Some ''out'')], XStart ''doc:doc'' [],
    XStart ''doc:description'' [], XStart ''doc:para'' [], XOther, XStart ''doc:tt'' [], XOther,
    XEnd ''doc:tt'', XOther, XStart ''doc:tt'' [], XOther, XEnd ''doc:tt'', XOther,
    XStart ''doc:ref'' [(''type'', Some ''signal''), (''to'', Some ''Control.StateChanged'')], XOther,
    XEnd ''doc:ref'', XOther, XEnd ''doc:para'', XEnd ''doc:description'', XEnd ''doc:doc'', XEnd ''method'',
    XStart ''method'' [(''name'', Some ''CurrentSound'')],
    XEmpty ''arg'' [(''type'', Some ''s''), (''direction'', Some ''out'')], XStart ''doc:doc'' [],
    XStart ''doc:description'' [], XStart ''doc:para'' [], XOther, XStart ''doc:tt'' [], XOther,
    XEnd ''doc:tt'', XOther, XEnd ''doc:para'', XEnd ''doc:description'', XEnd ''doc:doc'', XEnd ''method'',
    XStart ''method'' [(''name'', Some ''ListSounds'')],
    XEmpty ''arg'' [(''type'', Some ''as''), (''direction'', Some ''out'')], XStart ''doc:doc'' [],
    XStart ''doc:description'' [], XStart ''doc:para'' [], XOther, XStart ''doc:tt'' [], XOther,
    XEnd ''doc:tt'', XOther, XStart ''doc:tt'' [], XOther, XEnd ''doc:tt'', XOther,
    XStart ''doc:ref'' [(''type'', Some ''method''), (''to'', Some ''Control.Arm'')], XOther,
    XEnd ''doc:ref'', XOther, XEnd ''doc:para'', XEnd ''doc:description'', XStart ''doc:errors'' [],
    XEmpty ''doc:error'' [(''name'', Some ''org.freedesktop.DBus.Error.Failed''), (''description'', Some ''sound directory is unreadable'')],
    XEnd ''doc:errors'', XEnd ''doc:doc'', XEnd ''method'',
    XStart ''signal'' [(''name'', Some ''StateChanged'')],
    XEmpty ''arg'' [(''name'', Some ''armed''), (''type'', Some ''b'')], XStart ''doc:doc'' [],
    XStart ''doc:description'' [], XStart ''doc:para'' [], XOther, XStart ''doc:tt'' [], XOther,
    XEnd ''doc:tt'', XOther, XEnd ''doc:para'', XEnd ''doc:description'', XEnd ''doc:doc'', XEnd ''signal'',
    XEnd ''interface'', XEnd ''node''
   ]"

text \<open>The surface declared by the \<open>#[interface]\<close> block of \<open>ipc/control.rs\<close>: member names in
  \<open>PascalCase\<close>, D-Bus types of the parameters and results.\<close>

definition in_arg :: "string \<Rightarrow> string \<Rightarrow> arg" where
  "in_arg n ty = \<lparr>arg_name = Some n, arg_signature = ty, arg_direction = Some ''in''\<rparr>"

definition out_arg :: "string \<Rightarrow> arg" where
  "out_arg ty = \<lparr>arg_name = None, arg_signature = ty, arg_direction = Some ''out''\<rparr>"

definition control_surface :: surface where
  "control_surface =
     \<lparr>sf_methods =
        [(''Arm'', [in_arg ''sound_id'' ''s'']), (''CurrentSound'', [out_arg ''s'']), (''Disarm'', []),
         (''Dismiss'', []), (''ListSounds'', [out_arg ''as'']), (''Snooze'', [in_arg ''duration_s'' ''u'']),
         (''Status'', [out_arg ''b''])],
      sf_signals = [(''StateChanged'', [\<lparr>arg_name = Some ''armed'', arg_signature = ''b'', arg_direction = None\<rparr>])]\<rparr>"

lemma parse_static_schema: "parse_interface static_schema TARGET_INTERFACE = Inr (Some control_surface)"
  by code_simp

section \<open>The unit tests of the extraction\<close>

text \<open>Each test follows its body, assertion by assertion; the documents are given by their events.\<close>

definition SAMPLE :: "xml_event list" where
  "SAMPLE =
   [XOther, XStart ''node'' [],
    XStart ''interface'' [(''name'', Some ''org.example.Other'')],
      XEmpty ''method'' [(''name'', Some ''ShouldBeIgnored'')],
    XEnd ''interface'',
    XStart ''interface'' [(''name'', Some ''org.helm.AlarmDaemon.Control'')],
      XStart ''method'' [(''name'', Some ''Arm'')],
        XEmpty ''arg'' [(''name'', Some ''sound_id''), (''type'', Some ''s''), (''direction'', Some ''in'')],
      XEnd ''method'',
      XStart ''method'' [(''name'', Some ''Status'')],
        XEmpty ''arg'' [(''type'', Some ''b''), (''direction'', Some ''out'')],
      XEnd ''method'',
      XStart ''signal'' [(''name'', Some ''StateChanged'')],
        XEmpty ''arg'' [(''name'', Some ''armed''), (''type'', Some ''b'')],
      XEnd ''signal'',
    XEnd ''interface'', XEnd ''node'']"

definition on_surface :: "xml_event list \<Rightarrow> (surface \<Rightarrow> bool) \<Rightarrow> bool" where
  "on_surface xml P = (case parse_interface xml TARGET_INTERFACE of Inr (Some sf) \<Rightarrow> P sf | _ \<Rightarrow> False)"

definition test_only_target :: bool where
  "test_only_target = on_surface SAMPLE (\<lambda>sf.
     length (sf_methods sf) = 2 \<and> map_of (sf_methods sf) ''Arm'' \<noteq> None \<and> map_of (sf_methods sf) ''Status'' \<noteq> None \<and>
     map_of (sf_methods sf) ''ShouldBeIgnored'' = None \<and> length (sf_signals sf) = 1)"

definition test_arg_order :: bool where
  "test_arg_order = on_surface SAMPLE (\<lambda>sf.
     map_of (sf_methods sf) ''Arm'' =
       Some [\<lparr>arg_name = Some ''sound_id'', arg_signature = ''s'', arg_direction = Some ''in''\<rparr>] \<and>
     map_of (sf_methods sf) ''Status'' =
       Some [\<lparr>arg_name = None, arg_signature = ''b'', arg_direction = Some ''out''\<rparr>])"

definition test_absent_interface :: bool where
  "test_absent_interface \<longleftrightarrow>
     parse_interface
       [XStart ''node'' [], XEmpty ''interface'' [(''name'', Some ''org.example.Foo'')], XEnd ''node'']
       TARGET_INTERFACE = Inr None"

definition doc_events :: "xml_event list" where
  "doc_events =
   [XStart ''doc:doc'' [], XStart ''doc:description'' [], XStart ''doc:para'' [], XOther, XEnd ''doc:para'',
    XEnd ''doc:description'', XEnd ''doc:doc'']"

definition test_ignores_docs :: bool where
  "test_ignores_docs = on_surface
     ([XOther, XStart ''node'' [(''xmlns:doc'', Some ''http://www.freedesktop.org/dbus/1.0/doc.dtd'')],
       XStart ''interface'' [(''name'', Some ''org.helm.AlarmDaemon.Control'')], XOther] @ doc_events @
      [XStart ''method'' [(''name'', Some ''Disarm'')]] @ doc_events @
      [XEnd ''method'', XEnd ''interface'', XEnd ''node''])
     (\<lambda>sf. length (sf_methods sf) = 1 \<and> map_of (sf_methods sf) ''Disarm'' = Some [])"

definition test_self_closing :: bool where
  "test_self_closing = on_surface
     [XStart ''node'' [], XStart ''interface'' [(''name'', Some ''org.helm.AlarmDaemon.Control'')],
      XEmpty ''method'' [(''name'', Some ''Disarm'')], XEnd ''interface'', XEnd ''node'']
     (\<lambda>sf. map_of (sf_methods sf) ''Disarm'' = Some [])"

lemma parser_unit_tests:
  "test_only_target" "test_arg_order" "test_absent_interface" "test_ignores_docs" "test_self_closing"
  by code_simp+

section \<open>Documents\<close>

text \<open>What the extraction promises, on documents described by their members: \<open>outside\<close> events may
  stand before and after the wanted interface (other interfaces included), \<open>plain\<close> events between
  and inside its members (annotations, text, comments).  An argument written with separate start and
  end tags counts as plain: the extraction does not see it.\<close>

fun outside :: "string \<Rightarrow> xml_event \<Rightarrow> bool" where
  "outside target (XStart n as) \<longleftrightarrow> \<not> (n = ''interface'' \<and> attr as ''name'' = Some target)"
| "outside target (XErr e) \<longleftrightarrow> False"
| "outside target _ \<longleftrightarrow> True"

fun plain :: "xml_event \<Rightarrow> bool" where
  "plain (XStart n as) \<longleftrightarrow> n \<notin> {''interface'', ''method'', ''signal''}"
| "plain (XEmpty n as) \<longleftrightarrow> n \<notin> {''arg'', ''method'', ''signal''}"
| "plain (XEnd n) \<longleftrightarrow> n \<notin> {''interface'', ''method'', ''signal''}"
| "plain XOther \<longleftrightarrow> True"
| "plain (XErr e) \<longleftrightarrow> False"

datatype item = Noise xml_event | ArgItem arg

definition arg_attrs :: "arg \<Rightarrow> attrs" where
  "arg_attrs a =
     (case arg_name a of Some n \<Rightarrow> [(''name'', Some n)] | None \<Rightarrow> []) @ [(''type'', Some (arg_signature a))] @
     (case arg_direction a of Some d \<Rightarrow> [(''direction'', Some d)] | None \<Rightarrow> [])"

fun render_item :: "item \<Rightarrow> xml_event" where
  "render_item (Noise e) = e"
| "render_item (ArgItem a) = XEmpty ''arg'' (arg_attrs a)"

fun item_ok :: "item \<Rightarrow> bool" where
  "item_ok (Noise e) = plain e"
| "item_ok (ArgItem a) = True"

fun item_args :: "item list \<Rightarrow> arg list" where
  "item_args [] = []"
| "item_args (Noise e # is) = item_args is"
| "item_args (ArgItem a # is) = a # item_args is"

definition tag :: "member_kind \<Rightarrow> string" where
  "tag k = (case k of Method \<Rightarrow> ''method'' | Signal \<Rightarrow> ''signal'')"

text \<open>A member with the plain events in front of it.\<close>

type_synonym member = "xml_event list \<times> member_kind \<times> string \<times> item list"

definition render_member :: "member \<Rightarrow> xml_event list" where
  "render_member m =
     (case m of (noise, k, n, items) \<Rightarrow>
        noise @ [XStart (tag k) [(''name'', Some n)]] @ map render_item items @ [XEnd (tag k)])"

definition member_ok :: "member \<Rightarrow> bool" where
  "member_ok m = (case m of (noise, k, n, items) \<Rightarrow> list_all plain noise \<and> list_all item_ok items)"

definition render_interface :: "string \<Rightarrow> member list \<Rightarrow> xml_event list \<Rightarrow> xml_event list" where
  "render_interface target ms tail =
     [XStart ''interface'' [(''name'', Some target)]] @ concat (map render_member ms) @ tail @ [XEnd ''interface'']"

definition members_of :: "member_kind \<Rightarrow> member list \<Rightarrow> (string \<times> arg list) list" where
  "members_of k ms = [(n, item_args items). (noise, k', n, items) \<leftarrow> ms, k' = k]"

section \<open>Extraction, step by step\<close>

lemma parse_events_append:
  "parse_events target (es @ fs) p = bind_r (parse_events target es p) (parse_events target fs)"
  by (induction target es p rule: parse_events.induct) simp_all

lemma parse_plain:
  "list_all plain es \<Longrightarrow> parse_events target es p = Inr p"
  by (induction target es p rule: parse_events.induct)
     (auto simp: parse_start_def parse_empty_def parse_end_def)

lemma parse_outside:
  "list_all (outside target) es \<Longrightarrow> \<not> ps_in_target p \<Longrightarrow> ps_member p = None \<Longrightarrow> parse_events target es p = Inr p"
  by (induction target es p rule: parse_events.induct)
     (auto simp: parse_start_def parse_empty_def parse_end_def split: bool.split)

lemma attr_arg_attrs:
  "attr (arg_attrs a) ''name'' = arg_name a" "attr (arg_attrs a) ''type'' = Some (arg_signature a)"
  "attr (arg_attrs a) ''direction'' = arg_direction a"
  by (auto simp: attr_def arg_attrs_def split: option.split)

lemma parse_items:
  "list_all item_ok is \<Longrightarrow> ps_member p = Some (k, n, args) \<Longrightarrow>
    parse_events target (map render_item is) p = Inr (p\<lparr>ps_member := Some (k, n, args @ item_args is)\<rparr>)"
proof (induction "is" arbitrary: p args rule: item_args.induct)
  case (2 e "is")
  have "parse_events target ([e] @ map render_item is) p =
      bind_r (parse_events target [e] p) (parse_events target (map render_item is))"
    by (rule parse_events_append)
  with 2 parse_plain[of "[e]" target p] show ?case by simp
next
  case (3 a "is")
  let ?p = "p\<lparr>ps_member := Some (k, n, args @ [a])\<rparr>"
  have "parse_empty ''arg'' (arg_attrs a) p = ?p"
    using 3(3) by (simp add: parse_empty_def attr_arg_attrs or_default_def)
  with 3(1)[of ?p "args @ [a]"] 3(2) show ?case by simp
qed simp

lemma parse_member:
  assumes "member_ok (noise, k, n, items)" "ps_in_target p"
  shows "parse_events target (render_member (noise, k, n, items)) p =
    Inr (p\<lparr>ps_surface := insert_member (ps_surface p) k n (item_args items), ps_member := None\<rparr>)"
proof -
  let ?p = "p\<lparr>ps_member := Some (k, n, [])\<rparr>"
  have start: "parse_start target (tag k) [(''name'', Some n)] p = ?p"
    using assms(2) by (cases k) (simp_all add: parse_start_def tag_def attr_def or_default_def)
  have "parse_events target (map render_item items) ?p = Inr (?p\<lparr>ps_member := Some (k, n, item_args items)\<rparr>)"
    using parse_items[of items ?p k n "[]" target] assms(1) by (simp add: member_ok_def)
  moreover have "parse_end (tag k) (?p\<lparr>ps_member := Some (k, n, item_args items)\<rparr>) =
      p\<lparr>ps_surface := insert_member (ps_surface p) k n (item_args items), ps_member := None\<rparr>"
    by (cases k) (simp_all add: parse_end_def tag_def)
  ultimately show ?thesis
    using assms(1) start by (simp add: render_member_def parse_events_append parse_plain member_ok_def)
qed

definition insert_members :: "member list \<Rightarrow> surface \<Rightarrow> surface" where
  "insert_members ms sf = fold (\<lambda>(_, k, n, items) s. insert_member s k n (item_args items)) ms sf"

lemma parse_members:
  "list_all member_ok ms \<Longrightarrow> ps_in_target p \<Longrightarrow> ps_member p = None \<Longrightarrow>
    parse_events target (concat (map render_member ms)) p =
      Inr (p\<lparr>ps_surface := insert_members ms (ps_surface p)\<rparr>)"
proof (induction ms arbitrary: p)
  case Nil
  then show ?case by (simp add: insert_members_def)
next
  case (Cons m ms)
  obtain noise k n items where m: "m = (noise, k, n, items)" by (cases m)
  let ?p = "p\<lparr>ps_surface := insert_member (ps_surface p) k n (item_args items), ps_member := None\<rparr>"
  have "parse_events target (render_member m) p = Inr ?p" using parse_member Cons.prems m by simp
  with Cons.IH[of ?p] Cons.prems show ?case
    by (simp add: parse_events_append insert_members_def m)
qed

lemma map_of_btree_insert:
  "sorted_wrt (<) (map fst m) \<Longrightarrow> map_of (btree_insert k v m) = (map_of m)(k \<mapsto> v)"
proof (induction k v m rule: btree_insert.induct)
  case (2 k v m x rest)
  then show ?case by (auto simp: fun_eq_iff)
qed (simp add: fun_eq_iff)

definition surface_sorted :: "surface \<Rightarrow> bool" where
  "surface_sorted sf \<longleftrightarrow> sorted_wrt (<) (map fst (sf_methods sf)) \<and> sorted_wrt (<) (map fst (sf_signals sf))"

definition surface_of :: "surface \<Rightarrow> member_kind \<Rightarrow> (string \<times> arg list) list" where
  "surface_of sf k = (case k of Method \<Rightarrow> sf_methods sf | Signal \<Rightarrow> sf_signals sf)"

lemma insert_member_sorted: "surface_sorted sf \<Longrightarrow> surface_sorted (insert_member sf k n args)"
  by (cases k) (simp_all add: insert_member_def surface_sorted_def sorted_btree_insert)

lemma insert_member_map:
  "surface_sorted sf \<Longrightarrow> map_of (surface_of (insert_member sf k' n args) k) =
    (if k' = k then (map_of (surface_of sf k))(n \<mapsto> args) else map_of (surface_of sf k))"
  by (cases k; cases k') (simp_all add: insert_member_def surface_of_def surface_sorted_def map_of_btree_insert)

lemma insert_members_map:
  "surface_sorted sf \<Longrightarrow> surface_sorted (insert_members ms sf) \<and>
    map_of (surface_of (insert_members ms sf) k) = map_of (surface_of sf k) ++ map_of (rev (members_of k ms))"
proof (induction ms arbitrary: sf)
  case Nil
  then show ?case by (simp add: insert_members_def members_of_def)
next
  case (Cons m ms)
  obtain noise k' n items where m: "m = (noise, k', n, items)" by (cases m)
  have "insert_members (m # ms) sf = insert_members ms (insert_member sf k' n (item_args items))"
    by (simp add: insert_members_def m)
  with Cons.IH[OF insert_member_sorted[OF Cons.prems, of k' n "item_args items"]]
    insert_member_map[OF Cons.prems, of k' n "item_args items" k]
  show ?case by (auto simp: members_of_def m fun_eq_iff map_add_def split: option.split)
qed

lemma parse_document:
  assumes "list_all (outside target) before" "list_all (outside target) after" "list_all plain tail"
    and "list_all member_ok ms"
  shows "parse_events target (before @ render_interface target ms tail @ after)
      \<lparr>ps_surface = sf, ps_in_target = False, ps_member = None\<rparr> =
    Inr \<lparr>ps_surface = insert_members ms sf, ps_in_target = False, ps_member = None\<rparr>"
proof -
  have "parse_start target ''interface'' [(''name'', Some target)] \<lparr>ps_surface = sf, ps_in_target = False, ps_member = None\<rparr>
      = \<lparr>ps_surface = sf, ps_in_target = True, ps_member = None\<rparr>"
    by (simp add: parse_start_def attr_def)
  then show ?thesis
    using assms by (simp add: parse_events_append render_interface_def parse_outside parse_members parse_plain
        parse_end_def)
qed

section \<open>Properties\<close>

text \<open>The extraction is exact.  From a document with the wanted interface anywhere among others,
  annotated in any way, it yields exactly the methods and signals of that interface with their
  arguments in order (the last one of a name), sorted by name; nothing if it has no members.\<close>

lemma parse_interface_exact:
  assumes "list_all (outside target) before" and "list_all (outside target) after"
    and "list_all plain tail" and "list_all member_ok ms"
  shows "case parse_interface (before @ render_interface target ms tail @ after) target of
      Inl _ \<Rightarrow> False
    | Inr None \<Rightarrow> ms = []
    | Inr (Some sf) \<Rightarrow> ms \<noteq> [] \<and> surface_sorted sf
        \<and> map_of (sf_methods sf) = map_of (rev (members_of Method ms))
        \<and> map_of (sf_signals sf) = map_of (rev (members_of Signal ms))"
proof -
  let ?sf = "insert_members ms surface_empty"
  have "surface_sorted surface_empty" by (simp add: surface_sorted_def surface_empty_def)
  note im = insert_members_map[OF this, of ms]
  have maps: "map_of (sf_methods ?sf) = map_of (rev (members_of Method ms))"
    "map_of (sf_signals ?sf) = map_of (rev (members_of Signal ms))"
    using im[of Method] im[of Signal] by (simp_all add: surface_of_def surface_empty_def)
  have empty: "sf_methods ?sf = [] \<and> sf_signals ?sf = [] \<longleftrightarrow> ms = []"
  proof
    assume "sf_methods ?sf = [] \<and> sf_signals ?sf = []"
    with maps have no: "members_of k ms = []" for k
      by (cases k) (metis map_of_eq_empty_iff rev_is_Nil_conv map_of.simps(1))+
    show "ms = []"
    proof (rule ccontr)
      assume "ms \<noteq> []"
      then obtain noise k n items ms' where "ms = (noise, k, n, items) # ms'" by (cases ms) auto
      with no[of k] show False by (simp add: members_of_def)
    qed
  qed (simp add: insert_members_def surface_empty_def)
  from parse_document[OF assms, of surface_empty] empty maps im[of Method] show ?thesis
    by (auto simp: parse_interface_def)
qed

lemma parse_interface_exact_example:
  "case parse_interface
      ([XStart ''node'' [], XStart ''interface'' [(''name'', Some ''org.example.Other'')],
        XEmpty ''method'' [(''name'', Some ''ShouldBeIgnored'')], XEnd ''interface'']
       @ render_interface ''I'' [([XOther], Method, ''Status'', [ArgItem (out_arg ''b''), Noise (XStart ''doc:doc'' [])])]
           [XOther] @ [XEnd ''node'']) ''I'' of
      Inr (Some sf) \<Rightarrow> map_of (sf_methods sf) ''Status'' = Some [out_arg ''b'']
        \<and> map_of (sf_methods sf) ''ShouldBeIgnored'' = None
    | _ \<Rightarrow> False"
proof -
  let ?ms = "[([XOther], Method, ''Status'', [ArgItem (out_arg ''b''), Noise (XStart ''doc:doc'' [])])]"
  let ?before = "[XStart ''node'' [], XStart ''interface'' [(''name'', Some ''org.example.Other'')],
        XEmpty ''method'' [(''name'', Some ''ShouldBeIgnored'')], XEnd ''interface'']"
  have "list_all (outside ''I'') ?before" "list_all (outside ''I'') [XEnd ''node'']" "list_all plain [XOther]"
    "list_all member_ok ?ms"
    by (simp_all add: member_ok_def attr_def)
  from parse_interface_exact[OF this] show ?thesis
    by (auto simp: members_of_def split: sum.splits option.splits)
qed

text \<open>Types on the bus.\<close>

definition arg_sig :: "bus_arg \<Rightarrow> string list" where
  "arg_sig a = (case a of NoArg \<Rightarrow> [] | StrArg _ \<Rightarrow> [''s''] | U32Arg _ \<Rightarrow> [''u''])"

definition reply_sig :: "bus_reply \<Rightarrow> string list" where
  "reply_sig r = (case r of UnitReply \<Rightarrow> [] | BoolReply _ \<Rightarrow> [''b''] | StrReply _ \<Rightarrow> [''s''] | StrsReply _ \<Rightarrow> [''as''])"

definition sigs_of :: "string \<Rightarrow> arg list \<Rightarrow> string list" where
  "sigs_of dir args = map arg_signature (filter (\<lambda>a. arg_direction a = Some dir) args)"

lemma map_option_methods: "map_of (sf_methods control_surface) m =
  (if m = ''Arm'' then Some [in_arg ''sound_id'' ''s''] else if m = ''CurrentSound'' then Some [out_arg ''s'']
   else if m = ''Disarm'' \<or> m = ''Dismiss'' then Some [] else if m = ''ListSounds'' then Some [out_arg ''as'']
   else if m = ''Snooze'' then Some [in_arg ''duration_s'' ''u''] else if m = ''Status'' then Some [out_arg ''b''] else None)"
  by (simp add: control_surface_def)

lemma dispatch_typed:
  assumes "dispatch api aud ce m arg c = (r, c')"
  shows "case map_of (sf_methods control_surface) m of
      None \<Rightarrow> r = Inl (UnknownMethod m) \<and> c' = c
    | Some args \<Rightarrow> sigs_of ''in'' args = arg_sig arg \<longrightarrow>
        (case r of Inr x \<Rightarrow> reply_sig x = sigs_of ''out'' args | Inl e \<Rightarrow> \<exists>f. e = RemoteError f)"
  using assms unfolding map_option_methods
  by (auto simp: dispatch_def sigs_of_def in_arg_def out_arg_def arg_sig_def reply_sig_def unit_reply_def
      map_prod_def split: if_splits bus_arg.splits sum.splits prod.splits)

text \<open>C31: the shipped schema describes the control object.  Extracting the interface from the static
  schema yields exactly the declared methods and the signal; the object answers every call that
  conforms to it with a value of the declared type or with a D-Bus error of its own, and knows no
  other method.\<close>

theorem schema_describes_control:
  assumes "dispatch api aud ce m arg c = (r, c')"
  shows "\<exists>sf. parse_interface static_schema TARGET_INTERFACE = Inr (Some sf)
    \<and> map fst (sf_signals sf) = [''StateChanged'']
    \<and> (case map_of (sf_methods sf) m of
         None \<Rightarrow> r = Inl (UnknownMethod m) \<and> c' = c
       | Some args \<Rightarrow> sigs_of ''in'' args = arg_sig arg \<longrightarrow>
           (case r of Inr x \<Rightarrow> reply_sig x = sigs_of ''out'' args | Inl e \<Rightarrow> \<exists>f. e = RemoteError f))"
proof (intro exI[of _ control_surface] conjI)
  show "map fst (sf_signals control_surface) = [''StateChanged'']" by (simp add: control_surface_def)
qed (fact parse_static_schema dispatch_typed[OF assms])+

theorem schema_describes_control_witness:
  "case dispatch mem_api fake_ops demo_env ''ListSounds'' NoArg demo_control of
     (Inr x, _) \<Rightarrow> reply_sig x = [''as''] | (Inl e, _) \<Rightarrow> \<exists>f. e = RemoteError f"
proof -
  obtain r c' where d: "dispatch mem_api fake_ops demo_env ''ListSounds'' NoArg demo_control = (r, c')"
    by (cases "dispatch mem_api fake_ops demo_env ''ListSounds'' NoArg demo_control")
  from schema_describes_control[OF d] show ?thesis
    by (auto simp: d parse_static_schema map_option_methods sigs_of_def out_arg_def arg_sig_def split: sum.split)
qed

end
