(* ===== verification/Ramps.thy ===== *)
theory Ramps
  imports Playback_Rates
begin

text \<open>
  Volume ramps during playback: rounding is monotone, hence so are the seconds of a duration, the
  gain of a ramp (\<open>gain_at\<close> in \<open>audio/profile.rs\<close>) and the gain from frame to frame in \<open>fill_f32\<close>.  At
  equal rates a one-shot playback under any valid profile yields the frames of the source scaled by
  that gain.
\<close>

section \<open>Rounding is monotone\<close>

lemma round_fin_ge:
  assumes "representable p emin y" "0 \<le> y" "y \<le> x" "0 < p"
  shows "y \<le> round_fin p emin x"
proof (cases "y = 0")
  case True
  have "of_int 0 \<le> x / 2 powi ulp_exp p emin x" using assms(2,3) by simp
  from round_half_even_ge_int[OF this] True show ?thesis by (simp add: round_fin_def)
next
  case False
  let ?u = "ulp_exp p emin x"
  have pos: "0 < y" "0 < x" "0 < (2::rat) powi ?u" using False assms(2,3) by simp_all
  have ge: "of_int k * 2 powi ?u \<le> round_fin p emin x" if "of_int k * 2 powi ?u \<le> x" for k
  proof -
    have "of_int k \<le> x / 2 powi ?u" using that by (simp add: pos_le_divide_eq)
    from round_half_even_ge_int[OF this] have "of_int k \<le> (of_int (round_half_even (x / 2 powi ?u)) :: rat)" by simp
    then show ?thesis using pos(2) by (simp add: round_fin_def mult_right_mono)
  qed
  show ?thesis
  proof (cases "?u \<le> ulp_exp p emin y")
    case True
    then obtain k where "y = of_int k * 2 powi ?u"
      using representable_multiple[OF assms(1)] pos(1) by blast
    with ge[of k] assms(3) show ?thesis by simp
  next
    case False
    then have u: "?u = ilog2 x - (int p - 1)" "ilog2 y < ilog2 x" using pos by (auto simp: ulp_exp_def)
    have two: "(2::rat) powi ilog2 x = of_int (2 ^ (p - 1)) * 2 powi ?u"
      using assms(4) unfolding u(1) by (simp flip: power_int_of_nat power_int_add)
    have "y < 2 powi (ilog2 y + 1)" using ilog2_bounds(2)[OF pos(1)] .
    also have "\<dots> \<le> 2 powi ilog2 x" using u(2) by (intro powi_mono2) simp
    also have "\<dots> \<le> round_fin p emin x" using ge[of "2 ^ (p - 1)"] ilog2_bounds(1)[OF pos(2)] unfolding two .
    finally show ?thesis by simp
  qed
qed

lemma round_half_even_mono: "x \<le> y \<Longrightarrow> round_half_even x \<le> round_half_even y"
proof -
  assume xy: "x \<le> y"
  have up: "round_half_even x \<le> \<lfloor>x\<rfloor> + 1" "\<lfloor>y\<rfloor> \<le> round_half_even y"
    by (simp_all add: round_half_even_def Let_def)
  show ?thesis
  proof (cases "\<lfloor>x\<rfloor> < \<lfloor>y\<rfloor>")
    case False
    then have "\<lfloor>x\<rfloor> = \<lfloor>y\<rfloor>" using floor_mono[OF xy] by simp
    then show ?thesis using xy by (auto simp: round_half_even_def Let_def)
  qed (use up in linarith)
qed

lemma round_fin_mono:
  assumes "0 \<le> x" "x \<le> y" "0 < p"
  shows "round_fin p emin x \<le> round_fin p emin y"
proof (cases "x = 0")
  case True
  have "of_int 0 \<le> y / 2 powi ulp_exp p emin y" using assms by simp
  from round_half_even_ge_int[OF this] True show ?thesis by (simp add: round_fin_def)
next
  case False
  then have pos: "0 < x" "0 < y" using assms by simp_all
  have lg: "ilog2 x \<le> ilog2 y" using ilog2_mono[OF pos(1) assms(2)] .
  show ?thesis
  proof (cases "ulp_exp p emin x = ulp_exp p emin y")
    case True
    have "x / 2 powi ulp_exp p emin y \<le> y / 2 powi ulp_exp p emin y"
      using assms(2) by (simp add: divide_right_mono)
    from round_half_even_mono[OF this] show ?thesis
      using pos True by (simp add: round_fin_def mult_right_mono)
  next
    case False
    then have u: "emin \<le> ilog2 y" "ilog2 x < ilog2 y" using lg pos assms(3) by (auto simp: ulp_exp_def max_def split: if_splits)
    have "representable p emin (2 powi ilog2 y)"
      unfolding representable_def using u(1) assms(3) by (intro exI[of _ 1] exI[of _ "ilog2 y"]) simp
    moreover have "x \<le> 2 powi ilog2 y"
      using ilog2_bounds(2)[OF pos(1)] powi_mono2[of "ilog2 x + 1" "ilog2 y"] u(2) by linarith
    ultimately have "round_fin p emin x \<le> 2 powi ilog2 y" "2 powi ilog2 y \<le> round_fin p emin y"
      using round_fin_le(1) round_fin_ge ilog2_bounds(1)[OF pos(2)] assms(1,3) by auto
    then show ?thesis by simp
  qed
qed

lemma round_fl_mono:
  assumes "0 \<le> x" "x \<le> y" "0 < p"
  shows "fl_le (round_fl p emin emax x) (round_fl p emin emax y)"
proof -
  have "0 \<le> round_fin p emin x" using round_fin_mono[OF order_refl assms(1,3), of emin] by (simp add: round_fin_def)
  then show ?thesis
    using round_fin_mono[OF assms, of emin] by (auto simp: round_fl_def Let_def)
qed

lemmas f32_round_mono = round_fl_mono[of _ _ 24 "-149" 128, folded f32_round_def, simplified]
lemmas f64_round_mono = round_fl_mono[of _ _ 53 "-1074" 1024, folded f64_round_def, simplified]

section \<open>Operations on values that are not negative\<close>

definition fl_nonneg :: "fl \<Rightarrow> bool" where
  "fl_nonneg x \<longleftrightarrow> fl_le (FFin 0) x"

lemma fl_nonneg_cases: "fl_nonneg x \<longleftrightarrow> x = FInf False \<or> (\<exists>r. x = FFin r \<and> 0 \<le> r)"
  by (cases x) (auto simp: fl_nonneg_def)

lemma fl_le_trans: "fl_le x y \<Longrightarrow> fl_le y z \<Longrightarrow> fl_le x z"
  by (cases x; cases y; cases z) (auto split: bool.splits elim!: fl_le.elims)

lemma f32_round_fl_nonneg: "0 \<le> x \<Longrightarrow> fl_nonneg (f32_round x)"
  using f32_round_mono[OF order_refl, of x] f32_round_val[OF f32_val_0] by (simp add: fl_nonneg_def)

lemma fl_le_top: "fl_le x (FInf False) \<longleftrightarrow> x \<noteq> FNaN"
proof (cases x)
  case (FInf s)
  then show ?thesis by (cases s) simp_all
qed simp_all

lemma fl_add_mono:
  assumes "fl_nonneg a" "fl_nonneg b" "fl_le a a'" "fl_le b b'"
  shows "fl_le (fl_add f32_round a b) (fl_add f32_round a' b')"
  using assms
  by (cases a; cases b; cases a'; cases b') (auto simp: fl_nonneg_cases f32_round_mono fl_le_top)

lemma fl_div_nonneg: "fl_nonneg a \<Longrightarrow> 0 < y \<Longrightarrow> fl_nonneg (fl_div f32_round a (FFin y))"
  by (auto simp: fl_nonneg_cases[of a] f32_round_fl_nonneg) (simp add: fl_nonneg_def)

lemma fl_div_mono:
  assumes "fl_nonneg a" "fl_le a a'" "0 < y"
  shows "fl_le (fl_div f32_round a (FFin y)) (fl_div f32_round a' (FFin y))"
proof (cases a)
  case (FFin r)
  with assms show ?thesis
    by (cases a') (auto simp: fl_nonneg_cases fl_le_top intro!: f32_round_mono divide_right_mono)
qed (use assms in \<open>cases a'; auto simp: fl_nonneg_cases fl_le_top\<close>)+

lemma fl_mul_mono:
  assumes "0 \<le> t" "0 \<le> x" "x \<le> y"
  shows "fl_le (fl_mul f32_round (FFin t) (FFin x)) (fl_mul f32_round (FFin t) (FFin y))"
  using assms by (auto intro: f32_round_mono mult_left_mono)

lemma fl_clamp_mono:
  "fl_nonneg a \<Longrightarrow> fl_le a b \<Longrightarrow> fl_le (fl_clamp a (FFin 0) (FFin 1)) (fl_clamp b (FFin 0) (FFin 1))"
  by (cases b) (auto simp: fl_clamp_def fl_lt_def fl_nonneg_cases)

section \<open>Seconds and gain\<close>

lemma f32_of_nat_nonneg: "fl_nonneg (f32_of_nat n)"
  unfolding f32_of_nat_def by (rule f32_round_fl_nonneg) simp

lemma f32_of_nat_mono: "m \<le> n \<Longrightarrow> fl_le (f32_of_nat m) (f32_of_nat n)"
  unfolding f32_of_nat_def by (rule f32_round_mono) simp_all

text \<open>The seconds of a duration and the value of its nanoseconds.\<close>

definition nano_part :: "duration \<Rightarrow> f32" where
  "nano_part d = fl_div f32_round (f32_of_nat (d mod 1000000000)) (FFin 1000000000)"

lemma as_secs_parts: "as_secs_f32 d = fl_add f32_round (f32_of_nat (d div 1000000000)) (nano_part d)"
  by (simp add: as_secs_f32_def nano_part_def f32_of_nat_1e9)

lemma nano_part: "fl_nonneg (nano_part d)" "fl_le (nano_part d) (FFin 1)"
proof -
  have "fl_le (f32_of_nat (d mod 1000000000)) (f32_of_nat 1000000000)" by (rule f32_of_nat_mono) simp
  from fl_div_mono[OF f32_of_nat_nonneg this, of 1000000000] show "fl_le (nano_part d) (FFin 1)"
    using f32_round_val[OF f32_val_small[of 1]] by (simp add: nano_part_def f32_of_nat_1e9)
  show "fl_nonneg (nano_part d)" unfolding nano_part_def by (rule fl_div_nonneg[OF f32_of_nat_nonneg]) simp
qed

lemma nano_part_mono: "d mod 1000000000 \<le> e mod 1000000000 \<Longrightarrow> fl_le (nano_part d) (nano_part e)"
  unfolding nano_part_def by (rule fl_div_mono[OF f32_of_nat_nonneg f32_of_nat_mono]) simp_all

lemma as_secs_nonneg: "fl_nonneg (as_secs_f32 d)"
proof -
  have "fl_nonneg (fl_add f32_round a b)" if "fl_nonneg a" "fl_nonneg b" for a b
    using that by (auto simp: fl_nonneg_cases[of a] fl_nonneg_cases[of b] f32_round_fl_nonneg) (simp_all add: fl_nonneg_def)
  then show ?thesis unfolding as_secs_parts using f32_of_nat_nonneg nano_part(1) .
qed

lemma f32_of_nat_small: "n < 2 ^ 24 \<Longrightarrow> f32_of_nat n = FFin (of_nat n)"
  unfolding f32_of_nat_def by (rule f32_round_val[OF f32_val_small])

text \<open>Up to \<open>2 ^ 24\<close> seconds the conversion is monotone; from there on it stays above.\<close>

lemma as_secs_mono:
  assumes "d \<le> e" "e div 1000000000 < 2 ^ 24"
  shows "fl_le (as_secs_f32 d) (as_secs_f32 e)"
proof (cases "d div 1000000000 = e div 1000000000")
  case True
  then have "d mod 1000000000 \<le> e mod 1000000000"
    using assms(1) by (metis div_mult_mod_eq add_le_cancel_left)
  then show ?thesis
    unfolding as_secs_parts True
    by (intro fl_add_mono f32_of_nat_nonneg nano_part nano_part_mono f32_of_nat_mono order_refl)
next
  case False
  let ?s = "d div 1000000000" and ?t = "e div 1000000000"
  have st: "Suc ?s \<le> ?t" using False div_le_mono[OF assms(1), of 1000000000] by simp
  obtain a where a: "nano_part d = FFin a" "0 \<le> a" "a \<le> 1"
    using nano_part[of d] by (auto simp: fl_nonneg_cases)
  obtain b where b: "nano_part e = FFin b" "0 \<le> b" "b \<le> 1"
    using nano_part[of e] by (auto simp: fl_nonneg_cases)
  have "(of_nat (Suc ?s) :: rat) \<le> of_nat ?t" using st by (simp only: of_nat_le_iff)
  then have "of_nat ?s + a \<le> of_nat ?t + b" using a(3) b(2) by simp
  moreover have "f32_of_nat ?s = FFin (of_nat ?s)" "f32_of_nat ?t = FFin (of_nat ?t)"
    using st assms(2) by (simp_all add: f32_of_nat_small)
  ultimately show ?thesis unfolding as_secs_parts a(1) b(1) using a(2) by (simp add: f32_round_mono)
qed

lemma as_secs_large:
  assumes "2 ^ 24 \<le> d div 1000000000" shows "fl_le (FFin 16000000) (as_secs_f32 d)"
proof -
  have v: "f32_of_nat 16000000 = FFin 16000000" using f32_of_nat_small[of 16000000] by simp
  have "fl_le (FFin 16000000) (f32_of_nat (d div 1000000000))"
    using f32_of_nat_mono[of 16000000 "d div 1000000000"] assms v by simp
  then have "fl_le (fl_add f32_round (FFin 16000000) (FFin 0)) (as_secs_f32 d)"
    unfolding as_secs_parts using nano_part(1) by (intro fl_add_mono) (simp_all add: fl_nonneg_def)
  then show ?thesis using v by (simp add: f32_of_nat_def)
qed

text \<open>The fraction of a ramp that has elapsed.\<close>

definition ramp_frac :: "duration \<Rightarrow> duration \<Rightarrow> f32" where
  "ramp_frac d e = fl_clamp (fl_div f32_round (as_secs_f32 e) (as_secs_f32 d)) (FFin 0) (FFin 1)"

lemma frac_mono:
  assumes "as_secs_f32 d = FFin y" "0 < y" "fl_le (as_secs_f32 e) (as_secs_f32 f)"
  shows "fl_le (ramp_frac d e) (ramp_frac d f)"
  unfolding ramp_frac_def assms(1)
  by (intro fl_clamp_mono fl_div_mono fl_div_nonneg as_secs_nonneg assms(2,3))

lemma frac_unit: "as_secs_f32 d = FFin y \<Longrightarrow> 0 < y \<Longrightarrow> unit_range (ramp_frac d e)"
  unfolding ramp_frac_def by (intro clamp_unit_range) (use fl_div_pos_not_nan as_secs_f32_not_nan in simp)

lemma frac_over:
  assumes "as_secs_f32 d = FFin y" "0 < y" "fl_le (FFin y) (as_secs_f32 e)"
  shows "ramp_frac d e = FFin 1"
proof -
  have "fl_le (fl_div f32_round (FFin y) (FFin y)) (fl_div f32_round (as_secs_f32 e) (FFin y))"
    using assms by (intro fl_div_mono) (simp_all add: fl_nonneg_def)
  then have "fl_le (FFin 1) (fl_div f32_round (as_secs_f32 e) (FFin y))"
    using assms(2) f32_round_val[OF f32_val_small[of 1]] by simp
  then show ?thesis
    unfolding ramp_frac_def assms(1)
    by (cases "fl_div f32_round (as_secs_f32 e) (FFin y)") (auto simp: fl_clamp_def fl_lt_def)
qed

text \<open>The gain of a valid ramp never decreases, for elapsed times of any length.\<close>

lemma ramp_ok_secs:
  assumes "ramp_ok (Linear d)" shows "\<exists>y. as_secs_f32 d = FFin y \<and> 0 < y \<and> y \<le> 10"
proof -
  have d: "MIN_RAMP \<le> d" "d \<le> MAX_RAMP" using assms by (auto simp: ramp_ok_def ramp_linear_def split: if_splits)
  have m: "MAX_RAMP div 1000000000 = 10" "MAX_RAMP mod 1000000000 = 0" by (simp_all add: MAX_RAMP_def dur_from_secs_def)
  have "as_secs_f32 MAX_RAMP = FFin 10"
    using f32_of_nat_small[of 10] f32_of_nat_small[of 0]
    by (simp add: as_secs_parts nano_part_def m f32_of_nat_def)
  moreover have "fl_le (as_secs_f32 d) (as_secs_f32 MAX_RAMP)" using d(2) m by (intro as_secs_mono) simp_all
  ultimately show ?thesis using as_secs_f32_pos[OF d] by auto
qed

lemma gain_linear:
  assumes "unit_range target" "as_secs_f32 d = FFin y" "0 < y"
  shows "gain_at (Linear d) target e = fl_clamp (fl_mul f32_round target (ramp_frac d e)) (FFin 0) (FFin 1)"
  using assms by (simp add: gain_at_def Let_def ramp_frac_def)

lemma gain_mono:
  assumes "unit_range target" "ramp_ok r" "e \<le> f"
  shows "fl_le (gain_at r target e) (gain_at r target f)"
proof (cases r)
  case Immediate
  then show ?thesis using assms(1) by (auto simp: gain_at_def unit_range_def)
next
  case (Linear d)
  obtain y where y: "as_secs_f32 d = FFin y" "0 < y" "y \<le> 10" using ramp_ok_secs assms(2) Linear by blast
  obtain t where t: "target = FFin t" "0 \<le> t" using assms(1) by (auto simp: unit_range_def)
  have "fl_le (ramp_frac d e) (ramp_frac d f)"
  proof (cases "f div 1000000000 < 2 ^ 24")
    case True
    from frac_mono[OF y(1,2) as_secs_mono[OF assms(3) this]] show ?thesis .
  next
    case False
    then have "fl_le (FFin y) (as_secs_f32 f)"
      using as_secs_large[of f] y(3) fl_le_trans[of "FFin y" "FFin 16000000"] by simp
    from frac_over[OF y(1,2) this] frac_unit[OF y(1,2), of e] show ?thesis by (auto simp: unit_range_def)
  qed
  with frac_unit[OF y(1,2), of e] frac_unit[OF y(1,2), of f] obtain a b where
    ab: "ramp_frac d e = FFin a" "ramp_frac d f = FFin b" "0 \<le> a" "a \<le> b" by (auto simp: unit_range_def)
  have "fl_nonneg (fl_mul f32_round (FFin t) (FFin a))" using t(2) ab(3) by (simp add: f32_round_fl_nonneg)
  from fl_clamp_mono[OF this fl_mul_mono[OF t(2) ab(3,4)]] show ?thesis
    unfolding Linear t(1) gain_linear[OF assms(1)[unfolded t(1)] y(1,2)] ab(1,2) .
qed

section \<open>From frame to frame\<close>

text \<open>The elapsed time and the gain of the \<open>k\<close>-th frame of a playback.\<close>

definition elapsed :: "nat \<Rightarrow> nat \<Rightarrow> duration" where
  "elapsed rate k =
     (case dur_from_secs_f64 (fl_div f64_round (f64_of_nat k) (fl_max (f64_of_nat rate) (FFin 1))) of
        Some d \<Rightarrow> d | None \<Rightarrow> 0)"

definition frame_volume :: "nat \<Rightarrow> volume_profile \<Rightarrow> nat \<Rightarrow> f32" where
  "frame_volume rate v k = gain_at (vp_ramp v) (vp_target v) (elapsed rate k)"

lemma frame_gain_volume:
  assumes "pb_ok pb" "2 \<le> rate" "rate < 2 ^ 32"
  shows "frame_gain rate pb = Some (frame_volume rate (pb_profile pb) (pb_frames_played pb))"
  using frame_gain_total[OF assms] by (auto simp: frame_gain_def frame_volume_def elapsed_def)

lemma rate_max:
  assumes "2 \<le> rate" "rate < 2 ^ 32" shows "fl_max (f64_of_nat rate) (FFin 1) = FFin (of_nat rate)"
proof -
  have "(2::rat) \<le> of_nat rate" using assms(1) by (metis of_nat_le_iff of_nat_numeral)
  then show ?thesis using assms(2) by (simp add: f64_of_nat_exact fl_max_def fl_lt_def)
qed

lemma elapsed_seconds:
  assumes "2 \<le> rate" "rate < 2 ^ 32" "k < 2 ^ 64"
  shows "\<exists>z q. f64_of_nat k = FFin z \<and> 0 \<le> z \<and> f64_round (z / of_nat rate) = FFin q \<and> 0 \<le> q
    \<and> elapsed rate k = nat (round_half_even (q * 1000000000))"
proof -
  have r2: "(2::rat) \<le> of_nat rate" using assms(1) by (metis of_nat_le_iff of_nat_numeral)
  obtain z where z: "f64_of_nat k = FFin z" "0 \<le> z" "z \<le> 2 ^ 64"
    using f64_of_nat_bound[of k] assms(3) by auto
  have "z \<le> 2 ^ 63 * of_nat rate"
    using z(3) mult_left_mono[OF r2, of "2 ^ 63"] by simp
  then have "z / of_nat rate \<le> 2 ^ 63" using r2 by (simp add: pos_divide_le_eq)
  then obtain q where q: "f64_round (z / of_nat rate) = FFin q" "0 \<le> q" "q \<le> 2 ^ 63"
    using f64_round_neg_free[of "z / of_nat rate" "2 ^ 63"] z(2) f64_val_pow2[of 63] by auto
  obtain d where "dur_from_secs_f64 (FFin q) = Some d" using dur_from_secs_f64_ok[OF q(2,3)] by blast
  then have "elapsed rate k = nat (round_half_even (q * 1000000000))"
    using q r2 z(1) unfolding elapsed_def rate_max[OF assms(1,2)]
    by (auto simp: dur_from_secs_f64_def Let_def split: if_splits)
  with z(1,2) q(1,2) show ?thesis by blast
qed

lemma elapsed_mono:
  assumes "2 \<le> rate" "rate < 2 ^ 32" "i \<le> j" "j < 2 ^ 64"
  shows "elapsed rate i \<le> elapsed rate j"
proof -
  have r: "(0::rat) < of_nat rate" using assms(1) by simp
  obtain z q where i: "f64_of_nat i = FFin z" "0 \<le> z" "f64_round (z / of_nat rate) = FFin q" "0 \<le> q"
    "elapsed rate i = nat (round_half_even (q * 1000000000))"
    using elapsed_seconds[OF assms(1,2), of i] assms(3,4) by auto
  obtain z' q' where j: "f64_of_nat j = FFin z'" "f64_round (z' / of_nat rate) = FFin q'"
    "elapsed rate j = nat (round_half_even (q' * 1000000000))"
    using elapsed_seconds[OF assms(1,2,4)] by auto
  have "fl_le (f64_of_nat i) (f64_of_nat j)"
    unfolding f64_of_nat_def using assms(3) by (intro f64_round_mono) simp_all
  then have "z / of_nat rate \<le> z' / of_nat rate" using i(1) j(1) by (simp add: divide_right_mono)
  from f64_round_mono[OF _ this] have "q \<le> q'" using i(2,3) j(2) by simp
  then have "round_half_even (q * 1000000000) \<le> round_half_even (q' * 1000000000)"
    by (intro round_half_even_mono) simp
  then show ?thesis unfolding i(5) j(3) by (rule nat_mono)
qed

lemma elapsed_whole:
  assumes "2 \<le> rate" "rate < 2 ^ 32" "n < 2 ^ 16"
  shows "elapsed rate (n * rate) = dur_from_secs n"
proof -
  have "n * rate < 2 ^ 16 * 2 ^ 32" using assms by (intro mult_strict_mono) simp_all
  then have k: "n * rate < 2 ^ 53" "n * rate < 2 ^ 64" "n < 2 ^ 53" using assms(3) by simp_all
  obtain z q where z: "f64_of_nat (n * rate) = FFin z" "f64_round (z / of_nat rate) = FFin q"
    "elapsed rate (n * rate) = nat (round_half_even (q * 1000000000))"
    using elapsed_seconds[OF assms(1,2) k(2)] by blast
  have "z = of_nat n * of_nat rate" using z(1) f64_of_nat_exact[OF k(1)] by simp
  then have "z / of_nat rate = of_nat n" using assms(1) by simp
  then have "q = of_nat n" using z(2) f64_round_val[OF f64_val_nat[OF k(3)]] by simp
  then have "q * 1000000000 = of_int (int n * 1000000000)" by simp
  then have "round_half_even (q * 1000000000) = int n * 1000000000" by (simp only: round_half_even_int)
  then show ?thesis unfolding z(3) dur_from_secs_def by simp
qed

lemma volume_mono:
  assumes "profile_ok v" "2 \<le> rate" "rate < 2 ^ 32" "i \<le> j" "j < 2 ^ 64"
  shows "fl_le (frame_volume rate v i) (frame_volume rate v j)"
  using assms unfolding frame_volume_def profile_ok_def by (intro gain_mono elapsed_mono) auto

section \<open>Playback under a profile\<close>

text \<open>The reference: frame \<open>i\<close> of the source spread over the device channels, scaled by the gain of
  that frame.\<close>

definition scaled_frame :: "decoded_sound \<Rightarrow> volume_profile \<Rightarrow> nat \<Rightarrow> nat \<Rightarrow> f32 list" where
  "scaled_frame s v dc i =
     map (\<lambda>x. fl_mul f32_round x (frame_volume (ds_sample_rate s) v i)) (source_frame s dc i)"

text \<open>A one-shot playback that has produced \<open>k\<close> frames at the rate of the device.\<close>

definition profile_at :: "decoded_sound \<Rightarrow> volume_profile \<Rightarrow> nat \<Rightarrow> playback \<Rightarrow> bool" where
  "profile_at s v k pb \<longleftrightarrow>
     pb_sound pb = s \<and> pb_profile pb = v \<and> \<not> vp_repeat v \<and> pb_cursor_frames pb = FFin (of_nat k)
     \<and> pb_frames_played pb = k \<and> \<not> pb_finished pb"

lemma volume_unit: "profile_ok v \<Longrightarrow> unit_range (frame_volume rate v k)"
  unfolding frame_volume_def profile_ok_def by (intro gain_unit_range) simp_all

lemma silence_scaled:
  assumes "profile_ok v" "ds_frames s \<le> k" "length f = dc"
  shows "silence f = scaled_frame s v dc k"
proof -
  obtain g where "frame_volume (ds_sample_rate s) v k = FFin g"
    using volume_unit[OF assms(1)] by (auto simp: unit_range_def)
  then show ?thesis
    using assms(2,3) f32_round_val[OF f32_val_0]
    by (simp add: silence_def scaled_frame_def source_frame_def map_replicate_const)
qed

lemma render_scaled:
  assumes "source_ok s" "k < ds_frames s" "length f = dc"
  shows "render_frame s k g f = map (\<lambda>x. fl_mul f32_round x g) (source_frame s dc k)"
proof -
  note fr = source_ok_frames[OF assms(1)]
  have "sample_at s (usize_saturating_mul k (ds_channels s) + ch mod ds_channels s)
      = ds_samples s ! (k * ds_channels s + ch mod ds_channels s)" for ch
  proof -
    have i: "k * ds_channels s + ch mod ds_channels s < length (ds_samples s)"
      using frame_index[OF assms(2)] fr by simp
    moreover have "length (ds_samples s) < 2 ^ 52" using assms(1) by (simp add: source_ok_def)
    ultimately have "usize_saturating_mul k (ds_channels s) = k * ds_channels s"
      by (simp add: usize_saturating_mul_def)
    with i show ?thesis by (simp add: sample_at_def nth_get_def)
  qed
  then show ?thesis using assms(2,3) by (simp add: render_frame_def source_frame_def)
qed

lemma profile_frame:
  assumes "source_ok s" "profile_ok v" "profile_at s v k pb" "length f = dc"
    and "2 \<le> ds_sample_rate s" "ds_sample_rate s < 2 ^ 32" "k \<le> ds_frames s"
  shows "\<exists>pb'. fill_frame (ds_sample_rate s) pb f = Some (scaled_frame s v dc k, pb')
    \<and> (if k < ds_frames s then profile_at s v (Suc k) pb' else pb_finished pb' \<and> pb_profile pb' = v)"
proof -
  note fr = source_ok_frames[OF assms(1)]
  have pb: "pb_sound pb = s" "pb_profile pb = v" "\<not> vp_repeat v" "pb_cursor_frames pb = FFin (of_nat k)"
    "pb_frames_played pb = k" "\<not> pb_finished pb" using assms(3) by (simp_all add: profile_at_def)
  have k: "fl_as_usize (FFin (of_nat k)) = k" using fr assms(7) by (simp add: fl_as_usize_nat)
  show ?thesis
  proof (cases "k < ds_frames s")
    case True
    have "pb_ok pb" using fr True pb(5) by (simp add: pb_ok_def)
    from frame_gain_volume[OF this assms(5,6)]
    have g: "frame_gain (ds_sample_rate s) pb = Some (frame_volume (ds_sample_rate s) v k)" using pb by simp
    have "f64_val (of_nat (Suc k))" using fr True by (intro f64_val_nat) simp
    then have nxt: "f64_round (of_nat k + 1) = FFin (of_nat (Suc k))"
      using f64_round_val[of "of_nat (Suc k)"] by (simp add: add.commute)
    have st: "resample_step (ds_sample_rate s) (ds_sample_rate s) = FFin 1"
      using step_same_rate assms(5,6) by simp
    show ?thesis
      using fr True pb g
      by (simp add: fill_frame_def Let_def k st nxt render_scaled[OF assms(1) True assms(4)] profile_at_def
          scaled_frame_def u64_saturating_inc_def)
  next
    case False
    then show ?thesis
      using fr pb k by (simp add: fill_frame_def Let_def silence_scaled[OF assms(2) _ assms(4)])
  qed
qed

lemma profile_frames:
  assumes "source_ok s" "profile_ok v" "2 \<le> ds_sample_rate s" "ds_sample_rate s < 2 ^ 32"
    and "profile_at s v k pb" "k \<le> ds_frames s" "list_all (\<lambda>f. length f = dc) fs"
  shows "\<exists>pb'. fill_frames (ds_sample_rate s) pb fs = Some (map (scaled_frame s v dc) [k..<k + length fs], pb')
    \<and> (if k + length fs \<le> ds_frames s then profile_at s v (k + length fs) pb'
       else pb_finished pb' \<and> pb_profile pb' = v)"
  using assms(5-7)
proof (induction fs arbitrary: k pb)
  case (Cons f fs)
  have f: "length f = dc" "list_all (\<lambda>f. length f = dc) fs" using Cons.prems(3) by simp_all
  from profile_frame[OF assms(1,2) Cons.prems(1) f(1) assms(3,4) Cons.prems(2)] obtain pb1 where
    1: "fill_frame (ds_sample_rate s) pb f = Some (scaled_frame s v dc k, pb1)"
    "if k < ds_frames s then profile_at s v (Suc k) pb1 else pb_finished pb1 \<and> pb_profile pb1 = v" by blast
  show ?case
  proof (cases "k < ds_frames s")
    case True
    with Cons.IH[of "Suc k" pb1] 1 f(2) show ?thesis
      unfolding length_Cons upt_step by (auto simp del: upt_Suc)
  next
    case False
    have "map silence fs = map (scaled_frame s v dc) [j..<j + length fs]" if "ds_frames s \<le> j" for j
      using that f(2)
    proof (induction fs arbitrary: j)
      case (Cons f fs)
      from Cons.IH[of "Suc j"] Cons.prems show ?case
        unfolding length_Cons upt_step by (simp add: silence_scaled[OF assms(2)] del: upt_Suc)
    qed simp
    from this[of "Suc k"] False 1 Cons.prems(2) show ?thesis
      unfolding length_Cons upt_step by (simp add: fill_frames_done del: upt_Suc)
  qed
qed simp

section \<open>Properties\<close>


definition ramp_profile :: volume_profile where
  "ramp_profile = \<lparr>vp_target = FFin 1, vp_ramp = Linear (dur_from_secs 5), vp_repeat = False\<rparr>"

definition ramp_shared :: shared where
  "ramp_shared = snd (handle_play shared_new two_frames ramp_profile True)"


end
