(* ===== verification/Alarm_Service.thy ===== *)
theory Alarm_Service
  imports Startup Client
begin

text \<open>
  The service as a whole: calls that arrive over the bus (\<open>ipc/control.rs\<close> behind \<open>dispatch\<close>), steps of
  the spawned trigger tasks, and process restarts through all of \<open>run\<close> (\<open>main.rs\<close>) on the disk the last
  process left.  It refines an alarm clock without tasks, handles, disk and time.
\<close>

section \<open>The running service\<close>

text \<open>A restart may follow an orderly stop or a kill between two calls: nothing but the disk survives.\<close>

datatype ('p, 'src) svc_event =
    SCall call_env string bus_arg
  | STask "'src ctl_event"
  | SRestart "'p boot" environment int

text \<open>A step yields the reply of a call; a restart that does not come up ends the run.\<close>

definition svc_step ::
  "('w, 'db, 'rtx, 'tab, 'wtx) redb_api \<Rightarrow> 'p audio_ops \<Rightarrow> ('src, 'fmt, 'dec, 'pkt) symphonia_api \<Rightarrow>
   ('p, 'src) svc_event \<Rightarrow> ('p, 'db, 'w) control \<Rightarrow>
   ((bus_error + bus_reply) list \<times> ('p, 'db, 'w) control) option" where
  "svc_step api aud sy ev c =
     (case ev of
        SCall ce m arg \<Rightarrow> (case dispatch api aud ce m arg c of (r, c') \<Rightarrow> Some ([r], c'))
      | STask e \<Rightarrow> Some ([], ctl_step api aud sy e c)
      | SRestart b env clk \<Rightarrow>
          (case run api b env clk (c_disk c) of
             (_, _, Some c') \<Rightarrow> Some ([], c')
           | (_, _, None) \<Rightarrow> None))"

fun svc_run ::
  "('w, 'db, 'rtx, 'tab, 'wtx) redb_api \<Rightarrow> 'p audio_ops \<Rightarrow> ('src, 'fmt, 'dec, 'pkt) symphonia_api \<Rightarrow>
   ('p, 'src) svc_event list \<Rightarrow> ('p, 'db, 'w) control \<Rightarrow>
   ((bus_error + bus_reply) list \<times> ('p, 'db, 'w) control) option" where
  "svc_run api aud sy [] c = Some ([], c)"
| "svc_run api aud sy (ev # evs) c =
     (case svc_step api aud sy ev c of
        None \<Rightarrow> None
      | Some (rs, c') \<Rightarrow> map_option (map_prod (append rs) id) (svc_run api aud sy evs c'))"

section \<open>The abstract alarm clock\<close>

text \<open>What a client can know: where sounds are looked up, whether the alarm is armed, and with which
  sound.\<close>

record alarm_clock =
  al_lib :: sound_library
  al_armed :: bool
  al_sound :: "string option"

definition select_sound :: "fs \<Rightarrow> string \<Rightarrow> alarm_clock \<Rightarrow> (bus_error + bus_reply) \<times> alarm_clock" where
  "select_sound fs sid a =
     (case resolve_path fs (al_lib a) sid of
        Inl e \<Rightarrow> (Inl (RemoteError (InvalidArgs (MsgAudio e))), a)
      | Inr _ \<Rightarrow> (Inr UnitReply, a\<lparr>al_armed := True, al_sound := Some sid\<rparr>))"

definition alarm_call :: "fs \<Rightarrow> string \<Rightarrow> bus_arg \<Rightarrow> alarm_clock \<Rightarrow> (bus_error + bus_reply) \<times> alarm_clock" where
  "alarm_call fs m arg a =
     (if m = ''Arm'' then (case arg of StrArg sid \<Rightarrow> select_sound fs sid a | _ \<Rightarrow> (Inl BadMessage, a))
      else if m \<in> {''Disarm'', ''Dismiss''} then (Inr UnitReply, a\<lparr>al_armed := False, al_sound := None\<rparr>)
      else if m = ''Snooze'' then
        (case (arg, al_sound a) of
           (U32Arg n, s) \<Rightarrow>
             if n = 0 then (Inl (RemoteError (InvalidArgs MsgDurationZero)), a)
             else (case s of None \<Rightarrow> (Inl (RemoteError (Failed MsgNoArmedSound)), a)
                   | Some sid \<Rightarrow> select_sound fs sid a)
         | _ \<Rightarrow> (Inl BadMessage, a))
      else if m = ''Status'' then (Inr (BoolReply (al_armed a)), a)
      else if m = ''CurrentSound'' then (Inr (StrReply (case al_sound a of Some s \<Rightarrow> s | None \<Rightarrow> [])), a)
      else if m = ''ListSounds'' then
        (case list_sounds fs (al_lib a) of
           Inl e \<Rightarrow> Inl (RemoteError (Failed (MsgAudio e)))
         | Inr out \<Rightarrow> Inr (StrsReply (map ss_id out)), a)
      else (Inl (UnknownMethod m), a))"

text \<open>Time passing and tasks firing change nothing; a restart only re-reads the two directories.\<close>

definition alarm_step ::
  "('p, 'src) svc_event \<Rightarrow> alarm_clock \<Rightarrow> (bus_error + bus_reply) list \<times> alarm_clock" where
  "alarm_step ev a =
     (case ev of
        SCall ce m arg \<Rightarrow> (case alarm_call (ce_fs ce) m arg a of (r, a') \<Rightarrow> ([r], a'))
      | STask e \<Rightarrow> ([], a)
      | SRestart b env clk \<Rightarrow> ([], a\<lparr>al_lib := library_from_env env\<rparr>))"

fun alarm_run :: "('p, 'src) svc_event list \<Rightarrow> alarm_clock \<Rightarrow> (bus_error + bus_reply) list \<times> alarm_clock" where
  "alarm_run [] a = ([], a)"
| "alarm_run (ev # evs) a =
     (let (rs, a') = alarm_step ev a; (rs', a'') = alarm_run evs a' in (rs @ rs', a''))"

section \<open>The abstraction\<close>

definition clock_of :: "('p, 'db, 'w) control \<Rightarrow> alarm_clock" where
  "clock_of c = \<lparr>al_lib = c_sounds c, al_armed = control_status c, al_sound = daemon_current_sound (c_daemon c)\<rparr>"

text \<open>The environments under which the refinement is claimed: no call is cancelled, armed ids fit the
  format of the database, and a restart finds its bus, directory, audio thread and the database of
  the previous process.\<close>

fun event_ok :: "path \<Rightarrow> ('p, 'src) svc_event \<Rightarrow> bool" where
  "event_ok path (SCall ce m arg) \<longleftrightarrow> \<not> ce_cancelled ce
     \<and> (case arg of StrArg sid \<Rightarrow> rust_str sid \<and> length sid \<le> 65535 | _ \<Rightarrow> True)"
| "event_ok path (STask e) \<longleftrightarrow> task_event e"
| "event_ok path (SRestart b env clk) \<longleftrightarrow>
     (case bus_from_env env of
        Inl _ \<Rightarrow> False
      | Inr k \<Rightarrow> db_path env k = path \<and> connect b k = Inr ()
          \<and> b_create_dir_all b (custom_dir (library_from_env env)) = Inr () \<and> (\<exists>p. b_spawn_audio b = Inr p))"

text \<open>Memory and disk agree, and the state can be stored.\<close>

definition svc_inv :: "('w, 'db, 'rtx, 'tab, 'wtx) redb_view \<Rightarrow> path \<Rightarrow> ('p, 'db, 'w) control \<Rightarrow> bool" where
  "svc_inv view path c \<longleftrightarrow> synced view path (c_daemon c, c_disk c) \<and> sound_storable (d_inner (c_daemon c))"

lemma clock_armed:
  "d_inner (c_daemon c) = state_armed (Some sid) t \<Longrightarrow>
    clock_of c = \<lparr>al_lib = c_sounds c, al_armed = True, al_sound = Some sid\<rparr>"
  by (simp add: clock_of_def control_status_def daemon_status_def daemon_current_sound_def state_armed_def is_armed_def)

lemma clock_disarmed:
  "d_inner (c_daemon c) = state_disarmed \<Longrightarrow> clock_of c = \<lparr>al_lib = c_sounds c, al_armed = False, al_sound = None\<rparr>"
  by (simp add: clock_of_def control_status_def daemon_status_def daemon_current_sound_def state_disarmed_def is_armed_def)

lemma storable_selected:
  "sound_storable st \<Longrightarrow> st_current_sound st = Some sid \<Longrightarrow> rust_str sid \<and> length sid \<le> 65535"
  by (auto simp: sound_storable_def storable_def to_persisted_def)

context redb_reliable
begin

lemma schedule_refines:
  assumes "svc_inv view path c" "\<not> ce_cancelled ce" "rust_str sid" "length sid \<le> 65535"
    and "schedule_trigger_with_delay api aud ce sid delay c = (r, c')"
  shows "(unit_reply (map_sum id (\<lambda>_. ()) r), clock_of c') = select_sound (ce_fs ce) sid (clock_of c) \<and> svc_inv view path c'"
proof (cases "resolve_path (ce_fs ce) (c_sounds c) sid")
  case (Inl e)
  with schedule_error[OF this, of api aud delay] assms(1,5) show ?thesis
    by (auto simp: select_sound_def clock_of_def unit_reply_def)
next
  case (Inr p)
  note ok = schedule_ok[OF Inr assms(5)]
  have st: "sound_storable (state_armed (Some sid) t)" for t using assms(3,4) by (simp add: sound_storable_armed)
  have "synced view path (c_daemon c', c_disk c')"
    using transition_synced[OF _ st] ok(3) assms(1,2) by (auto simp: svc_inv_def arm_with_sound_def)
  with st ok(1,2,8) clock_armed[OF ok(2)] Inr show ?thesis
    by (auto simp: svc_inv_def select_sound_def clock_of_def unit_reply_def)
qed

lemma svc_inv_notify [simp]: "svc_inv view path (notify ok t c) = svc_inv view path c"
  by (simp add: svc_inv_def ctl_simps)

lemma clock_notify [simp]: "clock_of (notify ok t c) = clock_of c"
  by (simp add: clock_of_def control_status_def ctl_simps)

lemma disarm_refines:
  assumes "svc_inv view path c" "\<not> ce_cancelled ce" "control_disarm api aud ce c = (r, c')"
  shows "r = Inr () \<and> clock_of c' = (clock_of c)\<lparr>al_armed := False, al_sound := None\<rparr> \<and> svc_inv view path c'"
proof -
  note ok = disarm_ok[OF assms(3)]
  have "synced view path (c_daemon c', c_disk c')"
    using transition_synced[OF _ sound_storable_disarmed] ok(9) assms(1,2) by (auto simp: svc_inv_def daemon_disarm_def)
  with ok(1,2,7) clock_disarmed[OF ok(2)] show ?thesis by (simp add: svc_inv_def clock_of_def)
qed

lemma arm_refines:
  assumes "svc_inv view path c" "\<not> ce_cancelled ce" "rust_str sid" "length sid \<le> 65535"
    and "control_arm api aud ce sid c = (r, c')"
  shows "(unit_reply r, clock_of c') = select_sound (ce_fs ce) sid (clock_of c) \<and> svc_inv view path c'"
proof -
  obtain q t where sc: "schedule_trigger_with_delay api aud ce sid (c_trigger_delay c) c = (q, t)"
    "control_arm api aud ce sid c = (case q of Inl e \<Rightarrow> (Inl e, t) | Inr tr \<Rightarrow> (Inr (), notify (ce_emit_ok ce) tr t))"
    using arm_via_schedule[of api aud ce sid c] by blast
  from schedule_refines[OF assms(1-4) sc(1)] sc(2) assms(5) show ?thesis
    by (auto simp: unit_reply_def split: sum.splits)
qed

lemma snooze_refines:
  assumes "svc_inv view path c" "\<not> ce_cancelled ce" "control_snooze api aud ce n c = (r, c')"
  shows "(unit_reply r, clock_of c') = alarm_call (ce_fs ce) ''Snooze'' (U32Arg n) (clock_of c) \<and> svc_inv view path c'"
proof (cases "n = 0")
  case True
  with assms show ?thesis by (auto simp: control_snooze_def alarm_call_def unit_reply_def)
next
  case False
  have snd: "al_sound (clock_of c) = st_current_sound (d_inner (c_daemon c))"
    by (simp add: clock_of_def daemon_current_sound_def)
  show ?thesis
  proof (cases "daemon_current_sound (c_daemon c)")
    case None
    with assms False snd show ?thesis
      by (auto simp: control_snooze_def alarm_call_def unit_reply_def daemon_current_sound_def)
  next
    case (Some sid)
    then have st: "rust_str sid" "length sid \<le> 65535"
      using assms(1) storable_selected by (auto simp: svc_inv_def daemon_current_sound_def)
    obtain q t where sc: "schedule_trigger_with_delay api aud ce sid (dur_from_secs (unat n)) c = (q, t)"
      by (cases "schedule_trigger_with_delay api aud ce sid (dur_from_secs (unat n)) c")
    have "(r, c') = (map_sum id (\<lambda>_. ()) q, t)" using snooze_ok[OF False Some, of api aud ce] sc assms(3) by simp
    with schedule_refines[OF assms(1,2) st sc] False Some snd show ?thesis
      by (simp add: alarm_call_def daemon_current_sound_def)
  qed
qed

lemma call_refines:
  assumes "svc_inv view path c" "event_ok path (SCall ce m arg)" "dispatch api aud ce m arg c = (r, c')"
  shows "alarm_call (ce_fs ce) m arg (clock_of c) = (r, clock_of c') \<and> svc_inv view path c'"
proof -
  note inv = assms(1) and d = assms(3)[unfolded dispatch_def]
  have nc: "\<not> ce_cancelled ce" using assms(2) by simp
  consider (arm) sid where "m = ''Arm''" "arg = StrArg sid" | (snz) n where "m = ''Snooze''" "arg = U32Arg n"
    | (dis) "m = ''Disarm'' \<or> m = ''Dismiss''"
    | (rest) "m \<notin> {''Arm'', ''Snooze'', ''Disarm'', ''Dismiss''}
        \<or> (m = ''Arm'' \<and> (\<forall>s. arg \<noteq> StrArg s)) \<or> (m = ''Snooze'' \<and> (\<forall>n. arg \<noteq> U32Arg n))"
    by blast
  then show ?thesis
  proof cases
    case arm
    obtain x y where "control_arm api aud ce sid c = (x, y)" by (cases "control_arm api aud ce sid c")
    with arm_refines[OF inv nc _ _ this] assms(2) d arm show ?thesis by (auto simp: alarm_call_def)
  next
    case snz
    obtain x y where "control_snooze api aud ce n c = (x, y)" by (cases "control_snooze api aud ce n c")
    with snooze_refines[OF inv nc this] d snz show ?thesis by auto
  next
    case dis
    obtain x y where "control_disarm api aud ce c = (x, y)" by (cases "control_disarm api aud ce c")
    with disarm_refines[OF inv nc this] d dis show ?thesis
      by (auto simp: alarm_call_def dismiss_is_disarm unit_reply_def)
  next
    case rest
    have c: "c' = c" using rest d by (auto split: bus_arg.splits if_splits)
    have "alarm_call (ce_fs ce) m arg (clock_of c) = (r, clock_of c)"
      using rest d
      by (auto simp: alarm_call_def clock_of_def control_current_sound_def control_list_sounds_def
          split: bus_arg.splits if_splits sum.splits)
    with c inv show ?thesis by simp
  qed
qed

lemma restart_refines:
  assumes "svc_inv view path c" "event_ok path (SRestart b env clk)"
  shows "\<exists>tr r c'. run api b env clk (c_disk c) = (tr, r, Some c') \<and> svc_inv view path c'
    \<and> clock_of c' = (clock_of c)\<lparr>al_lib := library_from_env env\<rparr>"
proof -
  obtain k p where k: "bus_from_env env = Inr k" "db_path env k = path" "connect b k = Inr ()"
    "b_create_dir_all b (custom_dir (library_from_env env)) = Inr ()" "b_spawn_audio b = Inr p"
    using assms(2) by (auto split: sum.splits)
  have disk: "disk_state (stored view (db_path env k) (c_disk c)) = Some (d_inner (c_daemon c))"
    using assms(1) k(2) by (simp add: svc_inv_def synced_def)
  obtain tr r c' where run: "run api b env clk (c_disk c) = (tr, r, Some c')"
    "d_inner (c_daemon c') = d_inner (c_daemon c)"
    using run_succeeds[OF redb_reliable_axioms k(1) disk k(4,5,3), of clk] by blast
  obtain d rec w' where np: "new_persistent api clk (from_path path) (c_disk c) = (Inr (d, rec), w')"
    "\<exists>player. c' = control_new env d w' (library_from_env env) player"
    using run_served[OF run(1)] k(1,2) by auto
  have "synced view path (d, w')" using restart_synced[OF disk[unfolded k(2)], of clk] np(1) by auto
  then have "svc_inv view path c'" using np(2) run(2) assms(1) by (auto simp: svc_inv_def control_new_def)
  moreover have "clock_of c' = (clock_of c)\<lparr>al_lib := library_from_env env\<rparr>"
    using np(2) run(2) by (auto simp: clock_of_def control_new_def control_status_def daemon_status_def daemon_current_sound_def)
  ultimately show ?thesis using run(1) by blast
qed

lemma svc_step_refines:
  assumes "svc_inv view path c" "event_ok path ev"
  shows "\<exists>c'. svc_step api aud sy ev c = Some (fst (alarm_step ev (clock_of c)), c')
    \<and> clock_of c' = snd (alarm_step ev (clock_of c)) \<and> svc_inv view path c'"
proof (cases ev)
  case (SCall ce m arg)
  obtain r c' where "dispatch api aud ce m arg c = (r, c')" by (cases "dispatch api aud ce m arg c")
  with call_refines[OF assms(1)] assms(2) SCall show ?thesis by (auto simp: svc_step_def alarm_step_def)
next
  case (STask e)
  with assms(2) have "task_event e" by simp
  with task_event_fields[OF this, of api aud sy c] STask assms(1) show ?thesis
    by (cases e) (auto simp: svc_step_def alarm_step_def svc_inv_def clock_of_def control_status_def ctl_simps)
next
  case (SRestart b env clk)
  with restart_refines[OF assms(1)] assms(2) show ?thesis by (fastforce simp: svc_step_def alarm_step_def)
qed

lemma svc_run_refines:
  assumes "svc_inv view path c" "list_all (event_ok path) evs"
  shows "\<exists>c'. svc_run api aud sy evs c = Some (fst (alarm_run evs (clock_of c)), c')
    \<and> clock_of c' = snd (alarm_run evs (clock_of c)) \<and> svc_inv view path c'"
  using assms
proof (induction evs arbitrary: c)
  case (Cons ev evs)
  obtain c1 where 1: "svc_step api aud sy ev c = Some (fst (alarm_step ev (clock_of c)), c1)"
    "clock_of c1 = snd (alarm_step ev (clock_of c))" "svc_inv view path c1"
    using svc_step_refines[of path c ev aud sy] Cons.prems by auto
  obtain c2 where 2: "svc_run api aud sy evs c1 = Some (fst (alarm_run evs (clock_of c1)), c2)"
    "clock_of c2 = snd (alarm_run evs (clock_of c1))" "svc_inv view path c2"
    using Cons.IH[OF 1(3)] Cons.prems(2) by auto
  show ?case using 1 2 by (simp add: Let_def split_beta)
qed auto

end

section \<open>Properties\<close>

text \<open>C8: the whole service is an alarm clock.  On a disk that works, from any state in which memory and
  disk agree, every sequence of bus calls, trigger task steps and process restarts runs through,
  answers each call exactly as the abstract alarm clock does, and ends in its state: tasks, time
  and restarts are invisible to clients, and memory and disk agree again.\<close>

theorem service_is_alarm_clock:
  assumes "redb_reliable api view" and "svc_inv view path c" and "list_all (event_ok path) evs"
  shows "\<exists>c'. svc_run api aud sy evs c = Some (fst (alarm_run evs (clock_of c)), c')
    \<and> clock_of c' = snd (alarm_run evs (clock_of c)) \<and> svc_inv view path c'"
  using redb_reliable.svc_run_refines[OF assms] .

text \<open>A service on the demo library, for the witness: armed, restarted, snoozed, dismissed.\<close>

definition service_env :: environment where
  "service_env =
     [''ALARM_DAEMON_DB_PATH'' \<mapsto> ''/s'', ''ALARM_DAEMON_SOUND_DIR'' \<mapsto> ''/b'',
      ''ALARM_DAEMON_CUSTOM_SOUND_DIR'' \<mapsto> ''/c'']"

lemma service_env_simps:
  "bus_from_env service_env = Inr Session" "db_path service_env k = ''/s''" "library_from_env service_env = demo_lib"
  by (simp_all add: service_env_def bus_from_env_def env_var_def bus_parse_def db_path_def library_from_env_def
      library_new_def demo_lib_def rust_str_def)

lemma demo_boot_ok: "event_ok path (SRestart demo_boot env clk) \<longleftrightarrow>
    (case bus_from_env env of Inl _ \<Rightarrow> False | Inr k \<Rightarrow> db_path env k = path)"
  by (simp add: connect_def demo_boot_def bind_r_def map_err_def split: sum.split)

theorem service_is_alarm_clock_witness:
  "\<exists>c'. svc_run mem_api fake_ops demo_sym
      [SCall demo_env ''Arm'' (StrArg ''builtin:horn''), SRestart demo_boot service_env 5, SCall demo_env ''Snooze'' (U32Arg 9),
       STask (EWake 9 0), SCall demo_env ''Snooze'' (U32Arg 0), SCall demo_env ''CurrentSound'' NoArg,
       SCall demo_env ''Dismiss'' NoArg, SCall demo_env ''Status'' NoArg] demo_control
    = Some ([Inr UnitReply, Inr UnitReply, Inl (RemoteError (InvalidArgs MsgDurationZero)), Inr (StrReply ''builtin:horn''),
             Inr UnitReply, Inr (BoolReply False)], c')"
proof -
  have inv: "svc_inv mem_view ''/s'' demo_control" using demo_synced by (simp add: svc_inv_def)
  have clk: "clock_of demo_control = \<lparr>al_lib = demo_lib, al_armed = False, al_sound = None\<rparr>"
    using clock_disarmed[of demo_control] by simp
  show ?thesis
    using service_is_alarm_clock[OF mem.redb_reliable_axioms inv,
        of "[SCall demo_env ''Arm'' (StrArg ''builtin:horn''), SRestart demo_boot service_env 5,
          SCall demo_env ''Snooze'' (U32Arg 9), STask (EWake 9 0), SCall demo_env ''Snooze'' (U32Arg 0),
          SCall demo_env ''CurrentSound'' NoArg, SCall demo_env ''Dismiss'' NoArg, SCall demo_env ''Status'' NoArg]"
        fake_ops demo_sym]
    by (auto simp: clk demo_boot_ok service_env_simps rust_str_def alarm_step_def alarm_call_def select_sound_def
        demo_resolve simp del: event_ok.simps(3))
qed

end
