(* ===== verification/Ringing.thy ===== *)
theory Ringing
  imports Alarm_Service
begin

text \<open>
  What is heard, and when.  The service of \<open>Alarm_Service\<close>, driven by calls, ticks of the runtime's timer
  (\<open>tokio::time::sleep\<close> in \<open>ipc/control.rs\<close>) and restarts, refines a clock with one timer and one device:
  no task list, no handles, no disk.
\<close>

section \<open>Calls, ticks and restarts\<close>

text \<open>At a tick the runtime polls every task whose sleep has ended, and each completes its body.\<close>

datatype ('p, 'src) timed_event =
    TCall call_env string bus_arg
  | TTick nat "path \<Rightarrow> string + 'src"
  | TRestart "'p boot" environment int

definition tick_events :: "nat \<Rightarrow> (path \<Rightarrow> string + 'src) \<Rightarrow> nat list \<Rightarrow> 'src ctl_event list" where
  "tick_events now open_file is = concat (map (\<lambda>i. [EWake now i, ERun i open_file]) is)"

fun timed_events :: "('p, 'src) timed_event \<Rightarrow> ('p, 'db, 'w) control \<Rightarrow> ('p, 'src) svc_event list" where
  "timed_events (TCall ce m arg) c = [SCall ce m arg]"
| "timed_events (TTick now open_file) c = map STask (tick_events now open_file [0..<length (c_tasks c)])"
| "timed_events (TRestart b env clk) c = [SRestart b env clk]"

fun timed_run ::
  "('w, 'db, 'rtx, 'tab, 'wtx) redb_api \<Rightarrow> 'p audio_ops \<Rightarrow> ('src, 'fmt, 'dec, 'pkt) symphonia_api \<Rightarrow>
   ('p, 'src) timed_event list \<Rightarrow> ('p, 'db, 'w) control \<Rightarrow>
   ((bus_error + bus_reply) list \<times> ('p, 'db, 'w) control) option" where
  "timed_run api aud sy [] c = Some ([], c)"
| "timed_run api aud sy (ev # evs) c =
     (case svc_run api aud sy (timed_events ev c) c of
        None \<Rightarrow> None
      | Some (rs, c') \<Rightarrow> map_option (map_prod (append rs) id) (timed_run api aud sy evs c'))"

section \<open>The abstract clock\<close>

text \<open>The file that will sound next and when, the sound device, and the signals sent.\<close>

record 'p ringer =
  rg_clock :: alarm_clock
  rg_delay :: duration
  rg_due :: "(path \<times> nat) option"
  rg_device :: 'p
  rg_signals :: "bool list"

definition set_timer :: "'p audio_ops \<Rightarrow> call_env \<Rightarrow> string \<Rightarrow> duration \<Rightarrow> bool \<Rightarrow> 'p ringer \<Rightarrow> 'p ringer" where
  "set_timer aud ce sid delay announce a =
     (case resolve_path (ce_fs ce) (al_lib (rg_clock a)) sid of
        Inl e \<Rightarrow> a
      | Inr p \<Rightarrow> a\<lparr>rg_due := Some (p, ce_now ce + delay), rg_device := snd (ao_stop aud (rg_device a)),
          rg_signals := rg_signals a @ (if announce \<and> \<not> al_armed (rg_clock a) \<and> ce_emit_ok ce then [True] else [])\<rparr>)"

definition clear_timer :: "'p audio_ops \<Rightarrow> call_env \<Rightarrow> 'p ringer \<Rightarrow> 'p ringer" where
  "clear_timer aud ce a =
     a\<lparr>rg_due := None, rg_device := snd (ao_stop aud (rg_device a)),
       rg_signals := rg_signals a @ (if al_armed (rg_clock a) \<and> ce_emit_ok ce then [False] else [])\<rparr>"

definition ring_call :: "'p audio_ops \<Rightarrow> call_env \<Rightarrow> string \<Rightarrow> bus_arg \<Rightarrow> 'p ringer \<Rightarrow> 'p ringer" where
  "ring_call aud ce m arg a =
     (if m = ''Arm'' then (case arg of StrArg sid \<Rightarrow> set_timer aud ce sid (rg_delay a) True a | _ \<Rightarrow> a)
      else if m = ''Snooze'' then
        (case (arg, al_sound (rg_clock a)) of
           (U32Arg n, Some sid) \<Rightarrow>
             if n = 0 then a else set_timer aud ce sid (dur_from_secs (unat n)) False a
         | _ \<Rightarrow> a)
      else if m \<in> {''Disarm'', ''Dismiss''} then clear_timer aud ce a
      else a)"

text \<open>The alarm rings: the file is decoded and played at full volume; a file that does not decode is
  passed over in silence.\<close>

definition ring ::
  "('src, 'fmt, 'dec, 'pkt) symphonia_api \<Rightarrow> (path \<Rightarrow> string + 'src) \<Rightarrow> 'p audio_ops \<Rightarrow> path \<Rightarrow> 'p \<Rightarrow> 'p" where
  "ring sy open_file aud p dev =
     (case from_path_decode sy open_file p of
        Some (Inr s) \<Rightarrow> snd (ao_play aud s full_volume dev)
      | _ \<Rightarrow> dev)"

definition ring_tick ::
  "('src, 'fmt, 'dec, 'pkt) symphonia_api \<Rightarrow> 'p audio_ops \<Rightarrow> nat \<Rightarrow> (path \<Rightarrow> string + 'src) \<Rightarrow>
   'p ringer \<Rightarrow> 'p ringer" where
  "ring_tick sy aud now open_file a =
     (case rg_due a of
        Some (p, t) \<Rightarrow>
          if t \<le> now then a\<lparr>rg_due := None, rg_device := ring sy open_file aud p (rg_device a)\<rparr> else a
      | None \<Rightarrow> a)"

text \<open>A restart forgets the timer: the alarm stays armed but nothing is due.\<close>

fun ring_step ::
  "('src, 'fmt, 'dec, 'pkt) symphonia_api \<Rightarrow> 'p audio_ops \<Rightarrow> ('p, 'src) timed_event \<Rightarrow> 'p ringer \<Rightarrow>
   (bus_error + bus_reply) list \<times> 'p ringer" where
  "ring_step sy aud (TCall ce m arg) a =
     (case alarm_call (ce_fs ce) m arg (rg_clock a) of
        (r, k) \<Rightarrow> ([r], (ring_call aud ce m arg a)\<lparr>rg_clock := k\<rparr>))"
| "ring_step sy aud (TTick now open_file) a = ([], ring_tick sy aud now open_file a)"
| "ring_step sy aud (TRestart b env clk) a =
     ([], \<lparr>rg_clock = (rg_clock a)\<lparr>al_lib := library_from_env env\<rparr>, rg_delay = trigger_delay_from_env env,
           rg_due = None, rg_device = projr (b_spawn_audio b), rg_signals = []\<rparr>)"

fun ring_run ::
  "('src, 'fmt, 'dec, 'pkt) symphonia_api \<Rightarrow> 'p audio_ops \<Rightarrow> ('p, 'src) timed_event list \<Rightarrow> 'p ringer \<Rightarrow>
   (bus_error + bus_reply) list \<times> 'p ringer" where
  "ring_run sy aud [] a = ([], a)"
| "ring_run sy aud (ev # evs) a =
     (let (rs, a') = ring_step sy aud ev a; (rs', a'') = ring_run sy aud evs a' in (rs @ rs', a''))"

section \<open>The abstraction\<close>

definition due_of :: "('p, 'db, 'w) control \<Rightarrow> (path \<times> nat) option" where
  "due_of c =
     (case c_trigger_task c of
        Some h \<Rightarrow> if sleeping c h then Some (tg_path (c_tasks c ! h), tg_deadline (c_tasks c ! h)) else None
      | None \<Rightarrow> None)"

definition ringer_of :: "('p, 'db, 'w) control \<Rightarrow> 'p ringer" where
  "ringer_of c =
     \<lparr>rg_clock = clock_of c, rg_delay = c_trigger_delay c, rg_due = due_of c, rg_device = c_player c,
      rg_signals = c_signals c\<rparr>"

text \<open>Between ticks no task is half-way through its body.\<close>

definition settled :: "('p, 'db, 'w) control \<Rightarrow> bool" where
  "settled c \<longleftrightarrow> ctl_inv c \<and> (\<forall>i. \<not> running c i)"

text \<open>Calls and restarts as in \<open>event_ok\<close>; at a tick the decoder returns on every file.\<close>

fun timed_ok :: "('src, 'fmt, 'dec, 'pkt) symphonia_api \<Rightarrow> path \<Rightarrow> ('p, 'src) timed_event \<Rightarrow> bool" where
  "timed_ok sy path (TCall ce m arg) \<longleftrightarrow> event_ok path (SCall ce m arg :: ('p, 'src) svc_event)"
| "timed_ok sy path (TTick now open_file) \<longleftrightarrow> (\<forall>p. from_path_decode sy open_file p \<noteq> None)"
| "timed_ok sy path (TRestart b env clk) \<longleftrightarrow> event_ok path (SRestart b env clk :: ('p, 'src) svc_event)"

section \<open>Ticks\<close>

lemma body_rings:
  "from_path_decode sy open_file p \<noteq> None \<Longrightarrow>
    trigger_body sy open_file aud p dev = Some (ring sy open_file aud p dev)"
proof -
  have "profile_new (FFin 1) Immediate False = Inr full_volume"
    by (simp add: profile_new_iff unit_range_def full_volume_def)
  then show "from_path_decode sy open_file p \<noteq> None \<Longrightarrow> ?thesis"
    by (auto simp: trigger_body_def ring_def split: sum.split)
qed

lemma due_sleeping:
  assumes "settled c"
  shows "due_of c = Some (p, t) \<longleftrightarrow> (\<exists>h. c_trigger_task c = Some h \<and> sleeping c h \<and>
      tg_path (c_tasks c ! h) = p \<and> tg_deadline (c_tasks c ! h) = t)"
  by (auto simp: due_of_def split: option.splits)

lemma settled_slot: "settled c \<Longrightarrow> sleeping c i \<Longrightarrow> c_trigger_task c = Some i"
  by (simp add: settled_def ctl_inv_def)

text \<open>A task whose time has come finishes in one go; for every other index nothing happens.\<close>

lemma poll_other:
  assumes "settled c" "\<not> (sleeping c i \<and> tg_deadline (c_tasks c ! i) \<le> now)"
  shows "run_trigger sy open_file aud i (wake_trigger now i c) = c"
proof -
  have "wake_trigger now i c = c" using assms(2) by (auto simp: wake_trigger_def sleeping_def)
  moreover have "run_trigger sy open_file aud i c = c"
    using assms(1) by (auto simp: run_trigger_def settled_def running_def)
  ultimately show ?thesis by simp
qed

lemma poll_due:
  assumes "settled c" "sleeping c i" "tg_deadline (c_tasks c ! i) \<le> now"
    and "\<forall>p. from_path_decode sy open_file p \<noteq> None"
    and "c' = run_trigger sy open_file aud i (wake_trigger now i c)"
  shows "settled c'" "\<forall>j. \<not> sleeping c' j"
    "ringer_of c' = (ringer_of c)\<lparr>rg_due := None,
        rg_device := ring sy open_file aud (tg_path (c_tasks c ! i)) (c_player c)\<rparr>"
proof -
  have c': "c' = c\<lparr>c_player := ring sy open_file aud (tg_path (c_tasks c ! i)) (c_player c),
      c_tasks := (c_tasks c)[i := (c_tasks c ! i)\<lparr>tg_state := Finished\<rparr>]\<rparr>"
    using assms(2,3,5)
    by (simp add: wake_trigger_def run_trigger_def sleeping_def body_rings[OF spec[OF assms(4)]])
  have other: "sleeping c' j \<Longrightarrow> sleeping c j \<and> j \<noteq> i" for j
    using assms(2) by (auto simp: c' sleeping_def nth_list_update split: if_splits)
  show quiet: "\<forall>j. \<not> sleeping c' j"
    using other settled_slot[OF assms(1)] assms(2) by (metis option.inject)
  have "ctl_inv c'" using assms(1) quiet by (auto simp: settled_def ctl_inv_def c')
  moreover have "\<not> running c' j" for j
    using assms(1,2) by (cases "j = i") (auto simp: settled_def running_def sleeping_def c')
  ultimately show "settled c'" by (simp add: settled_def)
  have "due_of c' = None" using quiet by (simp add: due_of_def split: option.split)
  then show "ringer_of c' = (ringer_of c)\<lparr>rg_due := None,
        rg_device := ring sy open_file aud (tg_path (c_tasks c ! i)) (c_player c)\<rparr>"
    by (simp add: ringer_of_def clock_of_def control_status_def c')
qed

lemma tick_list:
  assumes "settled c" "\<forall>p. from_path_decode sy open_file p \<noteq> None"
  shows "settled (ctl_run api aud sy (tick_events now open_file is) c)
    \<and> ringer_of (ctl_run api aud sy (tick_events now open_file is) c) =
      (if \<exists>h\<in>set is. c_trigger_task c = Some h then ring_tick sy aud now open_file (ringer_of c) else ringer_of c)"
  using assms(1)
proof (induction "is" arbitrary: c)
  case Nil
  then show ?case by (simp add: tick_events_def)
next
  case (Cons i "is")
  let ?c = "run_trigger sy open_file aud i (wake_trigger now i c)"
  note due = poll_due[OF Cons.prems _ _ assms(2) refl, of i now aud]
  have run: "ctl_run api aud sy (tick_events now open_file (i # is)) c =
      ctl_run api aud sy (tick_events now open_file is) ?c"
    by (simp add: tick_events_def)
  show ?case
  proof (cases "sleeping c i \<and> tg_deadline (c_tasks c ! i) \<le> now")
    case False
    have skip: "ring_tick sy aud now open_file (ringer_of c) = ringer_of c" if "c_trigger_task c = Some i"
      using that False by (simp add: ring_tick_def ringer_of_def due_of_def)
    with Cons run show ?thesis by (auto simp: poll_other[OF Cons.prems False])
  next
    case True
    have "list_all task_event (tick_events now open_file is)" by (auto simp: tick_events_def list_all_iff)
    then have rest: "ctl_run api aud sy (tick_events now open_file is) ?c = ?c"
      using due(1,2) True quiescent_run[of _ ?c] by (auto simp: settled_def)
    have "ring_tick sy aud now open_file (ringer_of c) = (ringer_of c)\<lparr>rg_due := None,
        rg_device := ring sy open_file aud (tg_path (c_tasks c ! i)) (c_player c)\<rparr>"
      using settled_slot[OF Cons.prems, of i] True by (simp add: ring_tick_def ringer_of_def due_of_def)
    with due rest run settled_slot[OF Cons.prems, of i] True show ?thesis by simp
  qed
qed

lemma tick_refines:
  assumes "settled c" "\<forall>p. from_path_decode sy open_file p \<noteq> None"
    and "c' = ctl_run api aud sy (tick_events now open_file [0..<length (c_tasks c)]) c"
  shows "settled c' \<and> ringer_of c' = ring_tick sy aud now open_file (ringer_of c)"
proof -
  have "ring_tick sy aud now open_file (ringer_of c) = ringer_of c"
    if "\<nexists>h. h \<in> set [0..<length (c_tasks c)] \<and> c_trigger_task c = Some h"
    using that by (auto simp: ring_tick_def ringer_of_def due_of_def sleeping_def split: option.splits)
  then show ?thesis using tick_list[OF assms(1,2), of api aud now "[0..<length (c_tasks c)]"] assms(3) by auto
qed

section \<open>Calls and restarts\<close>

lemma schedule_rings:
  assumes "settled c" "schedule_trigger_with_delay api aud ce sid delay c = (r, c')"
  shows "settled c' \<and> ringer_of c' = (set_timer aud ce sid delay False (ringer_of c))\<lparr>rg_clock := clock_of c'\<rparr>"
proof (cases "resolve_path (ce_fs ce) (c_sounds c) sid")
  case (Inl e)
  with assms show ?thesis by (auto simp: schedule_error set_timer_def ringer_of_def clock_of_def)
next
  case (Inr p)
  note ok = schedule_ok[OF Inr assms(2)]
  have "\<not> running c' i" for i
    using assms(1) cancelled_running[of i c] by (auto simp: settled_def running_def ok(5) nth_append)
  moreover have "due_of c' = Some (p, ce_now ce + delay)"
    by (simp add: due_of_def sleeping_def ok(4,5) nth_append)
  ultimately show ?thesis
    using assms(1) ctl_inv_schedule[OF _ assms(2)] Inr ok(6-9)
    by (simp add: settled_def set_timer_def ringer_of_def clock_of_def)
qed

lemma settled_notify [simp]: "settled (notify ok t c) = settled c"
  by (simp add: settled_def running_def ctl_simps)

lemma arm_rings:
  assumes "settled c" "control_arm api aud ce sid c = (r, c')"
  shows "settled c' \<and> ringer_of c' =
    (set_timer aud ce sid (c_trigger_delay c) True (ringer_of c))\<lparr>rg_clock := clock_of c'\<rparr>"
proof (cases "resolve_path (ce_fs ce) (c_sounds c) sid")
  case (Inl e)
  with assms show ?thesis by (auto simp: arm_error set_timer_def ringer_of_def clock_of_def)
next
  case (Inr p)
  note ok = arm_ok[OF Inr, of api aud, unfolded assms(2) fst_conv snd_conv]
  obtain q t where sc: "schedule_trigger_with_delay api aud ce sid (c_trigger_delay c) c = (q, t)"
    "control_arm api aud ce sid c = (case q of Inl e \<Rightarrow> (Inl e, t) | Inr tr \<Rightarrow> (Inr (), notify (ce_emit_ok ce) tr t))"
    using arm_via_schedule[of api aud ce sid c] by blast
  note sch = schedule_rings[OF assms(1) sc(1)]
  obtain tr where tr: "c' = notify (ce_emit_ok ce) tr t"
    using sc(2) assms(2) ok(1) by (auto split: sum.splits)
  have "due_of c' = due_of t" by (simp add: tr due_of_def sleeping_def ctl_simps split: option.split)
  then show ?thesis
    using sch tr Inr ok(5,6,8,9) by (auto simp: set_timer_def ringer_of_def clock_of_def control_status_def daemon_status_def)
qed

lemma disarm_rings:
  assumes "settled c" "control_disarm api aud ce c = (r, c')"
  shows "settled c' \<and> ringer_of c' = (clear_timer aud ce (ringer_of c))\<lparr>rg_clock := clock_of c'\<rparr>"
proof -
  note ok = disarm_ok[OF assms(2)]
  have inv: "ctl_inv c" "\<And>i. \<not> running c i" using assms(1) by (simp_all add: settled_def)
  have "settled c'"
    using disarm_quiet(2)[OF inv(1) assms(2)] ctl_inv_disarm[OF inv(1), of api aud ce] inv(2) assms(2)
    by (simp add: settled_def)
  then show ?thesis
    using ok(3,5-8) by (simp add: clear_timer_def ringer_of_def due_of_def clock_of_def control_status_def daemon_status_def)
qed

lemma snooze_rings:
  assumes "settled c" "control_snooze api aud ce n c = (r, c')"
  shows "settled c' \<and> ringer_of c' = (ring_call aud ce ''Snooze'' (U32Arg n) (ringer_of c))\<lparr>rg_clock := clock_of c'\<rparr>"
proof (cases "n \<noteq> 0 \<and> daemon_current_sound (c_daemon c) \<noteq> None")
  case False
  with assms show ?thesis
    by (auto simp: control_snooze_def ring_call_def ringer_of_def clock_of_def split: if_splits option.splits)
next
  case True
  then obtain sid where sid: "n \<noteq> 0" "daemon_current_sound (c_daemon c) = Some sid" by auto
  obtain q t where sc: "schedule_trigger_with_delay api aud ce sid (dur_from_secs (unat n)) c = (q, t)"
    by (cases "schedule_trigger_with_delay api aud ce sid (dur_from_secs (unat n)) c")
  have "c' = t" using snooze_ok[OF sid, of api aud ce] sc assms(2) by simp
  moreover have "al_sound (rg_clock (ringer_of c)) = Some sid" using sid(2) by (simp add: ringer_of_def clock_of_def)
  ultimately show ?thesis using schedule_rings[OF assms(1) sc] sid(1) by (simp add: ring_call_def)
qed

lemma call_rings:
  assumes "settled c" "dispatch api aud ce m arg c = (r, c')"
  shows "settled c' \<and> ringer_of c' = (ring_call aud ce m arg (ringer_of c))\<lparr>rg_clock := clock_of c'\<rparr>"
proof -
  note d = assms(2)[unfolded dispatch_def]
  have same: ?thesis if "c' = c" "ring_call aud ce m arg (ringer_of c) = ringer_of c"
    using that assms(1) by (simp add: ringer_of_def)
  consider (arm) sid where "m = ''Arm''" "arg = StrArg sid" | (snz) n where "m = ''Snooze''" "arg = U32Arg n"
    | (dis) "m = ''Disarm'' \<or> m = ''Dismiss''"
    | (rest) "m \<notin> {''Arm'', ''Snooze'', ''Disarm'', ''Dismiss''}
        \<or> (m = ''Arm'' \<and> (\<forall>s. arg \<noteq> StrArg s)) \<or> (m = ''Snooze'' \<and> (\<forall>n. arg \<noteq> U32Arg n))"
    by blast
  then show ?thesis
  proof cases
    case arm
    obtain x y where "control_arm api aud ce sid c = (x, y)" by (cases "control_arm api aud ce sid c")
    with d arm have "control_arm api aud ce sid c = (x, c')" by simp
    from arm_rings[OF assms(1) this] arm show ?thesis by (simp add: ring_call_def) (simp add: ringer_of_def)
  next
    case snz
    obtain x y where "control_snooze api aud ce n c = (x, y)" by (cases "control_snooze api aud ce n c")
    with d snz have "control_snooze api aud ce n c = (x, c')" by simp
    from snooze_rings[OF assms(1) this] snz show ?thesis by simp
  next
    case dis
    obtain x y where "control_disarm api aud ce c = (x, y)" by (cases "control_disarm api aud ce c")
    with d dis have "control_disarm api aud ce c = (x, c')" by (auto simp: dismiss_is_disarm)
    from disarm_rings[OF assms(1) this] dis show ?thesis by (auto simp: ring_call_def)
  next
    case rest
    have "c' = c" using rest d by (auto split: bus_arg.splits if_splits)
    moreover have "ring_call aud ce m arg (ringer_of c) = ringer_of c"
      using rest by (cases arg) (auto simp: ring_call_def)
    ultimately show ?thesis by (rule same)
  qed
qed

lemma stask_run: "svc_run api aud sy (map STask evs) c = Some ([], ctl_run api aud sy evs c)"
  by (induction evs arbitrary: c) (simp_all add: svc_step_def)

context redb_reliable
begin

lemma restart_rings:
  assumes "run api b env clk (c_disk c) = (tr, r, Some c')" "clock_of c' = k"
  shows "settled c' \<and> ringer_of c' = \<lparr>rg_clock = k, rg_delay = trigger_delay_from_env env, rg_due = None,
    rg_device = projr (b_spawn_audio b), rg_signals = []\<rparr>"
proof -
  obtain d w' player where "b_spawn_audio b = Inr player" "c' = control_new env d w' (library_from_env env) player"
    using run_served[OF assms(1)] by blast
  with assms(2) show ?thesis
    using ctl_inv_new[of env d w' "library_from_env env" player]
    by (simp add: settled_def ringer_of_def due_of_def running_def control_new_def)
qed

lemma timed_step_refines:
  assumes "svc_inv view path c" "settled c" "timed_ok sy path ev"
  shows "\<exists>c'. svc_run api aud sy (timed_events ev c) c = Some (fst (ring_step sy aud ev (ringer_of c)), c')
    \<and> ringer_of c' = snd (ring_step sy aud ev (ringer_of c)) \<and> svc_inv view path c' \<and> settled c'"
proof (cases ev)
  case (TCall ce m arg)
  obtain r c' where d: "dispatch api aud ce m arg c = (r, c')" by (cases "dispatch api aud ce m arg c")
  have "event_ok path (SCall ce m arg :: ('a, 'b) svc_event)" using assms(3) TCall by simp
  then have ev: "event_ok path (SCall ce m arg)" by simp
  from call_refines[OF assms(1) ev d] call_rings[OF assms(2) d] d TCall show ?thesis
    by (simp add: svc_step_def) (simp add: ringer_of_def)
next
  case (TTick now open_file)
  let ?evs = "tick_events now open_file [0..<length (c_tasks c)]"
  have "list_all task_event ?evs" by (auto simp: tick_events_def list_all_iff)
  note f = task_run_fields[OF this, of api aud sy c]
  have "svc_inv view path (ctl_run api aud sy ?evs c)" using assms(1) f by (simp add: svc_inv_def)
  with tick_refines[OF assms(2) _ refl, of sy open_file api aud now] assms(3) TTick show ?thesis
    by (simp add: stask_run)
next
  case (TRestart b env clk)
  then have "event_ok path (SRestart b env clk)" using assms(3) by simp
  with restart_refines[OF assms(1)] obtain tr r c' where "run api b env clk (c_disk c) = (tr, r, Some c')"
    "svc_inv view path c'" "clock_of c' = (clock_of c)\<lparr>al_lib := library_from_env env\<rparr>" by blast
  with restart_rings[of b env clk c tr r c'] TRestart show ?thesis
    by (simp add: svc_step_def) (simp add: ringer_of_def)
qed

lemma timed_run_refines:
  assumes "svc_inv view path c" "settled c" "list_all (timed_ok sy path) evs"
  shows "\<exists>c'. timed_run api aud sy evs c = Some (fst (ring_run sy aud evs (ringer_of c)), c')
    \<and> ringer_of c' = snd (ring_run sy aud evs (ringer_of c)) \<and> svc_inv view path c' \<and> settled c'"
  using assms
proof (induction evs arbitrary: c)
  case (Cons ev evs)
  obtain c1 where 1: "svc_run api aud sy (timed_events ev c) c = Some (fst (ring_step sy aud ev (ringer_of c)), c1)"
    "ringer_of c1 = snd (ring_step sy aud ev (ringer_of c))" "svc_inv view path c1" "settled c1"
    using timed_step_refines[of path c sy ev aud] Cons.prems by auto
  obtain c2 where 2: "timed_run api aud sy evs c1 = Some (fst (ring_run sy aud evs (ringer_of c1)), c2)"
    "ringer_of c2 = snd (ring_run sy aud evs (ringer_of c1))" "svc_inv view path c2" "settled c2"
    using Cons.IH[OF 1(3,4)] Cons.prems(3) by auto
  show ?case using 1 2 by (simp add: Let_def split_beta)
qed auto

end

section \<open>Waiting\<close>

text \<open>Events that leave an armed alarm alone: questions and ticks.\<close>

fun quiet :: "('src, 'fmt, 'dec, 'pkt) symphonia_api \<Rightarrow> ('p, 'src) timed_event \<Rightarrow> bool" where
  "quiet sy (TCall ce m arg) \<longleftrightarrow> m \<in> {''Status'', ''CurrentSound'', ''ListSounds''}"
| "quiet sy (TTick now open_file) \<longleftrightarrow> (\<forall>p. from_path_decode sy open_file p \<noteq> None)"
| "quiet sy (TRestart b env clk) \<longleftrightarrow> False"

text \<open>The first tick at or after a deadline, with the files as they are then.\<close>

fun due_tick :: "nat \<Rightarrow> ('p, 'src) timed_event list \<Rightarrow> (path \<Rightarrow> string + 'src) option" where
  "due_tick t [] = None"
| "due_tick t (ev # evs) =
     (case ev of TTick now open_file \<Rightarrow> if t \<le> now then Some open_file else due_tick t evs | _ \<Rightarrow> due_tick t evs)"

definition after_waiting ::
  "('src, 'fmt, 'dec, 'pkt) symphonia_api \<Rightarrow> 'p audio_ops \<Rightarrow> ('p, 'src) timed_event list \<Rightarrow>
   (path \<times> nat) option \<Rightarrow> 'p \<Rightarrow> 'p" where
  "after_waiting sy aud evs due dev =
     (case due of
        None \<Rightarrow> dev
      | Some (p, t) \<Rightarrow> (case due_tick t evs of None \<Rightarrow> dev | Some open_file \<Rightarrow> ring sy open_file aud p dev))"

lemma tick_parts:
  assumes "settled c" "\<forall>p. from_path_decode sy open_file p \<noteq> None"
    and "c' = ctl_run api aud sy (tick_events now open_file [0..<length (c_tasks c)]) c"
  shows "settled c'" "c_daemon c' = c_daemon c"
    "(due_of c', c_player c') = (case due_of c of
        Some (p, t) \<Rightarrow> if t \<le> now then (None, ring sy open_file aud p (c_player c)) else (due_of c, c_player c)
      | None \<Rightarrow> (None, c_player c))"
proof -
  note r = tick_refines[OF assms]
  then show "settled c'" by simp
  have "list_all task_event (tick_events now open_file [0..<length (c_tasks c)])"
    by (auto simp: tick_events_def list_all_iff)
  from task_run_fields[OF this, of api aud sy c] show "c_daemon c' = c_daemon c" by (simp add: assms(3))
  from r have "rg_due (ringer_of c') = rg_due (ring_tick sy aud now open_file (ringer_of c))"
    "rg_device (ringer_of c') = rg_device (ring_tick sy aud now open_file (ringer_of c))" by simp_all
  then show "(due_of c', c_player c') = (case due_of c of
        Some (p, t) \<Rightarrow> if t \<le> now then (None, ring sy open_file aud p (c_player c)) else (due_of c, c_player c)
      | None \<Rightarrow> (None, c_player c))"
    by (auto simp: ringer_of_def ring_tick_def split: option.splits)
qed

lemma quiet_run:
  assumes "settled c" "list_all (quiet sy) evs"
  shows "\<exists>rs c'. timed_run api aud sy evs c = Some (rs, c') \<and> c_daemon c' = c_daemon c
    \<and> c_player c' = after_waiting sy aud evs (due_of c) (c_player c)"
  using assms
proof (induction evs arbitrary: c)
  case Nil
  then show ?case by (simp add: after_waiting_def split: option.split)
next
  case (Cons ev evs)
  show ?case
  proof (cases ev)
    case (TCall ce m arg)
    have "m = ''Status'' \<or> m = ''CurrentSound'' \<or> m = ''ListSounds''" using Cons.prems(2) TCall by simp
    then obtain r where d: "dispatch api aud ce m arg c = (r, c)" by (elim disjE) (simp_all add: dispatch_def)
    have "after_waiting sy aud (ev # evs) = after_waiting sy aud evs"
      by (intro ext) (simp add: after_waiting_def TCall split: option.split)
    moreover obtain rs c' where "timed_run api aud sy evs c = Some (rs, c')" "c_daemon c' = c_daemon c"
      "c_player c' = after_waiting sy aud evs (due_of c) (c_player c)"
      using Cons.IH[OF Cons.prems(1)] Cons.prems(2) by auto
    ultimately show ?thesis by (simp add: TCall svc_step_def d)
  next
    case (TTick now open_file)
    let ?c = "ctl_run api aud sy (tick_events now open_file [0..<length (c_tasks c)]) c"
    have "\<forall>p. from_path_decode sy open_file p \<noteq> None" using Cons.prems(2) TTick by simp
    note t = tick_parts[OF Cons.prems(1) this refl, of api aud now]
    obtain rs c' where "timed_run api aud sy evs ?c = Some (rs, c')" "c_daemon c' = c_daemon ?c"
      "c_player c' = after_waiting sy aud evs (due_of ?c) (c_player ?c)"
      using Cons.IH[OF t(1)] Cons.prems(2) by auto
    moreover have "after_waiting sy aud evs (due_of ?c) (c_player ?c) = after_waiting sy aud (ev # evs) (due_of c) (c_player c)"
      using t(3) by (auto simp: TTick after_waiting_def split: option.splits if_splits)
    ultimately show ?thesis using t(2) by (simp add: TTick stask_run)
  qed (use Cons.prems in simp)
qed

lemma armed_then_waiting:
  assumes "settled c" and "resolve_path (ce_fs ce) (c_sounds c) sid = Inr p"
    and "control_arm api aud ce sid c = (r, c1)" and "list_all (quiet sy) evs"
  shows "\<exists>rs c2. timed_run api aud sy evs c1 = Some (rs, c2) \<and> control_status c2
    \<and> c_player c2 = after_waiting sy aud evs (Some (p, ce_now ce + c_trigger_delay c)) (snd (ao_stop aud (c_player c)))"
proof -
  note ok = arm_ok[OF assms(2), of api aud, unfolded assms(3) fst_conv snd_conv]
  have "settled c1" using arm_rings[OF assms(1,3)] by simp
  from quiet_run[OF this assms(4), of api aud] obtain rs c2 where
    run: "timed_run api aud sy evs c1 = Some (rs, c2)" "c_daemon c2 = c_daemon c1"
    "c_player c2 = after_waiting sy aud evs (due_of c1) (c_player c1)" by blast
  have "due_of c1 = Some (p, ce_now ce + c_trigger_delay c)"
    by (simp add: due_of_def sleeping_def ok(3,4) nth_append)
  moreover have "control_status c2" using run(2) ok(2) by (simp add: control_status_def daemon_status_def)
  ultimately show ?thesis using run(1,3) ok(5) by simp
qed

section \<open>Properties\<close>

text \<open>C7: the service keeps time.  On a disk that works, from a state between two ticks, any sequence of
  calls, ticks and restarts runs through and refines the abstract clock: the same replies, the same
  signals, and the sound device driven exactly when the one timer is due, at full volume, with the
  file the id stood for when it was armed.\<close>

theorem service_keeps_time:
  assumes "redb_reliable api view" and "svc_inv view path c" and "settled c"
    and "list_all (timed_ok sy path) evs"
  shows "\<exists>c'. timed_run api aud sy evs c = Some (fst (ring_run sy aud evs (ringer_of c)), c')
    \<and> ringer_of c' = snd (ring_run sy aud evs (ringer_of c)) \<and> svc_inv view path c' \<and> settled c'"
  using redb_reliable.timed_run_refines[OF assms] .

lemma demo_settled: "settled demo_control"
  using ctl_inv_new by (simp add: settled_def running_def) (simp add: demo_control_def)

lemma demo_delay: "c_trigger_delay demo_control = 3000000000"
  by (simp add: demo_control_def control_new_def trigger_delay_from_env_def env_var_def
      DEFAULT_TRIGGER_DELAY_def dur_from_secs_def)

text \<open>Armed, too early, due, due again; then snoozed and dismissed.\<close>

theorem service_keeps_time_witness:
  "\<exists>rs c'. timed_run mem_api fake_ops demo_sym
      [TCall demo_env ''Arm'' (StrArg ''builtin:horn''), TTick 3000000099 (\<lambda>_. Inr ()),
       TTick 3000000100 (\<lambda>_. Inr ()), TTick 9000000000 (\<lambda>_. Inr ()),
       TCall demo_env ''Snooze'' (U32Arg 5), TCall demo_env ''Dismiss'' NoArg, TTick 9000000000 (\<lambda>_. Inr ())] demo_control
    = Some (rs, c') \<and> c_player c' = [FakeStop, FakePlay 1 1 8000 full_volume, FakeStop, FakeStop]
      \<and> c_signals c' = [True, False] \<and> due_of c' = None"
proof -
  have inv: "svc_inv mem_view ''/s'' demo_control" using demo_synced by (simp add: svc_inv_def)
  have start: "ringer_of demo_control = \<lparr>rg_clock = \<lparr>al_lib = demo_lib, al_armed = False, al_sound = None\<rparr>,
      rg_delay = 3000000000, rg_due = None, rg_device = [], rg_signals = []\<rparr>"
    using clock_disarmed[of demo_control] by (simp add: ringer_of_def due_of_def demo_delay)
  note run = service_keeps_time[OF mem.redb_reliable_axioms inv demo_settled,
      of demo_sym "[TCall demo_env ''Arm'' (StrArg ''builtin:horn''), TTick 3000000099 (\<lambda>_. Inr ()),
       TTick 3000000100 (\<lambda>_. Inr ()), TTick 9000000000 (\<lambda>_. Inr ()),
       TCall demo_env ''Snooze'' (U32Arg 5), TCall demo_env ''Dismiss'' NoArg, TTick 9000000000 (\<lambda>_. Inr ())]" fake_ops,
      unfolded start]
  from run obtain rs c' where r: "timed_run mem_api fake_ops demo_sym
      [TCall demo_env ''Arm'' (StrArg ''builtin:horn''), TTick 3000000099 (\<lambda>_. Inr ()),
       TTick 3000000100 (\<lambda>_. Inr ()), TTick 9000000000 (\<lambda>_. Inr ()),
       TCall demo_env ''Snooze'' (U32Arg 5), TCall demo_env ''Dismiss'' NoArg, TTick 9000000000 (\<lambda>_. Inr ())] demo_control
      = Some (rs, c')"
    "rg_device (ringer_of c') = [FakeStop, FakePlay 1 1 8000 full_volume, FakeStop, FakeStop]"
    "rg_signals (ringer_of c') = [True, False]" "rg_due (ringer_of c') = None"
    by (auto simp: rust_str_def demo_decode alarm_call_def select_sound_def demo_resolve ring_call_def set_timer_def
        clear_timer_def ring_tick_def ring_def dur_from_secs_def fake_ops_def fake_push_def fake_play_event_def
        demo_sound_def ds_frames_def)
  then show ?thesis by (auto simp: ringer_of_def)
qed

text \<open>C4: an armed alarm rings exactly once and on time.  After a successful \<open>Arm\<close> in a reachable state with
  no task half-way, whatever the disk does, through any sequence of questions and ticks: until the
  first tick at or after the deadline the device is only stopped; at that tick the file is decoded
  and played at full volume; afterwards the device is left alone.  The alarm stays armed.\<close>

theorem armed_alarm_rings_once:
  assumes "ctl_reach api aud sy c" and "\<forall>i. \<not> running c i"
    and "resolve_path (ce_fs ce) (c_sounds c) sid = Inr p"
    and "control_arm api aud ce sid c = (r, c1)" and "list_all (quiet sy) evs"
  shows "\<exists>rs c2. timed_run api aud sy evs c1 = Some (rs, c2) \<and> control_status c2
    \<and> c_player c2 =
        (let silent = snd (ao_stop aud (c_player c)) in
         case due_tick (ce_now ce + c_trigger_delay c) evs of
           None \<Rightarrow> silent
         | Some open_file \<Rightarrow>
             (case from_path_decode sy open_file p of
                Some (Inr s) \<Rightarrow>
                  snd (ao_play aud s \<lparr>vp_target = FFin 1, vp_ramp = Immediate, vp_repeat = False\<rparr> silent)
              | _ \<Rightarrow> silent))"
proof -
  have "settled c" using ctl_inv_reach[OF assms(1)] assms(2) by (simp add: settled_def)
  from armed_then_waiting[OF this assms(3-5)] show ?thesis
    unfolding Let_def full_volume_def[symmetric] ring_def[symmetric] by (auto simp: after_waiting_def)
qed

theorem armed_alarm_rings_once_witness:
  "\<exists>rs c2. timed_run mem_api fake_ops demo_sym
      [TTick 3000000099 (\<lambda>_. Inr ()), TCall demo_env ''Status'' NoArg, TTick 3000000100 (\<lambda>_. Inr ()), TTick 3000000200 (\<lambda>_. Inr ())]
      (snd (control_arm mem_api fake_ops demo_env ''builtin:horn'' demo_control)) = Some (rs, c2)
    \<and> c_player c2 = [FakeStop, FakePlay 1 1 8000 full_volume]"
proof -
  have reach: "ctl_reach mem_api fake_ops demo_sym demo_control" by (simp add: demo_control_def reach_new)
  have idle: "\<forall>i. \<not> running demo_control i" by (simp add: running_def)
  have ev: "list_all (quiet demo_sym) [TTick 3000000099 (\<lambda>_. Inr ()), TCall demo_env ''Status'' NoArg,
      TTick 3000000100 (\<lambda>_. Inr ()), TTick 3000000200 (\<lambda>_. Inr ())]"
    by (simp add: demo_decode)
  obtain r c1 where arm: "control_arm mem_api fake_ops demo_env ''builtin:horn'' demo_control = (r, c1)"
    by (cases "control_arm mem_api fake_ops demo_env ''builtin:horn'' demo_control")
  have dev: "snd (ao_stop fake_ops []) = [FakeStop]"
    "snd (ao_play fake_ops demo_sound v [FakeStop]) = [FakeStop, FakePlay 1 1 8000 v]" for v
    by (simp_all add: fake_ops_def fake_push_def fake_play_event_def demo_sound_def ds_frames_def)
  from armed_alarm_rings_once[OF reach idle demo_arm arm ev] show ?thesis
    by (auto simp: arm demo_delay demo_decode dev Let_def full_volume_def simp del: timed_run.simps)
qed

end
