(* ===== verification/Concurrent_Rings.thy ===== *)
theory Concurrent_Rings
  imports Interleaving
begin

text \<open>
  What overlapping calls cannot do: make the alarm ring without being asked.  Over every interleaving of
  the calls of \<open>ipc/control.rs\<close> and the trigger tasks, each sound on the recording player is traced back
  to a call of its own that asked for it, and to a wake-up at or after the deadline of that call.
\<close>

section \<open>Tasks and the calls that spawned them\<close>

text \<open>A call asks for a file and a deadline when its id resolves to the file and the deadline lies as far
  ahead on the runtime's clock as the fire time it records does on the wall clock.\<close>

definition asked_for :: "sound_library \<Rightarrow> call \<Rightarrow> path \<Rightarrow> nat \<Rightarrow> bool" where
  "asked_for lib cl p t \<longleftrightarrow>
     (\<exists>sid delay. resolve_path (ce_fs (cl_env cl)) lib sid = Inr p
        \<and> cl_desired cl = state_armed (Some sid) (Some (fire_at (ce_clk (cl_env cl)) delay))
        \<and> t = ce_now (cl_env cl) + delay)"

fun is_spawn :: "action \<Rightarrow> bool" where
  "is_spawn (ASpawn p d) \<longleftrightarrow> True"
| "is_spawn _ \<longleftrightarrow> False"

lemma is_spawn_iff: "is_spawn a \<longleftrightarrow> (\<exists>p d. a = ASpawn p d)"
  by (cases a) simp_all

text \<open>Before its spawn a call has one left, afterwards none and a task that is what it asked for.\<close>

definition call_asks :: "sound_library \<Rightarrow> trigger list \<Rightarrow> call \<Rightarrow> bool" where
  "call_asks lib ts cl \<longleftrightarrow>
     (\<forall>p d. ASpawn p d \<in> set (cl_prog cl) \<longrightarrow> asked_for lib cl p (ce_now (cl_env cl) + d)) \<and>
     (case cl_handle cl of
        None \<Rightarrow> length (filter is_spawn (cl_prog cl)) \<le> 1
      | Some h \<Rightarrow> filter is_spawn (cl_prog cl) = [] \<and> h < length ts
          \<and> asked_for lib cl (tg_path (ts ! h)) (tg_deadline (ts ! h)))"

text \<open>How the task list develops: tasks are added, keep file and deadline, and stay finished.\<close>

definition tasks_le :: "trigger list \<Rightarrow> trigger list \<Rightarrow> bool" where
  "tasks_le ts ts' \<longleftrightarrow> length ts \<le> length ts' \<and>
     (\<forall>i<length ts. tg_path (ts' ! i) = tg_path (ts ! i) \<and> tg_deadline (ts' ! i) = tg_deadline (ts ! i)
        \<and> (tg_state (ts ! i) = Finished \<longrightarrow> tg_state (ts' ! i) = Finished))"

lemma tasks_le_refl [simp]: "tasks_le ts ts"
  by (simp add: tasks_le_def)

lemma tasks_le_spawn: "tasks_le ts (ts @ [t])"
  by (simp add: tasks_le_def nth_append)

lemma tasks_le_cancelled: "tasks_le (c_tasks c) (cancelled_tasks c)"
  by (auto simp: tasks_le_def cancelled_tasks_def abort_task_nth split: option.split)

lemma tasks_le_wake: "tasks_le (c_tasks c) (c_tasks (wake_trigger now i c))"
  by (auto simp: tasks_le_def wake_trigger_def nth_list_update)

lemma tasks_le_run: "tasks_le (c_tasks c) (c_tasks (run_trigger sy f aud i c))"
  by (auto simp: tasks_le_def run_trigger_def nth_list_update split: option.split)

lemma call_asks_mono: "call_asks lib ts cl \<Longrightarrow> tasks_le ts ts' \<Longrightarrow> call_asks lib ts' cl"
  by (auto simp: call_asks_def tasks_le_def split: option.splits)

section \<open>Who owns a task\<close>

definition owned :: "sound_library \<Rightarrow> ('p, 'db, 'w) sys \<Rightarrow> bool" where
  "owned lib s \<longleftrightarrow> c_sounds (s_ctl s) = lib \<and> list_all (call_asks lib (c_tasks (s_ctl s))) (s_calls s) \<and>
     (\<forall>h<length (c_tasks (s_ctl s)). \<exists>j<length (s_calls s). cl_handle (s_calls s ! j) = Some h) \<and>
     (\<forall>j k h. j < length (s_calls s) \<longrightarrow> k < length (s_calls s) \<longrightarrow>
        cl_handle (s_calls s ! j) = Some h \<longrightarrow> cl_handle (s_calls s ! k) = Some h \<longrightarrow> j = k)"

lemma schedule_call_asks:
  assumes "schedule_call ce lib sid delay tail = Inr cl" "filter is_spawn tail = []"
  shows "call_asks lib ts cl \<and> cl_handle cl = None"
proof -
  obtain p where p: "resolve_path (ce_fs ce) lib sid = Inr p"
    "cl = new_call ce (state_armed (Some sid) (Some (fire_at (ce_clk ce) delay)))
       ([ATakeAbort, AStop, ASwap, ASave, ASpawn p delay, AStore] @ tail)"
    using assms(1) by (auto simp: schedule_call_def split: sum.splits)
  have "ASpawn q d \<notin> set tail" for q d using assms(2) by (auto simp: filter_empty_conv)
  moreover have "asked_for lib cl p (ce_now ce + delay)"
    using p unfolding asked_for_def by (intro exI[of _ sid] exI[of _ delay]) (simp add: new_call_def)
  ultimately show ?thesis using p(2) assms(2) by (auto simp: call_asks_def new_call_def)
qed

lemma new_call_asks:
  "begin_arm ce sid c = Inr cl \<Longrightarrow> call_asks (c_sounds c) ts cl \<and> cl_handle cl = None"
  "begin_disarm ce = Inr cl \<Longrightarrow> call_asks (c_sounds c) ts cl \<and> cl_handle cl = None"
  "begin_snooze ce n c = Inr cl \<Longrightarrow> call_asks (c_sounds c) ts cl \<and> cl_handle cl = None"
  unfolding begin_arm_def begin_snooze_def
  by (auto dest!: schedule_call_asks[of _ _ _ _ _ _ ts] split: if_splits option.splits)
    (auto simp: begin_disarm_def new_call_def call_asks_def)

lemma owned_start_call:
  assumes "owned lib s" "\<And>cl. b = Inr cl \<Longrightarrow> call_asks lib (c_tasks (s_ctl s)) cl \<and> cl_handle cl = None"
  shows "owned lib (start_call b s)"
proof (cases b)
  case (Inr cl)
  let ?n = "length (s_calls s)"
  from assms(2) Inr have cl: "call_asks lib (c_tasks (s_ctl s)) cl" "cl_handle cl = None" by simp_all
  have old: "j < ?n \<and> cl_handle (s_calls s ! j) = Some h"
    if "j < Suc ?n" "cl_handle ((s_calls s @ [cl]) ! j) = Some h" for j h
    using that cl(2) by (cases "j = ?n") (auto simp: nth_append)
  have "\<exists>j<Suc ?n. cl_handle ((s_calls s @ [cl]) ! j) = Some h" if h: "h < length (c_tasks (s_ctl s))" for h
  proof -
    obtain j where "j < ?n" "cl_handle (s_calls s ! j) = Some h" using assms(1) h unfolding owned_def by blast
    then show ?thesis by (intro exI[of _ j]) (simp add: nth_append)
  qed
  moreover have "j = k" if "j < Suc ?n" "k < Suc ?n" "cl_handle ((s_calls s @ [cl]) ! j) = Some h"
    "cl_handle ((s_calls s @ [cl]) ! k) = Some h" for j k h
    using old[OF that(1,3)] old[OF that(2,4)] assms(1) unfolding owned_def by blast
  ultimately show ?thesis
    using assms(1) cl(1) unfolding owned_def start_call_def Inr by simp
qed (use assms(1) in \<open>simp add: start_call_def\<close>)

section \<open>Steps of the calls\<close>

text \<open>One step of a call: either it spawns the next task and owns it, or the task list only loses
  sleepers and the call keeps what it had.\<close>

lemma step_call_tasks:
  assumes "step_call api aud (cl, c) = (cl', c')" "call_asks lib (c_tasks c) cl"
  shows "tasks_le (c_tasks c) (c_tasks c') \<and> call_asks lib (c_tasks c') cl' \<and>
    (cl_handle cl' = cl_handle cl \<and> length (c_tasks c') = length (c_tasks c) \<or>
     cl_handle cl = None \<and> cl_handle cl' = Some (length (c_tasks c)) \<and> length (c_tasks c') = Suc (length (c_tasks c)))"
proof (cases "cl_prog cl")
  case Nil
  with assms show ?thesis by (auto simp: step_call_def)
next
  case (Cons a rest)
  note st = assms(1)[unfolded step_call_Cons[OF Cons]]
  show ?thesis
  proof (cases "is_spawn a")
    case True
    then obtain p d where a: "a = ASpawn p d" by (auto simp: is_spawn_iff)
    have "cl_handle cl = None" "filter is_spawn rest = []"
      using assms(2) Cons a by (auto simp: call_asks_def split: option.splits)
    moreover have "asked_for lib cl p (ce_now (cl_env cl) + d)" "\<And>q e. ASpawn q e \<notin> set rest"
      using assms(2) Cons a calculation(2) by (auto simp: call_asks_def filter_empty_conv)
    ultimately show ?thesis
      using st a tasks_le_spawn by (auto simp: exec_call_fields exec_ctl_fields call_asks_def asked_for_def)
  next
    case False
    have le: "tasks_le (c_tasks c) (c_tasks c')" "length (c_tasks c') = length (c_tasks c)"
      using st False tasks_le_cancelled[of c] by (auto simp: exec_ctl_fields split: action.splits)
    have cl': "cl_env cl' = cl_env cl" "cl_desired cl' = cl_desired cl" "cl_handle cl' = cl_handle cl" "cl_prog cl' = rest"
      using st False by (auto simp: exec_call_fields split: action.splits if_splits)
    have "call_asks lib (c_tasks c) cl'"
      using assms(2) Cons False cl' by (auto simp: call_asks_def asked_for_def split: option.splits)
    with call_asks_mono[OF this le(1)] le cl'(3) show ?thesis by simp
  qed
qed

lemma step_call_sounds:
  assumes "step_call api aud (cl, c) = (cl', c')" shows "c_sounds c' = c_sounds c"
proof (cases "cl_prog cl")
  case (Cons a rest)
  from assms[unfolded step_call_Cons[OF Cons]] show ?thesis by (auto simp: exec_ctl_fields)
qed (use assms in \<open>simp add: step_call_def\<close>)

lemma owned_step:
  assumes "owned lib s" shows "owned lib (sys_step api aud sy x s)"
proof -
  have lib: "c_sounds (s_ctl s) = lib" using assms by (simp add: owned_def)
  show ?thesis
  proof (cases x)
    case (Step i)
    let ?cls = "s_calls s" and ?ts = "c_tasks (s_ctl s)"
    show ?thesis
    proof (cases "i < length ?cls")
      case True
      obtain cl c where st: "step_call api aud (?cls ! i, s_ctl s) = (cl, c)"
        by (cases "step_call api aud (?cls ! i, s_ctl s)")
      have asks: "call_asks lib ?ts (?cls ! k)" if "k < length ?cls" for k
        using assms that by (simp add: owned_def list_all_length)
      note r = step_call_tasks[OF st asks[OF True]]
      have "call_asks lib (c_tasks c) (?cls[i := cl] ! k)" if "k < length ?cls" for k
        using r call_asks_mono[OF asks[OF that]] True by (cases "k = i") simp_all
      then have "list_all (call_asks lib (c_tasks c)) (?cls[i := cl])" by (simp add: list_all_length)
      moreover have "\<exists>j<length ?cls. cl_handle (?cls[i := cl] ! j) = Some h" if h: "h < length (c_tasks c)" for h
      proof (cases "h < length ?ts")
        case old: True
        then obtain j where "j < length ?cls" "cl_handle (?cls ! j) = Some h" using assms unfolding owned_def by blast
        with r show ?thesis by (intro exI[of _ j]) (cases "j = i"; auto)
      next
        case False
        with r h True show ?thesis by (intro exI[of _ i]) auto
      qed
      moreover have "j = k" if "j < length ?cls" "k < length ?cls" "cl_handle (?cls[i := cl] ! j) = Some h"
        "cl_handle (?cls[i := cl] ! k) = Some h" for j k h
      proof -
        have low: "cl_handle (?cls ! m) = Some h \<Longrightarrow> h < length ?ts" if "m < length ?cls" for m
          using asks[OF that] by (auto simp: call_asks_def split: option.splits)
        have uniq: "cl_handle (?cls ! j) = Some h \<Longrightarrow> cl_handle (?cls ! k) = Some h \<Longrightarrow> j = k"
          using assms that(1,2) unfolding owned_def by blast
        show ?thesis
          using that r uniq low[OF that(1)] low[OF that(2)] True by (auto simp: nth_list_update split: if_splits)
      qed
      moreover have "c_sounds c = lib" using assms step_call_sounds[OF st] by (simp add: owned_def)
      ultimately show ?thesis using Step True st unfolding owned_def by simp
    qed (use Step assms in simp)
  next
    case (Wake now i)
    have "list_all (call_asks lib (c_tasks (wake_trigger now i (s_ctl s)))) (s_calls s)"
      using assms call_asks_mono[OF _ tasks_le_wake[of "s_ctl s" now i]] by (auto simp: owned_def list_all_iff)
    with assms Wake show ?thesis unfolding owned_def by (simp add: ctl_simps)
  next
    case (Run i f)
    have "list_all (call_asks lib (c_tasks (run_trigger sy f aud i (s_ctl s)))) (s_calls s)"
      using assms call_asks_mono[OF _ tasks_le_run[of "s_ctl s" sy f aud i]] by (auto simp: owned_def list_all_iff)
    with assms Run show ?thesis unfolding owned_def by (simp add: ctl_simps)
  next
    case (BeginArm ce sid)
    with owned_start_call[OF assms, of "begin_arm ce sid (s_ctl s)"] new_call_asks(1)[of ce sid "s_ctl s"] lib
    show ?thesis by simp
  next
    case (BeginDisarm ce)
    with owned_start_call[OF assms, of "begin_disarm ce"] new_call_asks(2)[of ce _ "s_ctl s"] lib
    show ?thesis by simp
  next
    case (BeginSnooze ce n)
    with owned_start_call[OF assms, of "begin_snooze ce n (s_ctl s)"] new_call_asks(3)[of ce n "s_ctl s"] lib
    show ?thesis by simp
  qed
qed

section \<open>The sounds\<close>

fun is_ring :: "fake_event \<Rightarrow> bool" where
  "is_ring (FakePlay f ch r v) \<longleftrightarrow> True"
| "is_ring FakeStop \<longleftrightarrow> False"

text \<open>In a run with the events \<open>xs\<close>, task \<open>i\<close> woke in time and then played \<open>e\<close> from its file.\<close>

definition woke :: "'src sched list \<Rightarrow> trigger list \<Rightarrow> nat \<Rightarrow> bool" where
  "woke xs ts i \<longleftrightarrow> (\<exists>now. Wake now i \<in> set xs \<and> tg_deadline (ts ! i) \<le> now)"

definition rang ::
  "('src, 'fmt, 'dec, 'pkt) symphonia_api \<Rightarrow> 'src sched list \<Rightarrow> trigger list \<Rightarrow> nat \<Rightarrow> fake_event \<Rightarrow> bool" where
  "rang sy xs ts i e \<longleftrightarrow> i < length ts \<and> tg_state (ts ! i) = Finished \<and> woke xs ts i \<and>
     (\<exists>f s. Run i f \<in> set xs \<and> from_path_decode sy f (tg_path (ts ! i)) = Some (Inr s)
        \<and> e = fake_play_event s full_volume)"

definition accounted ::
  "('src, 'fmt, 'dec, 'pkt) symphonia_api \<Rightarrow> 'src sched list \<Rightarrow> (fake_event list, 'db, 'w) control \<Rightarrow> bool" where
  "accounted sy xs c \<longleftrightarrow>
     (\<forall>i. running c i \<longrightarrow> woke xs (c_tasks c) i) \<and>
     (\<exists>is. distinct is \<and> list_all2 (rang sy xs (c_tasks c)) is (filter is_ring (c_player c)))"

lemma woke_mono: "woke xs ts i \<Longrightarrow> tasks_le ts ts' \<Longrightarrow> i < length ts \<Longrightarrow> woke (xs @ [x]) ts' i"
  by (auto simp: woke_def tasks_le_def)

lemma rang_mono: "rang sy xs ts i e \<Longrightarrow> tasks_le ts ts' \<Longrightarrow> rang sy (xs @ [x]) ts' i e"
  unfolding rang_def tasks_le_def woke_def by (fastforce simp: woke_def)

lemma accounted_mono:
  assumes "accounted sy xs c" "tasks_le (c_tasks c) (c_tasks c')"
    and "filter is_ring (c_player c') = filter is_ring (c_player c)"
    and "\<And>i. running c' i \<Longrightarrow> running c i \<or> woke (xs @ [x]) (c_tasks c') i"
  shows "accounted sy (xs @ [x]) c'"
proof -
  obtain "is" where "distinct is" "list_all2 (rang sy xs (c_tasks c)) is (filter is_ring (c_player c))"
    using assms(1) by (auto simp: accounted_def)
  then have "distinct is \<and> list_all2 (rang sy (xs @ [x]) (c_tasks c')) is (filter is_ring (c_player c'))"
    unfolding assms(3) by (blast intro: list_all2_mono rang_mono[OF _ assms(2)])
  moreover have "woke (xs @ [x]) (c_tasks c') i" if "running c' i" for i
    using assms(4)[OF that] woke_mono[OF _ assms(2), of xs i x] assms(1)
    by (auto simp: accounted_def running_def)
  ultimately show ?thesis unfolding accounted_def by blast
qed

lemma step_call_quiet:
  assumes "step_call api fake_ops (cl, c) = (cl', c')"
  shows "tasks_le (c_tasks c) (c_tasks c')" "filter is_ring (c_player c') = filter is_ring (c_player c)"
    "running c' i \<Longrightarrow> running c i"
proof -
  show "tasks_le (c_tasks c) (c_tasks c')"
  proof (cases "cl_prog cl")
    case (Cons a rest)
    from assms[unfolded step_call_Cons[OF Cons]] show ?thesis
      using tasks_le_cancelled[of c] tasks_le_spawn by (auto simp: exec_ctl_fields split: action.splits)
  qed (use assms in \<open>simp add: step_call_def\<close>)
  show "filter is_ring (c_player c') = filter is_ring (c_player c)"
    using assms by (cases "cl_prog cl"; cases "hd (cl_prog cl)")
      (auto simp: step_call_def exec_action_def take_and_abort_fields stop_player_def spawn_trigger_def store_handle_def
        ctl_simps fake_ops_def fake_push_def split: option.splits prod.splits)
  show "running c i" if "running c' i"
  proof (cases "cl_prog cl")
    case (Cons a rest)
    from assms[unfolded step_call_Cons[OF Cons]] that show ?thesis
      using cancelled_running[of i c]
      by (auto simp: running_def exec_ctl_fields nth_append less_Suc_eq split: action.splits if_splits)
  qed (use assms that in \<open>simp add: step_call_def\<close>)
qed

text \<open>The step that makes a sound: the task was running, so it is not among those that rang.\<close>

lemma accounted_run:
  assumes "accounted sy xs c"
  shows "accounted sy (xs @ [Run i f]) (run_trigger sy f fake_ops i c)"
proof -
  let ?c = "run_trigger sy f fake_ops i c" and ?p = "tg_path (c_tasks c ! i)"
  note mono = accounted_mono[OF assms tasks_le_run[of c sy f fake_ops i], where x = "Run i f"]
  have still: "running ?c j \<Longrightarrow> running c j" for j
    by (auto simp: running_def run_trigger_def nth_list_update split: if_splits option.splits)
  show ?thesis
  proof (cases "running c i \<and> (\<exists>s. from_path_decode sy f ?p = Some (Inr s))")
    case False
    then have "c_player ?c = c_player c"
      by (auto simp: run_trigger_def running_def trigger_body_def split: option.split sum.split)
    with mono still show ?thesis by simp
  next
    case True
    then obtain s where s: "running c i" "from_path_decode sy f ?p = Some (Inr s)" by blast
    have "profile_new (FFin 1) Immediate False = Inr full_volume"
      by (simp add: profile_new_iff unit_range_def full_volume_def)
    with s have c': "c_player ?c = c_player c @ [fake_play_event s full_volume]"
      "c_tasks ?c = (c_tasks c)[i := (c_tasks c ! i)\<lparr>tg_state := Finished\<rparr>]"
      by (simp_all add: run_trigger_def running_def trigger_body_def fake_ops_def fake_push_def)
    obtain "is" where i: "distinct is" "list_all2 (rang sy xs (c_tasks c)) is (filter is_ring (c_player c))"
      using assms by (auto simp: accounted_def)
    have "list_all2 (rang sy (xs @ [Run i f]) (c_tasks ?c)) is (filter is_ring (c_player c))"
      using i(2) by (blast intro: list_all2_mono rang_mono[OF _ tasks_le_run[of c sy f fake_ops i]])
    moreover have "rang sy (xs @ [Run i f]) (c_tasks ?c) i (fake_play_event s full_volume)"
      using s assms by (auto simp: rang_def c' running_def accounted_def woke_def)
    ultimately have "list_all2 (rang sy (xs @ [Run i f]) (c_tasks ?c)) (is @ [i]) (filter is_ring (c_player ?c))"
      by (simp add: c' fake_play_event_def list_all2_appendI)
    moreover have "i \<notin> set is"
      using i(2) s(1) by (auto simp: list_all2_conv_all_nth in_set_conv_nth rang_def running_def)
    moreover have "woke (xs @ [Run i f]) (c_tasks ?c) j" if "running ?c j" for j
      using woke_mono[OF _ tasks_le_run[of c sy f fake_ops i]] still[OF that] assms by (auto simp: accounted_def running_def)
    ultimately show ?thesis using i(1) unfolding accounted_def by (metis distinct_append distinct_singleton Int_insert_right_if0 inf_bot_right set_simps)
  qed
qed

lemma accounted_step:
  assumes "accounted sy xs (s_ctl s)"
  shows "accounted sy (xs @ [x]) (s_ctl (sys_step api fake_ops sy x s))"
proof -
  have same: ?thesis if "s_ctl (sys_step api fake_ops sy x s) = s_ctl s"
    using accounted_mono[OF assms, where c' = "s_ctl s" and x = x] that by simp
  show ?thesis
  proof (cases x)
    case (Step i)
    obtain cl c where st: "step_call api fake_ops (s_calls s ! i, s_ctl s) = (cl, c)"
      by (cases "step_call api fake_ops (s_calls s ! i, s_ctl s)")
    from accounted_mono[OF assms step_call_quiet(1,2)[OF st]] step_call_quiet(3)[OF st] same Step st
    show ?thesis by (cases "i < length (s_calls s)") auto
  next
    case (Wake now i)
    let ?c = "wake_trigger now i (s_ctl s)"
    have "running (s_ctl s) j \<or> woke (xs @ [x]) (c_tasks ?c) j" if "running ?c j" for j
      using that Wake by (auto simp: running_def wake_trigger_def woke_def nth_list_update split: if_splits)
    from accounted_mono[OF assms tasks_le_wake _ this] Wake show ?thesis by (simp add: ctl_simps)
  next
    case (Run i f)
    with accounted_run[OF assms, of i f] show ?thesis by simp
  qed (rule same, simp add: start_call_def split: sum.split)+
qed

lemma run_accounted:
  assumes "owned lib (sys_start c)" "accounted sy [] c"
  shows "owned lib (sys_run api fake_ops sy xs (sys_start c))
    \<and> accounted sy xs (s_ctl (sys_run api fake_ops sy xs (sys_start c)))"
proof (induction xs rule: rev_induct)
  case Nil
  then show ?case using assms by (simp add: sys_start_def)
next
  case (snoc x xs)
  then show ?case by (auto intro: owned_step accounted_step)
qed

section \<open>Properties\<close>

text \<open>C11: every sound was asked for.  From a fresh control object, under any interleaving of calls and trigger
  tasks and whatever the disk does, the sounds on the recording player can be assigned to calls, no
  two to the same one: the call resolved its id to the file that sounded, at full volume, and its
  task woke at or after the deadline, which lies as far ahead of the call as the fire time it
  asked to record.\<close>

theorem every_ring_was_asked_for:
  "let c = control_new env d w lib ([] :: fake_event list);
       s = sys_run api fake_ops sy xs (sys_start c)
   in \<exists>js. distinct js \<and>
     list_all2 (\<lambda>j e. j < length (s_calls s) \<and>
       (\<exists>p t i now open_file snd1. asked_for lib (s_calls s ! j) p t \<and> cl_handle (s_calls s ! j) = Some i
          \<and> Wake now i \<in> set xs \<and> t \<le> now \<and> Run i open_file \<in> set xs
          \<and> from_path_decode sy open_file p = Some (Inr snd1)
          \<and> e = FakePlay (ds_frames snd1) (ds_channels snd1) (ds_sample_rate snd1)
                \<lparr>vp_target = FFin 1, vp_ramp = Immediate, vp_repeat = False\<rparr>))
       js (filter is_ring (c_player (s_ctl s)))"
proof -
  let ?c = "control_new env d w lib ([] :: fake_event list)"
  let ?s = "sys_run api fake_ops sy xs (sys_start ?c)"
  let ?ts = "c_tasks (s_ctl ?s)" and ?cls = "s_calls ?s"
  have "owned lib (sys_start ?c)" "accounted sy [] ?c"
    by (auto simp: owned_def sys_start_def accounted_def running_def control_new_def)
  from run_accounted[OF this, of api xs] have own: "owned lib ?s" and acc: "accounted sy xs (s_ctl ?s)" by auto
  obtain "is" where i: "distinct is" "list_all2 (rang sy xs ?ts) is (filter is_ring (c_player (s_ctl ?s)))"
    using acc by (auto simp: accounted_def)
  obtain owner where owner: "\<And>h. h < length ?ts \<Longrightarrow> owner h < length ?cls \<and> cl_handle (?cls ! owner h) = Some h"
    using own unfolding owned_def by metis
  have low: "h < length ?ts" if "h \<in> set is" for h
    using i(2) that by (auto simp: list_all2_conv_all_nth in_set_conv_nth rang_def)
  have "distinct (map owner is)"
    using i(1) owner low by (auto simp: distinct_map inj_on_def) (metis option.inject)
  moreover have "call_asks lib ?ts (?cls ! j)" if "j < length ?cls" for j
    using own that by (simp add: owned_def list_all_length)
  then have asked: "asked_for lib (?cls ! owner h) (tg_path (?ts ! h)) (tg_deadline (?ts ! h))" if "h < length ?ts" for h
    using owner[OF that] by (fastforce simp: call_asks_def)
  ultimately show ?thesis
    unfolding Let_def
    by (intro exI[of _ "map owner is"] conjI, simp, unfold list_all2_map1, intro list_all2_mono[OF i(2)])
      (use owner asked in \<open>auto simp: rang_def woke_def fake_play_event_def full_volume_def, blast\<close>)
qed

end
