(* ===== verification/Serial_Calls.thy ===== *)
theory Serial_Calls
  imports Interleaving
begin

text \<open>
  Calls that do not overlap, with trigger tasks that may wake and run between any two actions of a call
  of \<open>ipc/control.rs\<close>.  One unfinished call at a time is enough: no trigger is orphaned, at most one
  sleeps at any moment, and the last call decides the state.
\<close>

section \<open>One call at a time\<close>

fun begins :: "'src sched \<Rightarrow> bool" where
  "begins (BeginArm ce sid) \<longleftrightarrow> True"
| "begins (BeginDisarm ce) \<longleftrightarrow> True"
| "begins (BeginSnooze ce n) \<longleftrightarrow> True"
| "begins _ \<longleftrightarrow> False"

inductive serial_reach ::
  "('w, 'db, 'rtx, 'tab, 'wtx) redb_api \<Rightarrow> 'p audio_ops \<Rightarrow> ('src, 'fmt, 'dec, 'pkt) symphonia_api \<Rightarrow>
   ('p, 'db, 'w) control \<Rightarrow> ('p, 'db, 'w) sys \<Rightarrow> bool"
  for api aud sy c where
  serial_start: "serial_reach api aud sy c (sys_start c)"
| serial_next: "serial_reach api aud sy c s \<Longrightarrow> begins x \<longrightarrow> all_done s \<Longrightarrow>
    serial_reach api aud sy c (sys_step api aud sy x s)"

text \<open>What holds between the actions of the unfinished call: after the abort nothing sleeps and the slot
  is empty; after the spawn only the new task may sleep.\<close>

definition cleared :: "('p, 'db, 'w) control \<Rightarrow> bool" where
  "cleared c \<longleftrightarrow> c_trigger_task c = None \<and> (\<forall>i. \<not> sleeping c i)"

definition armed_state :: "state \<Rightarrow> bool" where
  "armed_state st \<longleftrightarrow> (\<exists>sid t. st = state_armed (Some sid) (Some t))"

definition spawned :: "call \<Rightarrow> ('p, 'db, 'w) control \<Rightarrow> bool" where
  "spawned cl c \<longleftrightarrow> c_trigger_task c = None \<and>
     (\<exists>h. cl_handle cl = Some h \<and> h < length (c_tasks c) \<and> (\<forall>i. sleeping c i \<longrightarrow> i = h))"

definition settled_as :: "call \<Rightarrow> ('p, 'db, 'w) control \<Rightarrow> bool" where
  "settled_as cl c \<longleftrightarrow> d_inner (c_daemon c) = cl_desired cl"

text \<open>The end of a program behind the write.\<close>

definition ends_ok :: "call \<Rightarrow> action list \<Rightarrow> bool" where
  "ends_ok cl rest \<longleftrightarrow> rest = [AEmit] \<or>
     armed_state (cl_desired cl) \<and> (\<exists>p d tail. rest = ASpawn p d # AStore # tail \<and> tail \<in> {[], [AEmit]})"

fun phase_ok :: "action list \<Rightarrow> call \<Rightarrow> ('p, 'db, 'w) control \<Rightarrow> bool" where
  "phase_ok [] cl c \<longleftrightarrow> ctl_inv c \<and> settled_as cl c"
| "phase_ok (AEmit # rest) cl c \<longleftrightarrow> rest = [] \<and> ctl_inv c \<and> settled_as cl c"
| "phase_ok (AStore # rest) cl c \<longleftrightarrow> rest \<in> {[], [AEmit]} \<and> armed_state (cl_desired cl) \<and> settled_as cl c \<and> spawned cl c"
| "phase_ok (ASpawn p d # rest) cl c \<longleftrightarrow> ends_ok cl (ASpawn p d # rest) \<and> settled_as cl c \<and> cleared c"
| "phase_ok (ASave # rest) cl c \<longleftrightarrow> ends_ok cl rest \<and> settled_as cl c \<and> cleared c"
| "phase_ok (ASwap # rest) cl c \<longleftrightarrow> (\<exists>r. rest = ASave # r \<and> ends_ok cl r) \<and> cleared c"
| "phase_ok (AStop # rest) cl c \<longleftrightarrow> (\<exists>r. rest = ASwap # ASave # r \<and> ends_ok cl r) \<and> cleared c"
| "phase_ok (ATakeAbort # rest) cl c \<longleftrightarrow> (\<exists>r. rest = AStop # ASwap # ASave # r \<and> ends_ok cl r) \<and> ctl_inv c"

section \<open>Steps keep the phase\<close>

lemma cleared_inv: "cleared c \<Longrightarrow> ctl_inv c"
  by (simp add: cleared_def ctl_inv_def)

lemma sleeping_tasks: "c_tasks c' = c_tasks c \<Longrightarrow> sleeping c' = sleeping c"
  by (intro ext) (simp add: sleeping_def)

lemma take_abort_clears:
  assumes "ctl_inv c" shows "cleared (exec_ctl api aud ATakeAbort cl c)"
proof -
  have "\<And>i. sleeping c i \<Longrightarrow> c_trigger_task c = Some i" using assms by (simp add: ctl_inv_def)
  from cancelled_no_sleeping[OF this] show ?thesis by (auto simp: cleared_def sleeping_def exec_ctl_fields)
qed

lemma spawn_spawns:
  assumes "cleared c"
  shows "spawned (fst (exec_action api aud (ASpawn p d) (cl, c))) (exec_ctl api aud (ASpawn p d) cl c)"
  using assms by (auto simp: cleared_def spawned_def sleeping_def exec_ctl_fields exec_call_fields nth_append split: if_splits)

lemma store_inv:
  assumes "spawned cl c" "settled_as cl c" "armed_state (cl_desired cl)"
  shows "ctl_inv (exec_ctl api aud AStore cl c)"
proof -
  have "sleeping (exec_ctl api aud AStore cl c) = sleeping c"
    by (rule sleeping_tasks) (simp add: exec_ctl_fields)
  then show ?thesis
    using assms by (auto simp: ctl_inv_def spawned_def settled_as_def armed_state_def exec_ctl_fields)
qed

lemma keeps_cleared:
  "a \<in> {AStop, ASwap, ASave} \<Longrightarrow> cleared c \<Longrightarrow> cleared (exec_ctl api aud a cl c)"
  by (auto simp: cleared_def sleeping_def exec_ctl_fields)

lemma keeps_inner: "settled_as cl c \<Longrightarrow> cl_desired cl' = cl_desired cl \<Longrightarrow> settled_as cl' (exec_ctl api aud a cl c)"
  by (cases a) (auto simp: settled_as_def exec_ctl_fields)

lemma emit_inv: "ctl_inv c \<Longrightarrow> ctl_inv (exec_ctl api aud AEmit cl c)"
proof -
  have "sleeping (exec_ctl api aud AEmit cl c) = sleeping c"
    by (rule sleeping_tasks) (simp add: exec_ctl_fields)
  then show "ctl_inv c \<Longrightarrow> ?thesis" by (simp add: ctl_inv_def exec_ctl_fields)
qed

lemma call_keeps: "cl_prog (fst (exec_action api aud a (cl, c))) = cl_prog cl"
  "cl_desired (fst (exec_action api aud a (cl, c))) = cl_desired cl"
  by (simp_all add: exec_call_fields split: action.split)

lemma prog_update [simp]: "spawned (cl\<lparr>cl_prog := r\<rparr>) c = spawned cl c" "settled_as (cl\<lparr>cl_prog := r\<rparr>) c = settled_as cl c"
  "ends_ok (cl\<lparr>cl_prog := r\<rparr>) q = ends_ok cl q"
  by (simp_all add: spawned_def settled_as_def ends_ok_def)

lemma ends_desired: "cl_desired cl' = cl_desired cl \<Longrightarrow> ends_ok cl' r = ends_ok cl r"
  by (simp add: ends_ok_def)

lemma ends_phase: "ends_ok cl r \<Longrightarrow> settled_as cl c \<Longrightarrow> cleared c \<Longrightarrow> phase_ok r cl c"
  by (auto simp: ends_ok_def cleared_inv)

lemma phase_step:
  assumes "phase_ok (cl_prog cl) cl c" "step_call api aud (cl, c) = (cl', c')"
  shows "phase_ok (cl_prog cl') cl' c'"
proof (cases "cl_prog cl")
  case Nil
  with assms show ?thesis by (simp add: step_call_def)
next
  case (Cons a rest)
  let ?cl = "cl\<lparr>cl_prog := rest\<rparr>"
  have cl': "cl' = fst (exec_action api aud a (?cl, c))" "c' = exec_ctl api aud a ?cl c"
    using assms(2)[unfolded step_call_Cons[OF Cons]] by simp_all
  have d: "cl_prog cl' = rest" "cl_desired cl' = cl_desired cl" by (simp_all add: cl'(1) call_keeps)
  note ph = assms(1)[unfolded Cons]
  have same: "ends_ok cl' r = ends_ok cl r" for r using d(2) by (rule ends_desired)
  have inner: "settled_as cl' c'" if "settled_as cl c" using keeps_inner[of ?cl c cl' api aud a] that d(2) cl'(2) by simp
  show ?thesis unfolding d(1)
  proof (cases a)
    case ATakeAbort
    with ph same take_abort_clears[of c api aud ?cl] cl'(2) show "phase_ok rest cl' c'" by auto
  next
    case AStop
    with ph same keeps_cleared[of a c api aud ?cl] cl'(2) show "phase_ok rest cl' c'" by auto
  next
    case ASwap
    have "settled_as cl' c'" by (simp add: settled_as_def cl' d ASwap exec_ctl_fields call_keeps)
    with ASwap ph same keeps_cleared[of a c api aud ?cl] cl'(2) show "phase_ok rest cl' c'" by auto
  next
    case ASave
    with ph same keeps_cleared[of a c api aud ?cl] cl'(2) inner show "phase_ok rest cl' c'"
      by (auto intro!: ends_phase)
  next
    case (ASpawn p delay)
    with ph spawn_spawns[of c api aud p delay ?cl] cl' inner d(2) show "phase_ok rest cl' c'"
      by (auto simp: ends_ok_def)
  next
    case AStore
    with ph store_inv[of ?cl c api aud] cl' inner show "phase_ok rest cl' c'" by auto
  next
    case AEmit
    with ph emit_inv[of c api aud ?cl] cl'(2) inner show "phase_ok rest cl' c'" by auto
  qed
qed

lemma ctl_inv_tasks:
  assumes "\<And>i. sleeping c' i \<Longrightarrow> sleeping c i" "c_trigger_task c' = c_trigger_task c"
    and "c_daemon c' = c_daemon c" "length (c_tasks c') = length (c_tasks c)"
  shows "phase_ok prog cl c \<Longrightarrow> phase_ok prog cl c'" "ctl_inv c \<Longrightarrow> ctl_inv c'"
proof -
  show inv: "ctl_inv c \<Longrightarrow> ctl_inv c'" using assms by (auto simp: ctl_inv_def)
  have "cleared c \<Longrightarrow> cleared c'" "spawned cl c \<Longrightarrow> spawned cl c'" "settled_as cl c' = settled_as cl c"
    using assms by (auto simp: cleared_def spawned_def settled_as_def)
  with inv show "phase_ok prog cl c \<Longrightarrow> phase_ok prog cl c'"
    by (cases prog; cases "hd prog") auto
qed

section \<open>The system\<close>

text \<open>Only the last call may be unfinished.\<close>

definition serial_inv :: "('p, 'db, 'w) sys \<Rightarrow> bool" where
  "serial_inv s \<longleftrightarrow>
     (if s_calls s = [] then ctl_inv (s_ctl s)
      else list_all (\<lambda>cl. cl_prog cl = []) (butlast (s_calls s))
        \<and> phase_ok (cl_prog (last (s_calls s))) (last (s_calls s)) (s_ctl s))"

lemma schedule_phase:
  assumes "schedule_call ce lib sid delay tail = Inr cl" "tail \<in> {[], [AEmit]}" "ctl_inv c"
  shows "phase_ok (cl_prog cl) cl c"
proof -
  obtain p where "cl = new_call ce (state_armed (Some sid) (Some (fire_at (ce_clk ce) delay)))
       ([ATakeAbort, AStop, ASwap, ASave, ASpawn p delay, AStore] @ tail)"
    using assms(1) by (auto simp: schedule_call_def split: sum.splits)
  then show ?thesis using assms(2,3) by (auto simp: new_call_def ends_ok_def armed_state_def)
qed

lemma begin_phase:
  assumes "ctl_inv c"
  shows "begin_arm ce sid c = Inr cl \<Longrightarrow> phase_ok (cl_prog cl) cl c"
    "begin_disarm ce = Inr cl \<Longrightarrow> phase_ok (cl_prog cl) cl c"
    "begin_snooze ce n c = Inr cl \<Longrightarrow> phase_ok (cl_prog cl) cl c"
proof -
  show "begin_arm ce sid c = Inr cl \<Longrightarrow> phase_ok (cl_prog cl) cl c"
    using schedule_phase[OF _ _ assms] by (auto simp: begin_arm_def)
  show "begin_disarm ce = Inr cl \<Longrightarrow> phase_ok (cl_prog cl) cl c"
    using assms by (auto simp: begin_disarm_def new_call_def ends_ok_def)
  show "begin_snooze ce n c = Inr cl \<Longrightarrow> phase_ok (cl_prog cl) cl c"
    using schedule_phase[OF _ _ assms] by (auto simp: begin_snooze_def split: if_splits option.splits)
qed

lemma done_inv:
  assumes "serial_inv s" "all_done s" shows "ctl_inv (s_ctl s)"
    and "s_calls s \<noteq> [] \<Longrightarrow> d_inner (c_daemon (s_ctl s)) = cl_desired (last (s_calls s))"
proof -
  have "cl_prog (last (s_calls s)) = []" if "s_calls s \<noteq> []" using assms(2) that by (simp add: all_done_def list_all_iff)
  with assms(1) show "ctl_inv (s_ctl s)"
    and "s_calls s \<noteq> [] \<Longrightarrow> d_inner (c_daemon (s_ctl s)) = cl_desired (last (s_calls s))"
    by (auto simp: serial_inv_def settled_as_def split: if_splits)
qed

lemma serial_begin:
  assumes "serial_inv s" "all_done s" "\<And>cl. b = Inr cl \<Longrightarrow> phase_ok (cl_prog cl) cl (s_ctl s)"
  shows "serial_inv (start_call b s)"
  using assms by (cases b) (simp_all add: start_call_def serial_inv_def all_done_def)

lemma serial_step:
  assumes "serial_inv s" "begins x \<longrightarrow> all_done s"
  shows "serial_inv (sys_step api aud sy x s)"
proof (cases x)
  case (Step i)
  let ?cls = "s_calls s"
  show ?thesis
  proof (cases "i < length ?cls")
    case True
    obtain cl c where st: "step_call api aud (?cls ! i, s_ctl s) = (cl, c)"
      by (cases "step_call api aud (?cls ! i, s_ctl s)")
    show ?thesis
    proof (cases "Suc i = length ?cls")
      case last: True
      then have i: "?cls \<noteq> []" "i = length ?cls - 1" by auto
      then have l: "?cls ! i = last ?cls" "butlast (?cls[i := cl]) = butlast ?cls" "last (?cls[i := cl]) = cl" "?cls \<noteq> []"
        by (simp_all add: last_conv_nth butlast_list_update last_list_update)
      have "phase_ok (cl_prog (?cls ! i)) (?cls ! i) (s_ctl s)" using assms(1) l by (simp add: serial_inv_def)
      from phase_step[OF this st] have "phase_ok (cl_prog cl) cl c" .
      with assms(1) l Step True st show ?thesis by (simp add: serial_inv_def)
    next
      case False
      then have "?cls ! i \<in> set (butlast ?cls)" using True by (auto simp: in_set_conv_nth nth_butlast intro!: exI[of _ i])
      then have "cl_prog (?cls ! i) = []" using assms(1) True by (auto simp: serial_inv_def list_all_iff split: if_splits)
      with st have "cl = ?cls ! i" "c = s_ctl s" by (simp_all add: step_call_def)
      with assms(1) Step True st show ?thesis by (cases s) simp
    qed
  qed (use assms(1) Step in simp)
next
  case (Wake now i)
  note t = ctl_inv_tasks[of "wake_trigger now i (s_ctl s)" "s_ctl s", OF wake_sleeping]
  from Wake t assms(1) show ?thesis by (auto simp: serial_inv_def ctl_simps)
next
  case (Run i f)
  note t = ctl_inv_tasks[of "run_trigger sy f aud i (s_ctl s)" "s_ctl s", OF run_sleeping]
  from Run t assms(1) show ?thesis by (auto simp: serial_inv_def ctl_simps)
next
  case (BeginArm ce sid)
  with assms serial_begin[OF assms(1)] begin_phase(1)[OF done_inv(1)[OF assms(1)], of ce sid] show ?thesis by simp
next
  case (BeginDisarm ce)
  with assms serial_begin[OF assms(1)] begin_phase(2)[OF done_inv(1)[OF assms(1)], of ce] show ?thesis by simp
next
  case (BeginSnooze ce n)
  with assms serial_begin[OF assms(1)] begin_phase(3)[OF done_inv(1)[OF assms(1)], of ce n] show ?thesis by simp
qed

lemma serial_reach_inv: "serial_reach api aud sy c s \<Longrightarrow> ctl_inv c \<Longrightarrow> serial_inv s"
  by (induction rule: serial_reach.induct) (simp_all add: serial_step, simp add: serial_inv_def sys_start_def)

lemma inv_single: "ctl_inv c \<Longrightarrow> sleeping c i \<Longrightarrow> sleeping c j \<Longrightarrow> i = j"
  unfolding ctl_inv_def by (metis option.inject)

lemma phase_single:
  assumes "phase_ok prog cl c" "sleeping c i" "sleeping c j" shows "i = j"
proof (cases "ctl_inv c")
  case True
  from inv_single[OF this assms(2,3)] show ?thesis .
next
  case False
  then show ?thesis
    using assms by (cases prog; cases "hd prog") (auto simp: cleared_def spawned_def)
qed

section \<open>Properties\<close>

text \<open>C12: clients that take turns are safe.  If no call begins before the previous one has finished, with
  trigger tasks waking and running between any of its actions and with any commits failing, then
  at every moment at most one trigger sleeps; and whenever no call is under way, a sleeping trigger
  is the one in the slot, the alarm is armed, and the state is exactly the one the last call asked
  for.\<close>

theorem serial_calls_are_safe:
  assumes "ctl_reach api aud sy c" and "serial_reach api aud sy c s"
  shows "(\<forall>i j. sleeping (s_ctl s) i \<and> sleeping (s_ctl s) j \<longrightarrow> i = j)
    \<and> (all_done s \<longrightarrow>
        (\<forall>i. sleeping (s_ctl s) i \<longrightarrow> c_trigger_task (s_ctl s) = Some i \<and> control_status (s_ctl s))
        \<and> (s_calls s \<noteq> [] \<longrightarrow> d_inner (c_daemon (s_ctl s)) = cl_desired (last (s_calls s))))"
proof -
  have inv: "serial_inv s" using serial_reach_inv[OF assms(2)] ctl_inv_reach[OF assms(1)] by simp
  have "i = j" if "sleeping (s_ctl s) i" "sleeping (s_ctl s) j" for i j
    using inv that phase_single inv_single by (auto simp: serial_inv_def split: if_splits)
  moreover have "c_trigger_task (s_ctl s) = Some i \<and> control_status (s_ctl s)"
    if "all_done s" "sleeping (s_ctl s) i" for i
    using done_inv(1)[OF inv that(1)] that(2)
    by (fastforce simp: ctl_inv_def control_status_def daemon_status_def)
  ultimately show ?thesis using done_inv(2)[OF inv] by blast
qed

lemma serial_run:
  "serial_reach api aud sy c s \<Longrightarrow> list_all (\<lambda>x. \<not> begins x) xs \<Longrightarrow> serial_reach api aud sy c (sys_run api aud sy xs s)"
  by (induction xs arbitrary: s) (auto intro: serial_next)

lemma serial_call:
  assumes "serial_reach api aud sy c s" "all_done s" "list_all (\<lambda>x. \<not> begins x) xs"
  shows "serial_reach api aud sy c (sys_run api aud sy (x # xs) s)"
  using serial_run[OF serial_next[OF assms(1), of x] assms(3)] assms(2) by simp

text \<open>\<open>Arm\<close>, then \<open>Disarm\<close>, whose trigger is due while the call is under way.\<close>

theorem serial_calls_are_safe_witness:
  "let s = sys_run mem_api fake_ops demo_sym
      ([BeginArm demo_env ''builtin:horn'', Step 0, Step 0, Step 0, Step 0, Step 0, Step 0, Step 0]
        @ [BeginDisarm demo_env, Step 1, Wake 9000000000 0, Step 1, Run 0 (\<lambda>_. Inr ()), Step 1, Step 1, Step 1])
      (sys_start demo_control)
   in \<not> control_status (s_ctl s) \<and> (\<forall>i. \<not> sleeping (s_ctl s) i)"
proof -
  let ?xs = "[Step 0, Step 0, Step 0, Step 0, Step 0, Step 0, Step 0]"
  let ?ys = "[Step 1, Wake 9000000000 0, Step 1, Run 0 (\<lambda>_. Inr ()), Step 1, Step 1, Step 1]"
  let ?arm = "sys_run mem_api fake_ops demo_sym (BeginArm demo_env ''builtin:horn'' # ?xs) (sys_start demo_control)"
  let ?s = "sys_run mem_api fake_ops demo_sym (BeginDisarm demo_env # ?ys) ?arm"
  have c: "ctl_reach mem_api fake_ops demo_sym demo_control" by (simp add: demo_control_def reach_new)
  have begins: "list_all (\<lambda>x. \<not> begins x) ?xs" "list_all (\<lambda>x. \<not> begins x) ?ys" by simp_all
  have "all_done (sys_start demo_control)" by (simp add: all_done_def sys_start_def)
  from serial_call[OF serial_start this begins(1)]
  have arm: "serial_reach mem_api fake_ops demo_sym demo_control ?arm" .
  have fin: "all_done ?arm"
    by (simp add: sys_start_def start_call_def begin_arm_def schedule_call_def exec_simps all_done_def demo_resolve)
  note r = serial_call[OF arm fin begins(2), of "BeginDisarm demo_env"]
  have d: "all_done ?s" "s_calls ?s \<noteq> []" "cl_desired (last (s_calls ?s)) = state_disarmed"
    by (simp_all add: sys_start_def start_call_def begin_arm_def begin_disarm_def schedule_call_def
        exec_simps all_done_def demo_resolve)
  note safe = mp[OF conjunct2[OF serial_calls_are_safe[OF c r]] d(1)]
  have "d_inner (c_daemon (s_ctl ?s)) = state_disarmed" using mp[OF conjunct2[OF safe] d(2)] unfolding d(3) .
  then have off: "\<not> control_status (s_ctl ?s)"
    unfolding control_status_def daemon_status_def by (simp del: sys_run_simps)
  with conjunct1[OF safe] have "\<forall>i. \<not> sleeping (s_ctl ?s) i" by (simp del: sys_run_simps)
  with off show ?thesis unfolding Let_def sys_run_simps(3) by blast
qed

end
