(* ===== verification/End_To_End.thy ===== *)
theory End_To_End
  imports Audio_Service Ringing
begin

text \<open>
  The whole way of an alarm: process start (\<open>main.rs\<close>), client (\<open>alarm-daemon-client\<close>), control object
  (\<open>ipc/control.rs\<close>), trigger task, decoder, audio worker and the sample callback
  (\<open>audio/cpal_audio.rs\<close>).
\<close>

section \<open>The speaker\<close>

text \<open>The next buffer the device gets.\<close>

definition speaker ::
  "(f32 \<Rightarrow> 't) \<Rightarrow> nat \<Rightarrow> nat \<Rightarrow> f32 list \<Rightarrow> 't list \<Rightarrow> (cpal, 'db, 'w) control \<Rightarrow> 't list option" where
  "speaker conv channels rate scratch data c =
     map_option fst (typed_callback conv channels rate (cp_shared (c_player c)) scratch data)"

lemma cpal_play_accepted:
  assumes "cp_alive q" "cp_stream q"
  shows "\<exists>pb. sh_playback (cp_shared (snd (ao_play cpal_ops s full_volume q))) = Some pb \<and> playing_at s 0 pb"
  using assms
  by (simp add: cpal_ops_def send_and_wait_def worker_exec_def handle_play_def playing_at_def pb_ok_def)

lemma cpal_stop_keeps:
  "cp_alive (snd (ao_stop cpal_ops q)) = cp_alive q" "cp_stream (snd (ao_stop cpal_ops q)) = cp_stream q"
  by (simp_all add: cpal_ops_def send_and_wait_def worker_exec_def handle_stop_def)

lemma cpal_play_keeps:
  "cp_alive (snd (ao_play cpal_ops s v q)) = cp_alive q" "cp_stream (snd (ao_play cpal_ops s v q)) = cp_stream q"
  by (simp_all add: cpal_ops_def send_and_wait_def worker_exec_def split: prod.split)

lemma callback_fst:
  assumes "0 < channels" "fill_f32 sh (replicate (length data) (FFin 0)) channels rate = Some (buf, sh')"
  shows "map_option fst (typed_callback conv channels rate sh scratch data) = Some (map conv buf)"
  using typed_callback_fresh[OF assms(1), of conv rate sh scratch data] assms(2) by auto

lemma played_is_heard:
  assumes "cp_alive q" "cp_stream q" and "source_ok s" and "2 \<le> ds_sample_rate s" and "ds_sample_rate s < 2 ^ 32"
    and "length data = n * channels" and "0 < channels"
  shows "map_option fst (typed_callback conv channels (ds_sample_rate s)
      (cp_shared (snd (ao_play cpal_ops s full_volume q))) scratch data)
    = Some (map conv (concat (map (source_frame s channels) [0..<n])))"
proof -
  let ?sh = "cp_shared (snd (ao_play cpal_ops s full_volume q))"
  obtain pb where pb: "sh_playback ?sh = Some pb" "playing_at s 0 pb"
    using cpal_play_accepted[OF assms(1,2)] by blast
  have "length (replicate (length data) (FFin 0)) = n * channels" using assms(6) by simp
  from fill_f32_exact[OF assms(3-5) pb _ this assms(7)]
  obtain sh' where "fill_f32 ?sh (replicate (length data) (FFin 0)) channels (ds_sample_rate s) =
      Some (concat (map (source_frame s channels) [0..<n]), sh')" by auto
  from callback_fst[OF assms(7) this] show ?thesis .
qed

lemma stopped_is_silent:
  assumes "cp_alive q" and "0 < channels"
  shows "map_option fst (typed_callback conv channels rate (cp_shared (snd (ao_stop cpal_ops q))) scratch data)
    = Some (replicate (length data) (conv (FFin 0)))"
proof -
  have "sh_playback (cp_shared (snd (ao_stop cpal_ops q))) = None"
    using assms(1) by (simp add: cpal_ops_def send_and_wait_def worker_exec_def handle_stop_def)
  then have "fill_f32 (cp_shared (snd (ao_stop cpal_ops q))) (replicate (length data) (FFin 0)) channels rate =
      Some (silence (replicate (length data) (FFin 0)), cp_shared (snd (ao_stop cpal_ops q)))"
    using assms(2) by (simp add: fill_f32_def)
  from callback_fst[OF assms(2) this] show ?thesis by (simp add: silence_def)
qed

text \<open>From \<open>Arm\<close> to the speaker.  After a successful \<open>Arm\<close> on an object whose audio worker holds an
  open stream, once the deadline has passed and the trigger task has run on a file that decodes,
  the next buffer the device asks for holds exactly the first frames of that file, converted to
  the sample type of the device and spread over its channels, with silence behind the end.\<close>

lemma alarm_reaches_speaker:
  assumes "resolve_path (ce_fs ce) (c_sounds c) sid = Inr p"
    and "control_arm api cpal_ops ce sid c = (r, c1)"
    and "ce_now ce + c_trigger_delay c \<le> now"
    and "from_path_decode sy open_file p = Some (Inr s)"
    and "cp_alive (c_player c)" and "cp_stream (c_player c)"
    and "source_ok s" and "2 \<le> ds_sample_rate s" and "ds_sample_rate s < 2 ^ 32"
    and "length data = n * channels" and "0 < channels"
  shows "\<exists>h scratch' sh'. c_trigger_task c1 = Some h \<and>
    typed_callback from_sample channels (ds_sample_rate s)
        (cp_shared (c_player (ctl_run api cpal_ops sy [EWake now h, ERun h open_file] c1))) scratch data
      = Some (map from_sample (concat (map (source_frame s channels) [0..<n])), scratch', sh')"
proof -
  let ?h = "length (c_tasks c)" and ?rate = "ds_sample_rate s"
  note ok = arm_ok[OF assms(1), of api cpal_ops, unfolded assms(2) fst_conv snd_conv]
  have task: "sleeping c1 ?h" "c_tasks c1 ! ?h = new_trigger p (ce_now ce + c_trigger_delay c)"
    by (simp_all add: ok(4) nth_append sleeping_def)
  let ?sh = "cp_shared (c_player (ctl_run api cpal_ops sy [EWake now ?h, ERun ?h open_file] c1))"
  have "?sh = cp_shared (snd (ao_play cpal_ops s full_volume (c_player c1)))"
    using trigger_fires[OF task(1), of now sy open_file s cpal_ops] task(2) assms(3,4) by simp
  moreover have "cp_alive (c_player c1)" "cp_stream (c_player c1)"
    using ok(5) assms(5,6) by (simp_all add: cpal_stop_keeps)
  ultimately have "speaker from_sample channels ?rate scratch data
      (ctl_run api cpal_ops sy [EWake now ?h, ERun ?h open_file] c1)
    = Some (map from_sample (concat (map (source_frame s channels) [0..<n])))"
    using played_is_heard[OF _ _ assms(7-11), where conv = from_sample and scratch = scratch] by (simp add: speaker_def)
  with ok(3) show ?thesis by (auto simp: speaker_def)
qed

text \<open>The demo object with an open cpal player, for the witness.\<close>

definition demo_cpal :: "(cpal, path, mem_disk) control" where
  "demo_cpal =
     control_new (\<lambda>_. None) \<lparr>d_inner = state_disarmed, d_persistence = Some (from_path ''/s'')\<rparr>
       Map.empty demo_lib \<lparr>cp_alive = True, cp_responsive = True, cp_stream = True, cp_shared = shared_new\<rparr>"

lemma demo_sound_ok: "source_ok demo_sound" "ds_frames demo_sound = 1"
  using f32_val_small[of 1]
  by (simp_all add: source_ok_def demo_sound_def sound_wf_def ds_frames_def)

lemma alarm_reaches_speaker_example:
  "\<exists>scratch' sh'. typed_callback (\<lambda>x. x) 2 8000
      (cp_shared (c_player (ctl_run mem_api cpal_ops demo_sym [EWake 3000000100 0, ERun 0 (\<lambda>_. Inr ())]
        (snd (control_arm mem_api cpal_ops demo_env ''builtin:horn'' demo_cpal))))) [FNaN] (replicate 4 FNaN)
    = Some ([FFin 1, FFin 1, FFin 0, FFin 0], scratch', sh')"
proof -
  obtain r c1 where arm: "control_arm mem_api cpal_ops demo_env ''builtin:horn'' demo_cpal = (r, c1)"
    by (cases "control_arm mem_api cpal_ops demo_env ''builtin:horn'' demo_cpal")
  have f: "c_sounds demo_cpal = demo_lib" "c_tasks demo_cpal = []"
    "c_player demo_cpal = \<lparr>cp_alive = True, cp_responsive = True, cp_stream = True, cp_shared = shared_new\<rparr>"
    "c_trigger_delay demo_cpal = 3000000000"
    by (simp_all add: demo_cpal_def control_new_def trigger_delay_from_env_def env_var_def
        DEFAULT_TRIGGER_DELAY_def dur_from_secs_def)
  have res: "resolve_path (ce_fs demo_env) (c_sounds demo_cpal) ''builtin:horn'' = Inr ''/b/horn.wav''"
    by (simp add: f demo_resolve)
  have slot: "c_trigger_task c1 = Some 0" using arm_ok(3)[OF res, of mem_api cpal_ops] arm f by simp
  have u: "[0..<2] = [0, Suc 0]" by (simp add: upt_rec)
  have src: "concat (map (source_frame demo_sound 2) [0..<2]) = [FFin 1, FFin 1, FFin 0, FFin 0]"
    unfolding u source_frame_def demo_sound_ok(2) by (simp add: demo_sound_def)
  have rate: "2 \<le> ds_sample_rate demo_sound" "ds_sample_rate demo_sound < 2 ^ 32" "ds_sample_rate demo_sound = 8000"
    by (simp_all add: demo_sound_def)
  have late: "ce_now demo_env + c_trigger_delay demo_cpal \<le> 3000000100" by (simp add: f)
  show ?thesis
    using alarm_reaches_speaker[OF res arm late demo_decode _ _ demo_sound_ok(1) rate(1,2),
        of "replicate 4 FNaN" 2 2 "\<lambda>x. x" "[FNaN]"] f slot arm src rate(3)
    by auto
qed

section \<open>From process start to the speaker\<close>

lemma started_control:
  assumes "run api b env clk w = (tr, r, Some c)" and "b_spawn_audio b = Inr player"
  shows "settled c" "c_player c = player" "c_sounds c = library_from_env env"
    "c_trigger_delay c = trigger_delay_from_env env"
proof -
  obtain d w' where c: "c = control_new env d w' (library_from_env env) player"
    using run_served[OF assms(1)] assms(2) by auto
  with ctl_inv_new[of env d w' "library_from_env env" player]
  show "settled c" "c_player c = player" "c_sounds c = library_from_env env"
    "c_trigger_delay c = trigger_delay_from_env env"
    by (simp_all add: settled_def running_def control_new_def)
qed

lemma client_arm_controls:
  "control_arm api aud ce sid c = (Inr (), c1) \<Longrightarrow>
    client_arm (Inr ()) (dispatch api aud ce) sid (cl, c) = (Inr (), cl\<lparr>cl_proxy := True\<rparr>, c1)"
  by (auto simp: client_arm_def proxy_call_def proxy_def dispatch_def unit_reply_def as_unit_def ok_or_def)

lemma client_disarm_controls:
  "control_disarm api aud ce c = (r, c1) \<Longrightarrow>
    client_disarm (Inr ()) (dispatch api aud ce) (cl, c) = (Inr (), cl\<lparr>cl_proxy := True\<rparr>, c1)"
  using disarm_ok(1)[of api aud ce c r c1]
  by (auto simp: client_disarm_def proxy_call_def proxy_def dispatch_def unit_reply_def as_unit_def ok_or_def)

lemma waiting_device:
  assumes "cp_alive q" "cp_stream q"
  shows "cp_alive (after_waiting sy cpal_ops evs due (snd (ao_stop cpal_ops q)))"
    "cp_stream (after_waiting sy cpal_ops evs due (snd (ao_stop cpal_ops q)))"
  using assms
  by (auto simp: after_waiting_def ring_def cpal_stop_keeps cpal_play_keeps split: option.split sum.split)

section \<open>Properties\<close>

text \<open>C5: the whole way.  When the daemon has come up with an audio worker that holds an open stream, a client
  that arms a sound the library resolves succeeds; through any questions and ticks the next buffer
  of the device is silence until the first tick at or after the deadline, and then begins with the
  frames of the file; when the client disarms, the buffer is silence again and the alarm is off.
  The disk may fail at any time.\<close>

theorem client_hears_alarm:
  assumes "run api b env clk w = (tr, r, Some c)"
    and "b_spawn_audio b = Inr player" and "cp_alive player" and "cp_stream player"
    and "resolve_path (ce_fs ce) (library_from_env env) sid = Inr p" and "list_all (quiet sy) evs"
    and "\<And>open_file. due_tick (ce_now ce + trigger_delay_from_env env) evs = Some open_file \<Longrightarrow>
      from_path_decode sy open_file p = Some (Inr s)"
    and "source_ok s" and "2 \<le> ds_sample_rate s" and "ds_sample_rate s < 2 ^ 32"
    and "length data = n * channels" and "0 < channels"
  shows "\<exists>cl c1 rs c2 c3.
    client_arm (Inr ()) (dispatch api cpal_ops ce) sid (from_connection, c) = (Inr (), cl, c1)
    \<and> timed_run api cpal_ops sy evs c1 = Some (rs, c2) \<and> control_status c2
    \<and> speaker conv channels (ds_sample_rate s) scratch data c2 =
        Some (map conv (if due_tick (ce_now ce + trigger_delay_from_env env) evs = None
          then replicate (n * channels) (FFin 0) else concat (map (source_frame s channels) [0..<n])))
    \<and> client_disarm (Inr ()) (dispatch api cpal_ops ce') (cl, c2) = (Inr (), cl, c3) \<and> \<not> control_status c3
    \<and> speaker conv channels (ds_sample_rate s) scratch' data c3 = Some (replicate (n * channels) (conv (FFin 0)))"
proof -
  note start = started_control[OF assms(1,2)]
  let ?t = "ce_now ce + trigger_delay_from_env env"
  let ?dev = "after_waiting sy cpal_ops evs (Some (p, ?t)) (snd (ao_stop cpal_ops player))"
  have res: "resolve_path (ce_fs ce) (c_sounds c) sid = Inr p" using assms(5) start(3) by simp
  obtain q c1 where arm: "control_arm api cpal_ops ce sid c = (q, c1)" by (cases "control_arm api cpal_ops ce sid c")
  then have q: "q = Inr ()" using arm_ok(1)[OF res, of api cpal_ops] by simp
  obtain rs c2 where run: "timed_run api cpal_ops sy evs c1 = Some (rs, c2)" "control_status c2" "c_player c2 = ?dev"
    using armed_then_waiting[OF start(1) res arm assms(6)] start(2,4) by auto
  obtain x c3 where dis: "control_disarm api cpal_ops ce' c2 = (x, c3)" by (cases "control_disarm api cpal_ops ce' c2")
  have stop: "cp_alive (snd (ao_stop cpal_ops player))" "cp_stream (snd (ao_stop cpal_ops player))"
    using assms(3,4) by (simp_all add: cpal_stop_keeps)
  have heard: "speaker conv channels (ds_sample_rate s) scratch data c2 =
      Some (map conv (if due_tick ?t evs = None then replicate (n * channels) (FFin 0)
        else concat (map (source_frame s channels) [0..<n])))"
  proof (cases "due_tick ?t evs")
    case None
    with stopped_is_silent[OF assms(3,12), where conv = conv and scratch = scratch and data = data] assms(11) run(3)
    show ?thesis by (simp add: speaker_def after_waiting_def del: map_option_eq_Some)
  next
    case (Some open_file)
    with played_is_heard[OF stop assms(8-12)] assms(7)[OF Some] run(3) show ?thesis
      by (simp add: speaker_def after_waiting_def ring_def)
  qed
  have alive: "cp_alive (c_player c2)" using waiting_device(1)[OF assms(3,4)] run(3) by simp
  have off: "speaker conv channels (ds_sample_rate s) scratch' data c3 = Some (replicate (n * channels) (conv (FFin 0)))"
    using stopped_is_silent[OF alive assms(12), where conv = conv and scratch = scratch' and data = data]
      disarm_ok(5)[OF dis] assms(11)
    by (simp add: speaker_def del: map_option_eq_Some)
  have "\<not> control_status c3" using disarm_ok(2)[OF dis] by (simp add: control_status_def daemon_status_def)
  with client_arm_controls[OF arm[unfolded q], of from_connection] client_disarm_controls[OF dis, of "from_connection\<lparr>cl_proxy := True\<rparr>"]
    run(1,2) heard off
  show ?thesis
    by (intro exI[of _ "from_connection\<lparr>cl_proxy := True\<rparr>"] exI[of _ c1] exI[of _ rs] exI[of _ c2] exI[of _ c3]) simp
qed

text \<open>A daemon with an open stream, for the witness.\<close>

definition cpal_boot :: "cpal boot" where
  "cpal_boot =
     \<lparr>b_create_dir_all = (\<lambda>_. Inr ()),
      b_spawn_audio = Inr \<lparr>cp_alive = True, cp_responsive = True, cp_stream = True, cp_shared = shared_new\<rparr>,
      b_builder = (\<lambda>_. Inr ()), b_name = (\<lambda>_. Inr ()), b_serve_at = (\<lambda>_. Inr ()), b_build = Inr (),
      b_watchdog_enabled = None, b_sigint = Inr (), b_sigterm = Inr (), b_signal = ''SIGTERM''\<rparr>"

theorem client_hears_alarm_witness:
  "\<exists>tr r c cl c1 rs c2. run mem_api cpal_boot service_env 0 Map.empty = (tr, r, Some c)
    \<and> client_arm (Inr ()) (dispatch mem_api cpal_ops demo_env) ''builtin:horn'' (from_connection, c) = (Inr (), cl, c1)
    \<and> timed_run mem_api cpal_ops demo_sym [TTick 100 (\<lambda>_. Inr ()), TTick 3000000100 (\<lambda>_. Inr ())] c1 = Some (rs, c2)
    \<and> speaker (\<lambda>x. x) 2 8000 [FNaN] (replicate 4 FNaN) c2 = Some [FFin 1, FFin 1, FFin 0, FFin 0]"
proof -
  let ?evs = "[TTick 100 (\<lambda>_. Inr ()), TTick 3000000100 (\<lambda>_. Inr ())]"
  have disk: "disk_state (stored mem_view (db_path service_env Session) Map.empty) = Some state_disarmed"
    by (rule empty_disk_state)
  obtain tr r c where run: "run mem_api cpal_boot service_env 0 Map.empty = (tr, r, Some c)"
    using run_succeeds[OF mem.redb_reliable_axioms service_env_simps(1) disk, of cpal_boot _ 0]
    by (auto simp: cpal_boot_def connect_def bind_r_def map_err_def)
  have res: "resolve_path (ce_fs demo_env) (library_from_env service_env) ''builtin:horn'' = Inr ''/b/horn.wav''"
    by (simp add: service_env_simps demo_resolve)
  have t: "ce_now demo_env + trigger_delay_from_env service_env = 3000000100"
    by (simp add: trigger_delay_from_env_def service_env_def env_var_def DEFAULT_TRIGGER_DELAY_def dur_from_secs_def)
  have ev: "list_all (quiet demo_sym) ?evs" by (simp add: demo_decode)
  have dec: "from_path_decode demo_sym f ''/b/horn.wav'' = Some (Inr demo_sound)"
    if "due_tick (ce_now demo_env + trigger_delay_from_env service_env) ?evs = Some f" for f
    using that unfolding t by (auto simp: demo_decode)
  have u: "[0..<2] = [0, Suc 0]" by (simp add: upt_rec)
  have src: "concat (map (source_frame demo_sound 2) [0..<2]) = [FFin 1, FFin 1, FFin 0, FFin 0]"
    unfolding u source_frame_def demo_sound_ok(2) by (simp add: demo_sound_def)
  have rate: "2 \<le> ds_sample_rate demo_sound" "ds_sample_rate demo_sound < 2 ^ 32" "ds_sample_rate demo_sound = 8000"
    by (simp_all add: demo_sound_def)
  have boot: "\<exists>q. b_spawn_audio cpal_boot = Inr q \<and> cp_alive q \<and> cp_stream q" by (simp add: cpal_boot_def)
  then obtain q where q: "b_spawn_audio cpal_boot = Inr q" "cp_alive q" "cp_stream q" by blast
  have len: "length (replicate 4 FNaN) = 2 * 2" by simp
  from client_hears_alarm[OF run q res ev dec demo_sound_ok(1) rate(1,2) len zero_less_numeral,
      of "\<lambda>x. x" "[FNaN]" demo_env "[]"]
  have "\<exists>cl c1 rs c2. client_arm (Inr ()) (dispatch mem_api cpal_ops demo_env) ''builtin:horn'' (from_connection, c)
      = (Inr (), cl, c1)
    \<and> timed_run mem_api cpal_ops demo_sym ?evs c1 = Some (rs, c2)
    \<and> speaker (\<lambda>x. x) 2 8000 [FNaN] (replicate 4 FNaN) c2 = Some [FFin 1, FFin 1, FFin 0, FFin 0]"
    unfolding t src rate(3) by auto
  with run show ?thesis by blast
qed

end
