(* ===== verification/Client_Example.thy ===== *)
theory Client_Example
  imports Alarm_Service
begin

text \<open>
  The example program of the client crate (\<open>alarm-daemon-client/examples/basic.rs\<close>) against the daemon:
  it lists the sounds, arms the first one, reads the state back and disarms.
\<close>

section \<open>The program\<close>

datatype printed =
    PrAvailable "string list"
  | PrArmedWith string
  | PrStatus bool
  | PrCurrent "string option"
  | PrDisarmed
  | PrNoSounds

text \<open>The lines printed, the result of \<open>main\<close>, and the bus afterwards.  \<open>connection\<close> and \<open>mk\<close> are the
  outcomes of opening the connection and of building the proxy.\<close>

definition basic_main ::
  "bus_error + unit \<Rightarrow> bus_error + unit \<Rightarrow> 's bus \<Rightarrow> 's \<Rightarrow> printed list \<times> (client_error + unit) \<times> 's" where
  "basic_main connection mk call s =
     (case connect_session connection of
        Inl e \<Rightarrow> ([], Inl e, s)
      | Inr client \<Rightarrow>
          (case client_list_sounds mk call (client, s) of
             (Inl e, _, s1) \<Rightarrow> ([], Inl e, s1)
           | (Inr sounds, x1) \<Rightarrow>
               (let out = [PrAvailable sounds] in
                case sounds of
                  [] \<Rightarrow> (out @ [PrNoSounds], Inr (), snd x1)
                | sid # _ \<Rightarrow>
                    (case client_arm mk call sid x1 of
                       (Inl e, _, s2) \<Rightarrow> (out, Inl e, s2)
                     | (Inr _, x2) \<Rightarrow>
                         (let out = out @ [PrArmedWith sid] in
                          case client_status mk call x2 of
                            (Inl e, _, s3) \<Rightarrow> (out, Inl e, s3)
                          | (Inr st, x3) \<Rightarrow>
                              (let out = out @ [PrStatus st] in
                               case client_current_sound mk call x3 of
                                 (Inl e, _, s4) \<Rightarrow> (out, Inl e, s4)
                               | (Inr cur, x4) \<Rightarrow>
                                   (let out = out @ [PrCurrent cur] in
                                    case client_disarm mk call x4 of
                                      (Inl e, _, s5) \<Rightarrow> (out, Inl e, s5)
                                    | (Inr _, x5) \<Rightarrow> (out @ [PrDisarmed], Inr (), snd x5))))))))"

section \<open>Against the daemon\<close>

text \<open>The client talks to the object the daemon serves.\<close>

lemma client_addresses_daemon: "proxy_target = (BUS_NAME, OBJECT_PATH, CONTROL_INTERFACE)"
  by (simp add: proxy_target_def CLIENT_BUS_NAME_def CLIENT_OBJECT_PATH_def CLIENT_CONTROL_INTERFACE_def
      BUS_NAME_def OBJECT_PATH_def CONTROL_INTERFACE_def)

lemma client_lists:
  "list_sounds (ce_fs ce) (c_sounds c) = Inr sounds \<Longrightarrow>
    client_list_sounds (Inr ()) (dispatch api aud ce) (cl, c) = (Inr (map ss_id sounds), cl\<lparr>cl_proxy := True\<rparr>, c)"
  by (auto simp: client_list_sounds_def proxy_call_def proxy_def dispatch_def control_list_sounds_def as_strs_def
      ok_or_def)

lemma client_arms:
  assumes "resolve_path (ce_fs ce) (c_sounds c) sid = Inr p"
  shows "\<exists>c'. client_arm (Inr ()) (dispatch api aud ce) sid (cl, c) = (Inr (), cl\<lparr>cl_proxy := True\<rparr>, c')
    \<and> control_status c' \<and> daemon_current_sound (c_daemon c') = Some sid"
proof -
  obtain r c' where arm: "control_arm api aud ce sid c = (r, c')" by (cases "control_arm api aud ce sid c")
  from arm_ok(1,2)[OF assms, of api aud] arm show ?thesis
    by (auto simp: client_arm_def proxy_call_def proxy_def dispatch_def unit_reply_def as_unit_def ok_or_def
        control_status_def daemon_status_def daemon_current_sound_def)
qed

section \<open>Properties\<close>

text \<open>C30: the example works.  Against a daemon whose sound directories can be listed, the program ends
  without error: it prints the sorted ids, and when there is one it arms the first (a listed sound
  can always be armed), reads back that it is armed with it, and leaves the alarm disarmed; with no
  sound it changes nothing.\<close>

theorem basic_example_runs:
  assumes "listing_ok (ce_fs ce) (c_sounds c)" and "list_sounds (ce_fs ce) (c_sounds c) = Inr sounds"
  shows "case map ss_id sounds of
      [] \<Rightarrow> basic_main (Inr ()) (Inr ()) (dispatch api aud ce) c = ([PrAvailable [], PrNoSounds], Inr (), c)
    | sid # rest \<Rightarrow> \<exists>c'. basic_main (Inr ()) (Inr ()) (dispatch api aud ce) c =
          ([PrAvailable (sid # rest), PrArmedWith sid, PrStatus True, PrCurrent (Some sid), PrDisarmed], Inr (), c')
        \<and> \<not> control_status c' \<and> control_current_sound c' = []"
proof (cases sounds)
  case Nil
  with client_lists[OF assms(2), of api aud from_connection] show ?thesis
    by (simp add: basic_main_def connect_session_def map_err_def bind_r_def)
next
  case (Cons a as)
  let ?sid = "ss_id a" and ?cl = "from_connection\<lparr>cl_proxy := True\<rparr>"
  obtain p where p: "resolve_path (ce_fs ce) (c_sounds c) ?sid = Inr p"
    using listed_sounds_resolve[OF assms, of a] Cons by auto
  from client_arms[OF p, of api aud ?cl] obtain c1 where
    arm: "client_arm (Inr ()) (dispatch api aud ce) ?sid (?cl, c) = (Inr (), ?cl, c1)"
    "control_status c1" "daemon_current_sound (c_daemon c1) = Some ?sid" by auto
  have "?sid \<noteq> []" using p by (auto simp: resolve_path_def)
  then have rd: "client_status (Inr ()) (dispatch api aud ce) (?cl, c1) = (Inr True, ?cl, c1)"
    "client_current_sound (Inr ()) (dispatch api aud ce) (?cl, c1) = (Inr (Some ?sid), ?cl, c1)"
    using arm by (simp_all add: bus.client_reads)
  obtain c2 where "client_disarm (Inr ()) (dispatch api aud ce) (?cl, c1) = (Inr (), ?cl, c2)"
    "\<not> control_status c2" "daemon_current_sound (c_daemon c2) = None"
    using bus.client_disarm_effect(1)[of api aud ce ?cl c1] by auto
  then show ?thesis
    using client_lists[OF assms(2), of api aud from_connection] arm rd Cons
    by (simp add: basic_main_def connect_session_def map_err_def bind_r_def Let_def control_current_sound_def)
qed

theorem basic_example_runs_witness:
  "\<exists>c'. basic_main (Inr ()) (Inr ()) (dispatch mem_api fake_ops demo_env) demo_control =
      ([PrAvailable [''builtin:horn'', ''custom:bell''], PrArmedWith ''builtin:horn'', PrStatus True,
        PrCurrent (Some ''builtin:horn''), PrDisarmed], Inr (), c') \<and> \<not> control_status c'"
proof -
  have "listing_ok (ce_fs demo_env) (c_sounds demo_control)"
    "list_sounds (ce_fs demo_env) (c_sounds demo_control) = Inr [summary Builtin ''horn'' 9, summary Custom ''bell'' 9]"
    by (simp_all add: demo_listing_ok demo_list_sounds)
  from basic_example_runs[OF this, of mem_api fake_ops] show ?thesis
    by (auto simp: summary_def sound_id_def source_prefix_def)
qed

end
