(* ===== verification/Wav_Files.thy ===== *)
theory Wav_Files
  imports Playback
begin

text \<open>
  The WAV files that the unit tests build by hand (\<open>audio/decoded.rs\<close>, \<open>audio/cpal_audio.rs\<close>,
  \<open>audio/fake.rs\<close>, \<open>audio/sounds.rs\<close>), and what the decoder is relied on to make of them: the locale
  \<open>wav_decoder\<close>, interpreted on a reader of such files.
\<close>

section \<open>16-bit PCM files\<close>

type_synonym i16 = "16 word"

definition i16_le :: "i16 \<Rightarrow> bytes" where
  "i16_le v = le_bytes 2 (unat v)"

definition wav_header :: "nat \<Rightarrow> nat \<Rightarrow> nat \<Rightarrow> nat \<Rightarrow> bytes" where
  "wav_header riff_size sample_rate channels data_size =
     as_bytes ''RIFF'' @ le_bytes 4 riff_size @ as_bytes ''WAVE'' @ as_bytes ''fmt '' @ le_bytes 4 16 @
     le_bytes 2 1 @ le_bytes 2 channels @ le_bytes 4 sample_rate @ le_bytes 4 (sample_rate * channels * 2) @
     le_bytes 2 (channels * 2) @ le_bytes 2 16 @ as_bytes ''data'' @ le_bytes 4 data_size"

definition pcm_wav :: "nat \<Rightarrow> nat \<Rightarrow> i16 list \<Rightarrow> bytes" where
  "pcm_wav sample_rate channels pcm =
     wav_header (36 + 2 * length pcm) sample_rate channels (2 * length pcm) @ concat (map i16_le pcm)"

definition u32_or_max :: "nat \<Rightarrow> nat" where
  "u32_or_max n = (if n < 2 ^ 32 then n else 2 ^ 32 - 1)"

section \<open>The builders of the tests\<close>

text \<open>\<open>synth_wav\<close> of \<open>audio/decoded.rs\<close>; the samples of the sine are the argument \<open>tone\<close>.\<close>

definition synth_tone_wav :: "nat \<Rightarrow> nat \<Rightarrow> nat \<Rightarrow> (nat \<Rightarrow> i16) \<Rightarrow> bytes" where
  "synth_tone_wav sample_rate channels samples_per_channel tone =
     (let data_size = u32_or_max (samples_per_channel * channels * 2) in
      wav_header (min (36 + data_size) (2 ^ 32 - 1)) sample_rate channels data_size @
      concat (map (\<lambda>i. concat (replicate channels (i16_le (tone i)))) [0..<samples_per_channel]))"

text \<open>The file behind \<open>silent_sound\<close> of \<open>audio/cpal_audio.rs\<close>.\<close>

definition silent_wav :: "nat \<Rightarrow> nat \<Rightarrow> nat \<Rightarrow> bytes" where
  "silent_wav channels sample_rate frames =
     (let data_size = u32_or_max (frames * channels * 2) in
      wav_header (36 + data_size) sample_rate channels data_size @
      concat (replicate (frames * channels) (i16_le (32767 div 2))))"

text \<open>The file behind \<open>tiny_sound\<close> of \<open>audio/fake.rs\<close>, and \<open>synth_wav\<close> of \<open>audio/sounds.rs\<close>.\<close>

definition tiny_wav :: bytes where
  "tiny_wav = (let sr = 8000; ch = 1; data_size = 2 in wav_header (36 + data_size) sr ch data_size @ i16_le 0)"

definition synth_wav :: bytes where
  "synth_wav =
     (let sr = 8000; ch = 1; data_size = 2 * 128 in
      wav_header (36 + data_size) sr ch data_size @ concat (replicate 128 (i16_le (32767 div 4))))"

lemma concat_map_concat: "concat (map f (concat xss)) = concat (map (\<lambda>xs. concat (map f xs)) xss)"
  by (induction xss) simp_all

lemma synth_tone_pcm:
  assumes "n * ch * 2 + 36 < 2 ^ 32"
  shows "synth_tone_wav sr ch n tone = pcm_wav sr ch (concat (map (\<lambda>i. replicate ch (tone i)) [0..<n]))"
proof -
  let ?pcm = "concat (map (\<lambda>i. replicate ch (tone i)) [0..<n])"
  have "length ?pcm = n * ch" by (simp add: length_concat o_def sum_list_triv)
  moreover have "concat (map i16_le ?pcm) = concat (map (\<lambda>i. concat (replicate ch (i16_le (tone i)))) [0..<n])"
    by (simp add: concat_map_concat o_def)
  ultimately show ?thesis
    using assms by (simp add: synth_tone_wav_def pcm_wav_def u32_or_max_def Let_def mult.commute)
qed

lemma silent_pcm:
  assumes "n * ch * 2 + 36 < 2 ^ 32"
  shows "silent_wav ch sr n = pcm_wav sr ch (replicate (n * ch) 16383)"
proof -
  have "(32767 div 2 :: i16) = 16383" by simp
  then show ?thesis
    using assms by (simp add: silent_wav_def pcm_wav_def u32_or_max_def Let_def mult.commute)
qed

lemma small_pcm: "tiny_wav = pcm_wav 8000 1 [0]" "synth_wav = pcm_wav 8000 1 (replicate 128 8191)"
proof -
  have "(32767 div 4 :: i16) = 8191" by simp
  then show "synth_wav = pcm_wav 8000 1 (replicate 128 8191)"
    unfolding synth_wav_def pcm_wav_def Let_def map_replicate length_replicate by simp
qed (simp add: tiny_wav_def pcm_wav_def)

section \<open>What decoding promises\<close>

definition i16_f32 :: "i16 \<Rightarrow> f32" where
  "i16_f32 v = FFin (of_int (sint v) / 32768)"

text \<open>A file of 16-bit samples decodes to these samples divided by \<open>2 ^ 15\<close>, in any number of packets; a
  source shorter than any container's header is not recognised.\<close>

locale wav_decoder =
  fixes sy :: "(bytes, 'f, 'd, 'p) symphonia_api"
  assumes pcm_law: "ch \<in> {1, 2} \<Longrightarrow> 0 < sr \<Longrightarrow> sr < 2 ^ 20 \<Longrightarrow> pcm \<noteq> [] \<Longrightarrow> length pcm mod ch = 0 \<Longrightarrow>
      length pcm < 2 ^ 24 \<Longrightarrow>
      \<exists>fmt t dec ps. sy_probe sy (Some ''wav'') (pcm_wav sr ch pcm) = Inr fmt \<and> sy_default_track sy fmt = Some t
        \<and> cp_sample_rate (tr_params t) = Some sr \<and> cp_channels (tr_params t) = Some ch
        \<and> sy_make sy (tr_params t) = Inr dec \<and> packets sy fmt ps
        \<and> decode_all sy dec (filter (\<lambda>p. sy_track_id sy p = tr_id t) ps) = Inr (map i16_f32 pcm)"
    and short_law: "length bs < 12 \<Longrightarrow> \<exists>e. sy_probe sy hint bs = Inl e"
begin

lemma from_bytes_pcm:
  assumes "ch \<in> {1, 2}" "0 < sr" "sr < 2 ^ 20" "pcm \<noteq> []" "length pcm mod ch = 0" "length pcm < 2 ^ 24"
  shows "from_bytes_decode sy (pcm_wav sr ch pcm) (Some ''wav'') =
    Some (Inr \<lparr>ds_samples = map i16_f32 pcm, ds_channels = ch, ds_sample_rate = sr\<rparr>)"
proof -
  obtain fmt t dec ps where l: "sy_probe sy (Some ''wav'') (pcm_wav sr ch pcm) = Inr fmt" "sy_default_track sy fmt = Some t"
    "cp_sample_rate (tr_params t) = Some sr" "cp_channels (tr_params t) = Some ch" "sy_make sy (tr_params t) = Inr dec"
    "packets sy fmt ps" "decode_all sy dec (filter (\<lambda>p. sy_track_id sy p = tr_id t) ps) = Inr (map i16_f32 pcm)"
    using pcm_law[OF assms] by blast
  have "channel_count (tr_params t) = Some ch" using assms(1) l(4) by (auto simp: channel_count_def)
  then show ?thesis
    using l packet_loop_exact[OF l(6), of "tr_id t" dec "[]"] assms(4,5)
    by (simp add: from_bytes_decode_def decode_def bind_r_def finish_decode_def)
qed

lemma from_bytes_short: "length bs < 12 \<Longrightarrow> \<exists>e. from_bytes_decode sy bs hint = Some (Inl e)"
  using short_law[of bs hint] by (auto simp: from_bytes_decode_def decode_def)

end

section \<open>A reader of such files\<close>

fun pcm_samples :: "bytes \<Rightarrow> f32 list" where
  "pcm_samples (a # b # bs) = i16_f32 (word_of_nat (le_nat [a, b])) # pcm_samples bs"
| "pcm_samples _ = []"

definition pcm_reader :: "(bytes, nat \<times> nat \<times> bytes \<times> bool, unit, bytes) symphonia_api" where
  "pcm_reader =
     \<lparr>sy_probe = (\<lambda>_ b. if 44 \<le> length b \<and> take 4 b = as_bytes ''RIFF'' \<and> take 4 (drop 8 b) = as_bytes ''WAVE''
        then Inr (le_nat (take 4 (drop 24 b)), le_nat (take 2 (drop 22 b)), drop 44 b, False)
        else Inl ''no suitable format reader found''),
      sy_default_track = (\<lambda>(r, c, _). Some \<lparr>tr_id = 0, tr_params = \<lparr>cp_sample_rate = Some r, cp_channels = Some c\<rparr>\<rparr>),
      sy_make = (\<lambda>_. Inr ()),
      sy_next_packet = (\<lambda>(r, c, d, done). if done then (Inl SymUnexpectedEof, (r, c, d, done)) else (Inr d, (r, c, d, True))),
      sy_track_id = (\<lambda>_. 0),
      sy_decode = (\<lambda>_ d. (Inr (pcm_samples d), ()))\<rparr>"

lemma pcm_samples_i16: "pcm_samples (concat (map i16_le pcm)) = map i16_f32 pcm"
proof (induction pcm)
  case (Cons v pcm)
  have "le_nat (i16_le v) = unat v"
    using unsigned_less[of v, where 'a = nat] by (simp add: i16_le_def le_nat_le_bytes)
  moreover obtain a b where "i16_le v = [a, b]" by (simp add: i16_le_def numeral_2_eq_2)
  ultimately show ?case using Cons by simp
qed simp

lemma wav_header_parts:
  assumes "rate < 2 ^ 32" "ch < 2 ^ 16"
  shows "length (wav_header rs rate ch ds) = 44" "take 4 (wav_header rs rate ch ds) = as_bytes ''RIFF''"
    "take 4 (drop 8 (wav_header rs rate ch ds)) = as_bytes ''WAVE''"
    "le_nat (take 4 (drop 24 (wav_header rs rate ch ds))) = rate"
    "le_nat (take 2 (drop 22 (wav_header rs rate ch ds))) = ch"
  using assms by (simp_all add: wav_header_def le_nat_le_bytes del: le_bytes.simps)

interpretation pcm: wav_decoder pcm_reader
proof
  fix ch sr pcm assume a: "ch \<in> {1 :: nat, 2}" "sr < (2 :: nat) ^ 20"
  have r: "sr < 2 ^ 32" "ch < 2 ^ 16" using a by auto
  let ?b = "pcm_wav sr ch pcm" and ?d = "concat (map i16_le pcm)"
  have fmt: "sy_probe pcm_reader (Some ''wav'') ?b = Inr (sr, ch, ?d, False)"
    unfolding pcm_wav_def pcm_reader_def using wav_header_parts[OF r] by simp
  have "packets pcm_reader (sr, ch, ?d, True) []"
    by (rule packets_end[of _ _ SymUnexpectedEof "(sr, ch, ?d, True)"]) (simp_all add: pcm_reader_def)
  then have ps: "packets pcm_reader (sr, ch, ?d, False) [?d]"
    by (rule packets_next[rotated]) (simp add: pcm_reader_def)
  show "\<exists>fmt t dec ps. sy_probe pcm_reader (Some ''wav'') ?b = Inr fmt \<and> sy_default_track pcm_reader fmt = Some t
      \<and> cp_sample_rate (tr_params t) = Some sr \<and> cp_channels (tr_params t) = Some ch
      \<and> sy_make pcm_reader (tr_params t) = Inr dec \<and> packets pcm_reader fmt ps
      \<and> decode_all pcm_reader dec (filter (\<lambda>p. sy_track_id pcm_reader p = tr_id t) ps) = Inr (map i16_f32 pcm)"
    using fmt ps
    by (intro exI[of _ "(sr, ch, ?d, False)"] exI[of _ "\<lparr>tr_id = 0, tr_params = \<lparr>cp_sample_rate = Some sr, cp_channels = Some ch\<rparr>\<rparr>"]
        exI[of _ "()"] exI[of _ "[?d]"])
      (simp add: pcm_reader_def bind_r_def pcm_samples_i16)
next
  fix bs :: bytes and hint assume "length bs < 12"
  then show "\<exists>e. sy_probe pcm_reader hint bs = Inl e" by (simp add: pcm_reader_def)
qed

end
