(* ===== verification/Conformance.thy ===== *)
theory Conformance
  imports Startup Playback_Rates Registration Wav_Files
begin

text \<open>
  The unit tests of the repository as statements about the model: each test is a boolean definition
  that follows the test's body, assertion by assertion, on the model's operations, and is proved.
  They tie the definitions to what the authors expect of the code.  Temporary directories and files
  are concrete paths of the in-memory database and file tree; the clock is an argument.
\<close>

section \<open>\<open>daemon/mod.rs\<close>\<close>

type_synonym mem_daemon = "path alarm_daemon \<times> mem_disk"

definition test_starts_disarmed :: bool where
  "test_starts_disarmed \<longleftrightarrow>
     daemon_status (daemon_new :: path alarm_daemon) = Disarmed \<and>
     \<not> is_armed (daemon_status (daemon_new :: path alarm_daemon))"

definition test_arm_then_disarm :: bool where
  "test_arm_then_disarm \<longleftrightarrow>
     (let (t1, d1, w1) = arm mem_api False (daemon_new, Map.empty);
          (t2, d2, w2) = daemon_disarm mem_api False (d1, w1)
      in t1 = Changed Disarmed Armed \<and> daemon_status d1 = Armed \<and>
         t2 = Changed Armed Disarmed \<and> daemon_status d2 = Disarmed)"

definition test_idempotent :: bool where
  "test_idempotent \<longleftrightarrow>
     (let (_, x1) = arm mem_api False (daemon_new, Map.empty);
          (t1, x2) = arm mem_api False x1;
          (_, x3) = daemon_disarm mem_api False x2;
          (t2, x4) = daemon_disarm mem_api False x3
      in t1 = NoChange \<and> t2 = NoChange)"

text \<open>The clones of a \<open>Persistence\<close> share its cell, so the second start sees the handle as the first
  daemon left it.\<close>

definition test_recovery_flag :: "int \<Rightarrow> bool" where
  "test_recovery_flag now \<longleftrightarrow>
     (case new_persistent mem_api now (from_path ''/t/state.redb'') Map.empty of
        (Inl _, _) \<Rightarrow> False
      | (Inr (d, rec1), w1) \<Rightarrow>
          (let past_ms = unix_now_ms now - 1000;
               (_, d1, w2) = arm_with_next_fire mem_api False (Some past_ms) (d, w1)
           in \<not> missed_while_down rec1 \<and> daemon_current_sound d1 = None \<and>
              (case d_persistence d1 of
                 None \<Rightarrow> False
               | Some p \<Rightarrow>
                   (case new_persistent mem_api now p w2 of
                      (Inl _, _) \<Rightarrow> False
                    | (Inr (_, rec2), _) \<Rightarrow> missed_while_down rec2))))"

definition test_current_sound :: "int \<Rightarrow> bool" where
  "test_current_sound now \<longleftrightarrow>
     (case new_persistent mem_api now (from_path ''/t/sound.redb'') Map.empty of
        (Inl _, _) \<Rightarrow> False
      | (Inr (d, _), w1) \<Rightarrow>
          (let (_, d1, w2) = arm_with_sound mem_api False ''builtin:collision'' (Some 1700000000000) (d, w1)
           in daemon_current_sound d1 = Some ''builtin:collision'' \<and>
              (case d_persistence d1 of
                 None \<Rightarrow> False
               | Some p \<Rightarrow>
                   (case new_persistent mem_api now p w2 of
                      (Inl _, _) \<Rightarrow> False
                    | (Inr (d2, _), w3) \<Rightarrow>
                        (let (_, d3, _) = daemon_disarm mem_api False (d2, w3)
                         in daemon_current_sound d2 = Some ''builtin:collision'' \<and>
                            daemon_current_sound d3 = None)))))"

lemma simple_daemon_tests: "test_starts_disarmed" "test_arm_then_disarm" "test_idempotent"
  by code_simp+

text \<open>A first start on an empty disk, and a restart after a transition.\<close>

lemma fresh_start:
  "\<exists>d w'. new_persistent mem_api now (from_path path) Map.empty = (Inr (d, \<lparr>missed_while_down = False\<rparr>), w')
    \<and> synced mem_view path (d, w')"
proof -
  have "disk_state (stored mem_view path Map.empty) = Some state_disarmed"
    by (simp add: stored_def mem_view_def mem_tables_def lookup_bytes_def disk_state_def)
  from mem.restart_synced[OF this, of now] obtain d rec w' where np:
    "new_persistent mem_api now (from_path path) Map.empty = (Inr (d, rec), w')"
    "synced mem_view path (d, w')" "d_inner d = state_disarmed" by blast
  moreover have "rec = \<lparr>missed_while_down = False\<rparr>"
    using new_persistent_recovery[OF np(1)] np(3)
    by (simp add: evaluate_recovery_def to_persisted_def state_disarmed_def is_armed_def)
  ultimately show ?thesis by blast
qed

lemma transition_reopen:
  assumes "synced mem_view path (d, w)" "sound_storable desired"
    and "transition_to mem_api False desired (d, w) = (t, d1, w1)"
  shows "\<exists>p d2 w2. d_persistence d1 = Some p \<and> d_inner d1 = desired \<and> d_inner d2 = desired
    \<and> new_persistent mem_api now p w1 = (Inr (d2, evaluate_recovery now (to_persisted desired)), w2)"
proof -
  have sy: "synced mem_view path (d1, w1)" using mem.transition_synced[OF assms] .
  have d1: "d_inner d1 = desired" using transition_to_inner[OF assms(3)] by simp
  obtain p where p: "d_persistence d1 = Some p" "handle_ok mem_view p" "p_path p = path"
    using sy by (auto simp: synced_def attached_def split: option.splits)
  have "disk_state (stored mem_view (p_path p) w1) = Some desired" using sy d1 p(3) by (simp add: synced_def)
  from mem.reopen_synced[OF p(2) this, of now] obtain d2 rec w2 where
    np: "new_persistent mem_api now p w1 = (Inr (d2, rec), w2)" "d_inner d2 = desired" by blast
  from new_persistent_recovery[OF np(1)] np(2) have "rec = evaluate_recovery now (to_persisted desired)" by simp
  with np p(1) d1 show ?thesis by blast
qed

lemma test_recovery_flag:
  assumes "0 \<le> now" "now div 1000000 \<le> i64_max" shows "test_recovery_flag now"
proof -
  let ?past = "unix_now_ms now - 1000" and ?path = "''/t/state.redb''"
  let ?st = "state_armed None (Some ?past)"
  obtain d w1 where 1: "new_persistent mem_api now (from_path ?path) Map.empty =
      (Inr (d, \<lparr>missed_while_down = False\<rparr>), w1)" "synced mem_view ?path (d, w1)"
    using fresh_start by blast
  obtain t d1 w2 where 2: "transition_to mem_api False ?st (d, w1) = (t, d1, w2)" by (metis prod_cases3)
  have "sound_storable ?st" by (simp add: sound_storable_def storable_def to_persisted_def state_armed_def)
  from transition_reopen[OF 1(2) this 2, of now] obtain p d2 w3 where 3: "d_persistence d1 = Some p" "d_inner d1 = ?st"
    "new_persistent mem_api now p w2 = (Inr (d2, evaluate_recovery now (to_persisted ?st)), w3)" by blast
  have ms: "0 \<le> now div 1000000" using assms(1) by (simp add: pos_imp_zdiv_nonneg_iff)
  have "?past = word_of_int (now div 1000000 - 1000)" using assms(1) by (simp add: unix_now_ms_def)
  then have "sint ?past = now div 1000000 - 1000"
    using sint_word_of_int_i64[of "now div 1000000 - 1000"] ms assms(2) by (simp add: i64_min_def)
  then have "missed_while_down (evaluate_recovery now (to_persisted ?st))"
    using sint_unix_now_ms[OF assms]
    by (simp add: evaluate_recovery_def to_persisted_def state_armed_def is_armed_def i64_le_def)
  then show ?thesis
    using 1(1) 2 3 by (simp add: test_recovery_flag_def arm_with_next_fire_def daemon_current_sound_def state_armed_def)
qed

lemma test_current_sound: "test_current_sound now"
proof -
  let ?path = "''/t/sound.redb''" and ?s = "''builtin:collision''"
  let ?st = "state_armed (Some ?s) (Some 1700000000000)"
  obtain d r w1 where 1: "new_persistent mem_api now (from_path ?path) Map.empty = (Inr (d, r), w1)"
    "synced mem_view ?path (d, w1)"
    using fresh_start by blast
  obtain t d1 w2 where 2: "transition_to mem_api False ?st (d, w1) = (t, d1, w2)" by (metis prod_cases3)
  have "sound_storable ?st" by (simp add: sound_storable_armed rust_str_def)
  from transition_reopen[OF 1(2) this 2, of now] obtain p d2 r2 w3 where 3: "d_persistence d1 = Some p" "d_inner d1 = ?st"
    "d_inner d2 = ?st" "new_persistent mem_api now p w2 = (Inr (d2, r2), w3)" by blast
  obtain t3 d3 w4 where 4: "transition_to mem_api False state_disarmed (d2, w3) = (t3, d3, w4)" by (metis prod_cases3)
  have "d_inner d3 = state_disarmed" using transition_to_inner[OF 4] by simp
  then show ?thesis
    using 1(1) 2 3 4
    by (simp add: test_current_sound_def arm_with_sound_def daemon_disarm_def daemon_current_sound_def
        state_armed_def state_disarmed_def)
qed

section \<open>\<open>daemon/persistence/mod.rs\<close>\<close>

definition save_then_load :: "path \<Rightarrow> persisted_state \<Rightarrow> (persistence_error + persisted_state) option" where
  "save_then_load path st =
     (case save mem_api (from_path path) st Map.empty of
        (Inl _, _, _) \<Rightarrow> None
      | (Inr _, p, w) \<Rightarrow> (case load mem_api p w of (r, _, _) \<Rightarrow> Some r))"

definition test_round_trip_state :: bool where
  "test_round_trip_state \<longleftrightarrow>
     (case save_then_load ''/t/a.redb''
         \<lparr>ps_armed = True, ps_next_fire_unix_ms = Some 1700000000000, ps_current_sound = Some ''builtin:collision''\<rparr> of
        Some (Inr loaded) \<Rightarrow>
          ps_armed loaded \<and> ps_next_fire_unix_ms loaded = Some 1700000000000 \<and>
          ps_current_sound loaded = Some ''builtin:collision''
      | _ \<Rightarrow> False)"

definition test_round_trip_default_state :: bool where
  "test_round_trip_default_state \<longleftrightarrow>
     (case save_then_load ''/t/b.redb'' default_persisted of
        Some (Inr loaded) \<Rightarrow>
          \<not> ps_armed loaded \<and> ps_next_fire_unix_ms loaded = None \<and> ps_current_sound loaded = None
      | _ \<Rightarrow> False)"

definition test_magic_and_version :: bool where
  "test_magic_and_version \<longleftrightarrow>
     (let out = SCHEMA_MAGIC @ [SCHEMA_VERSION] in take (length out) (encode_state default_persisted) = out)"

definition test_legacy_payload :: bool where
  "test_legacy_payload \<longleftrightarrow>
     (case decode_state [1, 0, 0] of
        Inr st \<Rightarrow> ps_armed st \<and> ps_next_fire_unix_ms st = None \<and> ps_current_sound st = None
      | Inl _ \<Rightarrow> False)"

definition test_unknown_version :: bool where
  "test_unknown_version \<longleftrightarrow>
     (case decode_state (SCHEMA_MAGIC @ [99] @ [0]) of Inl _ \<Rightarrow> True | Inr _ \<Rightarrow> False)"

definition test_truncated_body :: bool where
  "test_truncated_body \<longleftrightarrow>
     (case decode_state (SCHEMA_MAGIC @ [SCHEMA_VERSION] @ [1] @ [1] @ [0, 0, 0]) of Inl _ \<Rightarrow> True | Inr _ \<Rightarrow> False)"

lemma save_then_load: "storable st \<Longrightarrow> save_then_load path st = Some (Inr st)"
proof -
  assume st: "storable st"
  have ok: "handle_ok mem_view (from_path path)" by (simp add: handle_ok_def from_path_def)
  obtain p1 w1 where sv: "save mem_api (from_path path) st Map.empty = (Inr (), p1, w1)"
    "\<And>q. handle_ok mem_view q \<Longrightarrow> p_path q = path \<Longrightarrow> fst (load mem_api q w1) = Inr st"
    using save_load_reliable[OF mem.redb_reliable_axioms ok st, of Map.empty] by (auto simp: from_path_def)
  from mem.store_sv_keeps[OF ok sv(1)] sv(2)[of p1] have "fst (load mem_api p1 w1) = Inr st"
    by (simp add: from_path_def)
  with sv(1) show ?thesis by (cases "load mem_api p1 w1") (simp add: save_then_load_def)
qed

lemma persistence_unit_tests:
  "test_round_trip_state" "test_round_trip_default_state" "test_magic_and_version" "test_legacy_payload"
  "test_unknown_version" "test_truncated_body"
proof -
  show "test_round_trip_state" "test_round_trip_default_state"
    by (simp_all add: test_round_trip_state_def test_round_trip_default_state_def save_then_load storable_def
        default_persisted_def rust_str_def)
  show "test_magic_and_version"
    by (simp add: test_magic_and_version_def codec_simps)
  show "test_legacy_payload"
    by (simp add: test_legacy_payload_def codec_simps decode_sound_def nth_get_def)
  show "test_unknown_version" "test_truncated_body"
    by (simp_all add: test_unknown_version_def test_truncated_body_def codec_simps nth_get_def
        usize_checked_add_def slice_get_def)
qed

section \<open>\<open>config.rs\<close>, \<open>logging.rs\<close>, \<open>systemd.rs\<close>\<close>

definition test_bus_parse :: bool where
  "test_bus_parse \<longleftrightarrow>
     bus_parse None = Inr Session \<and> bus_parse (Some []) = Inr Session \<and>
     bus_parse (Some ''session'') = Inr Session \<and> bus_parse (Some ''system'') = Inr System"

definition test_rejects_unknown_bus :: bool where
  "test_rejects_unknown_bus \<longleftrightarrow> (case bus_parse (Some ''tcp'') of Inl (AeConfig (BadBus v)) \<Rightarrow> v = ''tcp'' | _ \<Rightarrow> False)"

definition test_bus_as_str :: bool where
  "test_bus_as_str \<longleftrightarrow> bus_as_str Session = ''session'' \<and> bus_as_str System = ''system''"

definition test_default_db_paths :: bool where
  "test_default_db_paths \<longleftrightarrow>
     default_db_path_with_home System ''/anything'' = ''/var/lib/helm/alarm-daemon.redb'' \<and>
     default_db_path_with_home Session ''/tmp/some-fake-home'' =
       ''/tmp/some-fake-home/.local/state/helm/alarm-daemon.redb''"

definition test_log_as_str :: bool where
  "test_log_as_str \<longleftrightarrow> log_as_str Journald = ''journald'' \<and> log_as_str Stderr = ''stderr''"

definition test_ping_period :: bool where
  "test_ping_period \<longleftrightarrow>
     ping_period_for (dur_from_secs 10) = dur_from_secs 5 \<and>
     ping_period_for (dur_from_millis 200) = dur_from_millis 100"

definition test_ping_period_clamped :: bool where
  "test_ping_period_clamped \<longleftrightarrow>
     ping_period_for (dur_from_millis 1) = dur_from_millis 1 \<and> ping_period_for 0 = dur_from_millis 1"

definition test_u64_ms :: bool where
  "test_u64_ms \<longleftrightarrow>
     u64_ms (dur_from_millis 0) = 0 \<and> u64_ms (dur_from_millis 123) = 123 \<and> u64_ms (dur_from_secs 60) = 60000"

definition test_watchdog_disabled :: bool where
  "test_watchdog_disabled \<longleftrightarrow> spawn_watchdog None = None"

lemma startup_unit_tests:
  "test_bus_parse" "test_rejects_unknown_bus" "test_bus_as_str" "test_default_db_paths" "test_log_as_str"
  "test_ping_period" "test_ping_period_clamped" "test_u64_ms" "test_watchdog_disabled"
  by (simp_all add: test_bus_parse_def test_rejects_unknown_bus_def test_bus_as_str_def test_default_db_paths_def
      test_log_as_str_def test_ping_period_def test_ping_period_clamped_def test_u64_ms_def test_watchdog_disabled_def
      bus_parse_def bus_as_str_def default_db_path_with_home_def log_as_str_def ping_period_for_def u64_ms_def
      dur_from_secs_def dur_from_millis_def dur_as_millis_def spawn_watchdog_def)

section \<open>\<open>audio/profile.rs\<close>, \<open>audio/fake.rs\<close>\<close>

text \<open>The decimal literals of the tests as the binary32 values they denote.\<close>

definition lit_0_8 :: rat where "lit_0_8 = 13421773 / 2 ^ 24"
definition lit_0_7 :: rat where "lit_0_7 = 11744051 / 2 ^ 24"
definition lit_0_1 :: rat where "lit_0_1 = 13421773 / 2 ^ 27"
definition lit_1_1 :: rat where "lit_1_1 = 9227469 / 2 ^ 23"

definition test_immediate_gain :: bool where
  "test_immediate_gain \<longleftrightarrow>
     gain_at Immediate (FFin lit_0_8) 0 = FFin lit_0_8 \<and>
     gain_at Immediate (FFin lit_0_8) (dur_from_secs 60) = FFin lit_0_8"

definition test_linear_gain_start :: bool where
  "test_linear_gain_start \<longleftrightarrow>
     (case ramp_linear (dur_from_secs 4) of Inl _ \<Rightarrow> False | Inr r \<Rightarrow> gain_at r (FFin 1) 0 = FFin 0)"

definition test_linear_gain_midpoint :: bool where
  "test_linear_gain_midpoint \<longleftrightarrow>
     (case ramp_linear (dur_from_secs 4) of
        Inl _ \<Rightarrow> False
      | Inr r \<Rightarrow> (case gain_at r (FFin 1) (dur_from_secs 2) of FFin g \<Rightarrow> \<bar>g - 1 / 2\<bar> < 1 / 100000 | _ \<Rightarrow> False))"

definition test_linear_gain_saturates :: bool where
  "test_linear_gain_saturates \<longleftrightarrow>
     (case ramp_linear (dur_from_secs 4) of
        Inl _ \<Rightarrow> False
      | Inr r \<Rightarrow> gain_at r (FFin lit_0_7) (dur_from_secs 4) = FFin lit_0_7 \<and>
                 gain_at r (FFin lit_0_7) (dur_from_secs 60) = FFin lit_0_7)"

definition is_ok :: "'e + 'a \<Rightarrow> bool" where
  "is_ok r = (case r of Inr _ \<Rightarrow> True | Inl _ \<Rightarrow> False)"

definition test_ramp_limits :: bool where
  "test_ramp_limits \<longleftrightarrow>
     \<not> is_ok (ramp_linear (dur_from_millis 1999)) \<and> \<not> is_ok (ramp_linear (dur_from_millis 10001)) \<and>
     is_ok (ramp_linear (dur_from_secs 2)) \<and> is_ok (ramp_linear (dur_from_secs 10))"

definition test_profile_limits :: bool where
  "test_profile_limits \<longleftrightarrow>
     \<not> is_ok (profile_new (FFin (- lit_0_1)) Immediate False) \<and>
     \<not> is_ok (profile_new (FFin lit_1_1) Immediate False) \<and>
     \<not> is_ok (profile_new FNaN Immediate False) \<and>
     is_ok (profile_new (FFin 0) Immediate False) \<and> is_ok (profile_new (FFin 1) Immediate False)"

text \<open>A decoded test file; no value where the test would panic.\<close>

definition unwrap_sound :: "(audio_error + decoded_sound) option \<Rightarrow> decoded_sound option" where
  "unwrap_sound r = (case r of Some (Inr s) \<Rightarrow> Some s | _ \<Rightarrow> None)"

fun with_sound :: "decoded_sound option \<Rightarrow> (decoded_sound \<Rightarrow> bool) \<Rightarrow> bool" where
  "with_sound None P = False"
| "with_sound (Some s) P = P s"

definition tiny_sound :: "(bytes, 'f, 'd, 'p) symphonia_api \<Rightarrow> decoded_sound option" where
  "tiny_sound sy = unwrap_sound (from_bytes_decode sy tiny_wav (Some ''wav''))"

definition test_records_play_and_stop :: "(bytes, 'f, 'd, 'p) symphonia_api \<Rightarrow> bool" where
  "test_records_play_and_stop sy = with_sound (tiny_sound sy) (\<lambda>sound.
     (case bind_r (ramp_linear (dur_from_secs 3)) (\<lambda>r. profile_new (FFin lit_0_8) r True) of
        Inl _ \<Rightarrow> False
      | Inr profile \<Rightarrow>
          (let (r1, f1) = ao_play fake_ops sound profile [];
               (r2, events) = ao_stop fake_ops f1
           in is_ok r1 \<and> is_ok r2 \<and> length events = 2 \<and>
              (case events ! 0 of FakePlay fr ch sr _ \<Rightarrow> fr = 1 \<and> ch = 1 \<and> sr = 8000 | FakeStop \<Rightarrow> False) \<and>
              events ! 1 = FakeStop)))"

lemma lit_val: "f32_val lit_0_7" "0 \<le> lit_0_7" "lit_0_7 \<le> 1" "0 \<le> lit_0_8" "lit_0_8 \<le> 1"
proof -
  have e: "2 powi (-24) = (1 :: rat) / 2 ^ 24"
    by (simp add: power_int_def power_one_over)
  have "lit_0_7 = of_int 11744051 * 2 powi (-24)"
    unfolding e lit_0_7_def by (simp only: of_int_numeral times_divide_eq_right mult_1_right)
  moreover have "\<bar>11744051 :: int\<bar> < 2 ^ 24" "(-149 :: int) \<le> -24" by simp_all
  ultimately have "representable 24 (-149) lit_0_7" unfolding representable_def by blast
  moreover have "\<bar>lit_0_7\<bar> < 2 powi 128"
  proof -
    have "\<bar>lit_0_7\<bar> < 2 powi 0" by (simp add: lit_0_7_def)
    moreover have "(2::rat) powi 0 \<le> 2 powi 128" by (rule powi_mono2) simp
    ultimately show ?thesis by (rule order_less_le_trans)
  qed
  ultimately show "f32_val lit_0_7" unfolding f32_val_def by (rule conjI)
  show "0 \<le> lit_0_7" "lit_0_7 \<le> 1" "0 \<le> lit_0_8" "lit_0_8 \<le> 1" unfolding lit_0_7_def lit_0_8_def by simp_all
qed

lemma as_secs_whole: "n < 2 ^ 24 \<Longrightarrow> as_secs_f32 (dur_from_secs n) = FFin (of_nat n)"
  using f32_round_val[OF f32_val_small[of n]] f32_round_val[OF f32_val_0]
  unfolding as_secs_f32_def f32_of_nat_1e9 by (simp add: f32_of_nat_def dur_from_secs_def)

lemma half_val: "f32_val (1 / 2)"
proof -
  have "representable 24 (-149) (1 / 2)"
    unfolding representable_def by (intro exI[of _ 1] exI[of _ "-1"]) (simp add: power_int_def)
  moreover have "(1 / 2 :: rat) < 2 powi 128" using powi_mono2[of 0 128] by simp
  ultimately show ?thesis by (simp add: f32_val_def)
qed

lemma linear_4: "ramp_linear (dur_from_secs 4) = Inr (Linear (dur_from_secs 4))"
  by (simp add: ramp_linear_def MIN_RAMP_def MAX_RAMP_def dur_from_secs_def)

lemma clamp_fin: "0 \<le> x \<Longrightarrow> x \<le> 1 \<Longrightarrow> fl_clamp (FFin x) (FFin 0) (FFin 1) = FFin x"
  by (simp add: unit_range_def)

lemma clamp_one: "1 \<le> x \<Longrightarrow> fl_clamp (FFin x) (FFin 0) (FFin 1) = FFin 1"
  by (auto simp: fl_clamp_def fl_lt_def)

lemma profile_unit_tests:
  "test_immediate_gain" "test_linear_gain_start" "test_linear_gain_midpoint" "test_linear_gain_saturates"
  "test_ramp_limits" "test_profile_limits"
proof -
  note s = as_secs_whole[of 4, simplified] as_secs_whole[of 2, simplified] as_secs_whole[of 60, simplified]
  have one: "f32_round 1 = FFin 1" using f32_round_val[OF f32_val_small[of 1]] by simp
  have half: "f32_round (1 / 2) = FFin (1 / 2)" using f32_round_val[OF half_val] .
  have zero: "f32_round 0 = FFin 0" using f32_round_val[OF f32_val_0] .
  have fifteen: "f32_round 15 = FFin 15" using f32_round_val[OF f32_val_small[of 15]] by simp
  have l7: "f32_round lit_0_7 = FFin lit_0_7" using f32_round_val[OF lit_val(1)] .
  show "test_immediate_gain" by (simp add: test_immediate_gain_def gain_at_def clamp_fin lit_val)
  show "test_linear_gain_start"
    by (simp add: test_linear_gain_start_def linear_4 gain_at_def clamp_fin s as_secs_f32_0 zero Let_def)
  show "test_linear_gain_midpoint"
    by (simp add: test_linear_gain_midpoint_def linear_4 gain_at_def clamp_fin s half Let_def)
  show "test_linear_gain_saturates"
    by (simp add: test_linear_gain_saturates_def linear_4 gain_at_def clamp_fin clamp_one lit_val s one fifteen l7 Let_def)
  show "test_ramp_limits"
    by (simp add: test_ramp_limits_def is_ok_def ramp_linear_def MIN_RAMP_def MAX_RAMP_def dur_from_secs_def
        dur_from_millis_def)
  show "test_profile_limits"
    by (simp add: test_profile_limits_def is_ok_def profile_new_def is_finite_def lit_0_1_def lit_1_1_def)
qed

lemma fake_unit_test:
  assumes "wav_decoder sy" shows "test_records_play_and_stop sy"
proof -
  have "tiny_sound sy = Some \<lparr>ds_samples = map i16_f32 [0], ds_channels = 1, ds_sample_rate = 8000\<rparr>"
    using wav_decoder.from_bytes_pcm[OF assms, of 1 8000 "[0]"]
    by (simp add: tiny_sound_def small_pcm unwrap_sound_def)
  then obtain s where s: "tiny_sound sy = Some s" "ds_frames s = 1" "ds_channels s = 1" "ds_sample_rate s = 8000"
    by (simp add: ds_frames_def)
  have "profile_new (FFin lit_0_8) r True = Inr \<lparr>vp_target = FFin lit_0_8, vp_ramp = r, vp_repeat = True\<rparr>" for r
    by (simp add: profile_new_iff unit_range_def lit_val)
  then show ?thesis
    using s
    by (simp add: test_records_play_and_stop_def ramp_linear_def MIN_RAMP_def MAX_RAMP_def dur_from_secs_def
        fake_ops_def fake_push_def fake_play_event_def is_ok_def)
qed

end
