(* ===== verification/Conformance_Audio.thy ===== *)
theory Conformance_Audio
  imports Conformance Ramps
begin

text \<open>
  The unit tests of \<open>audio/sounds.rs\<close>, of \<open>audio/decoded.rs\<close> and of the sample callback in
  \<open>audio/cpal_audio.rs\<close> as boolean definitions, proved of the model for every decoder that reads the
  WAV files they build (the locale \<open>wav_decoder\<close>).
\<close>

section \<open>\<open>audio/sounds.rs\<close>\<close>

text \<open>The directories of a test, and a file dropped into one of them.\<close>

definition test_dirs :: tree where
  "test_dirs =
     snd (fa_create_dir_all mem_fs ''/custom'' (snd (fa_create_dir_all mem_fs ''/builtin'' (Dir []))))"

definition put_raw :: "path \<Rightarrow> string \<Rightarrow> bytes \<Rightarrow> tree \<Rightarrow> tree" where
  "put_raw d n b w = snd (fa_write mem_fs (path_join d n) b w)"

definition test_lib :: sound_library where
  "test_lib = library_new ''/builtin'' ''/custom''"

definition lists_id :: "string \<Rightarrow> tree \<Rightarrow> bool" where
  "lists_id sid w \<longleftrightarrow> (case list_sounds (fa_view mem_fs w) test_lib of
     Inr out \<Rightarrow> list_ex (\<lambda>s. ss_id s = sid) out | Inl _ \<Rightarrow> False)"

definition test_register_round_trip :: "(bytes, 'f, 'd, 'p) symphonia_api \<Rightarrow> int \<Rightarrow> bool" where
  "test_register_round_trip sy now \<longleftrightarrow>
     (let w0 = put_raw ''/builtin'' ''collision.wav'' synth_wav test_dirs in
      case register_sound mem_fs sy test_lib now ''watch alarm'' synth_wav w0 of
        Some (Inr sid, w1) \<Rightarrow>
          take 18 sid = ''custom:watchalarm-'' \<and> lists_id ''builtin:collision'' w1 \<and> lists_id sid w1 \<and>
          (case resolve_path (fa_view mem_fs w1) test_lib sid of
             Inr p \<Rightarrow> path_exists (fa_view mem_fs w1) p | Inl _ \<Rightarrow> False) \<and>
          (case load_decoded mem_fs sy test_lib sid w1 of
             Some (Inr s) \<Rightarrow> 0 < ds_frames s | _ \<Rightarrow> False) \<and>
          (case unregister_sound mem_fs test_lib sid w1 of
             (Inr _, w2) \<Rightarrow> \<not> is_ok (resolve_path (fa_view mem_fs w2) test_lib sid)
           | (Inl _, _) \<Rightarrow> False)
      | _ \<Rightarrow> False)"

definition test_rejects_unsupported :: "(bytes, 'f, 'd, 'p) symphonia_api \<Rightarrow> int \<Rightarrow> bool" where
  "test_rejects_unsupported sy now \<longleftrightarrow>
     (case register_sound mem_fs sy (library_new ''/nonexistent/a'' ''/nonexistent/b'') now ''bad''
         (as_bytes ''not-a-wave'') (Dir []) of
        Some (Inl UnsupportedFormat, _) \<Rightarrow> True | _ \<Rightarrow> False)"

definition test_unregister_all_variants :: bool where
  "test_unregister_all_variants \<longleftrightarrow>
     (let w0 = put_raw ''/custom'' ''dup.flac'' (as_bytes ''placeholder'')
                 (put_raw ''/custom'' ''dup.wav'' synth_wav test_dirs) in
      case unregister_sound mem_fs test_lib ''custom:dup'' w0 of
        (Inr _, w1) \<Rightarrow>
          \<not> path_exists (fa_view mem_fs w1) (path_join ''/custom'' ''dup.wav'') \<and>
          \<not> path_exists (fa_view mem_fs w1) (path_join ''/custom'' ''dup.flac'')
      | (Inl _, _) \<Rightarrow> False)"

lemma synth_wav_format: "sniff_format synth_wav = Inr Wav" "length synth_wav = 300"
proof -
  have h: "length (wav_header 292 8000 1 256) = 44" "take 4 (wav_header 292 8000 1 256) = as_bytes ''RIFF''"
    "take 4 (drop 8 (wav_header 292 8000 1 256)) = as_bytes ''WAVE''"
    by (rule wav_header_parts; simp)+
  have w: "synth_wav = wav_header 292 8000 1 256 @ concat (replicate 128 (i16_le (32767 div 4)))"
    by (simp add: synth_wav_def)
  show l: "length synth_wav = 300"
    unfolding w length_append h(1) by (simp add: length_concat sum_list_replicate i16_le_def)
  have "take 4 synth_wav = as_bytes ''RIFF''" "take 4 (drop 8 synth_wav) = as_bytes ''WAVE''"
    using h unfolding w by simp_all
  with l show "sniff_format synth_wav = Inr Wav" by (simp add: sniff_format_def)
qed

lemma test_paths:
  "components ''/builtin'' = [''builtin'']" "components ''/custom'' = [''custom'']"
  "path_join ''/builtin'' ''collision.wav'' = ''/builtin/collision.wav''"
  "components ''/builtin/collision.wav'' = [''builtin'', ''collision.wav'']"
  "path_join ''/custom'' ''dup.wav'' = ''/custom/dup.wav''" "path_join ''/custom'' ''dup.flac'' = ''/custom/dup.flac''"
  "components ''/custom/dup.wav'' = [''custom'', ''dup.wav'']" "components ''/custom/dup.flac'' = [''custom'', ''dup.flac'']"
  by code_simp+

lemma custom_paths:
  "make_custom_id 31 ''watch alarm'' = ''watchalarm-1f''"
  "path_join ''/custom'' ''watchalarm-1f.wav'' = ''/custom/watchalarm-1f.wav''"
  "path_join ''/custom'' ''watchalarm-1f.flac'' = ''/custom/watchalarm-1f.flac''"
  "path_with_extension ''/custom/watchalarm-1f.wav'' ''wav.tmp'' = ''/custom/watchalarm-1f.wav.tmp''"
  "components ''/custom/watchalarm-1f.wav'' = [''custom'', ''watchalarm-1f.wav'']"
  "components ''/custom/watchalarm-1f.flac'' = [''custom'', ''watchalarm-1f.flac'']"
  "components ''/custom/watchalarm-1f.wav.tmp'' = [''custom'', ''watchalarm-1f.wav.tmp'']"
  "format_from_path ''/custom/watchalarm-1f.wav'' = Some Wav" "format_from_path ''/builtin/collision.wav'' = Some Wav"
  "Option.bind (file_stem ''/custom/watchalarm-1f.wav'') os_to_str = Some ''watchalarm-1f''"
  "Option.bind (file_stem ''/builtin/collision.wav'') os_to_str = Some ''collision''"
  "extension ''/custom/watchalarm-1f.wav'' = Some ''wav''"
  by code_simp+

lemmas tree_simps = on_tree_def at_parent_def put_file_def drop_file_def path_exists_def Let_def

lemma test_tree:
  "test_dirs = Dir [(''builtin'', Dir []), (''custom'', Dir [])]"
  "put_raw ''/builtin'' ''collision.wav'' b test_dirs =
    Dir [(''builtin'', Dir [(''collision.wav'', File b)]), (''custom'', Dir [])]"
  "put_raw ''/custom'' ''dup.flac'' c (put_raw ''/custom'' ''dup.wav'' b test_dirs) =
    Dir [(''builtin'', Dir []), (''custom'', Dir [(''dup.wav'', File b), (''dup.flac'', File c)])]"
  by (simp_all add: test_dirs_def put_raw_def test_paths tree_simps)

lemma registered_tree:
  assumes "from_bytes_decode sy synth_wav (Some ''wav'') = Some (Inr s)"
  shows "register_sound mem_fs sy test_lib 31 ''watch alarm'' synth_wav
      (Dir [(''builtin'', Dir [(''collision.wav'', File synth_wav)]), (''custom'', Dir [])]) =
    Some (Inr ''custom:watchalarm-1f'',
      Dir [(''builtin'', Dir [(''collision.wav'', File synth_wav)]), (''custom'', Dir [(''watchalarm-1f.wav'', File synth_wav)])])"
  using assms
  by (simp add: register_sound_def MAX_CUSTOM_SOUND_BYTES_def synth_wav_format format_ext_def test_lib_def
      library_new_def custom_paths test_paths tree_simps)

lemma sounds_unit_tests:
  assumes "wav_decoder sy"
  shows "test_register_round_trip sy 31" "test_rejects_unsupported sy now" "test_unregister_all_variants"
proof -
  let ?w = "Dir [(''builtin'', Dir [(''collision.wav'', File synth_wav)]), (''custom'', Dir [(''watchalarm-1f.wav'', File synth_wav)])]"
  let ?s = "\<lparr>ds_samples = map i16_f32 (replicate 128 8191), ds_channels = 1, ds_sample_rate = 8000\<rparr>"
  have dec: "from_bytes_decode sy synth_wav (Some ''wav'') = Some (Inr ?s)"
    unfolding small_pcm(2) by (rule wav_decoder.from_bytes_pcm[OF assms]) simp_all
  obtain s where s: "from_bytes_decode sy synth_wav (Some ''wav'') = Some (Inr s)" "0 < ds_frames s"
    using dec by (simp add: ds_frames_def)
  have res: "resolve_path (fa_view mem_fs ?w) test_lib ''custom:watchalarm-1f'' = Inr ''/custom/watchalarm-1f.wav''"
    by (simp add: resolve_path_def resolve_in_def test_lib_def library_new_def custom_paths tree_simps)
  have load: "load_decoded mem_fs sy test_lib ''custom:watchalarm-1f'' ?w = Some (Inr s)"
    using s(1) by (simp add: load_decoded_def res from_path_decode_def from_bytes_decode_def custom_paths rust_str_def)
  have "list_sounds (fa_view mem_fs ?w) test_lib =
      Inr [summary Builtin ''collision'' 300, summary Custom ''watchalarm-1f'' 300]"
    by (simp add: list_sounds_def collect_def test_lib_def library_new_def test_paths custom_paths entry_name_def
        synth_wav_format bind_r_def summary_def sound_id_def source_prefix_def less_char_def Let_def)
  then have ls: "lists_id ''builtin:collision'' ?w" "lists_id ''custom:watchalarm-1f'' ?w"
    by (simp_all add: lists_id_def summary_def sound_id_def source_prefix_def)
  obtain w2 where un: "unregister_sound mem_fs test_lib ''custom:watchalarm-1f'' ?w = (Inr (), w2)"
    "\<not> is_ok (resolve_path (fa_view mem_fs w2) test_lib ''custom:watchalarm-1f'')"
    by (simp add: unregister_sound_def resolve_path_def resolve_in_def test_lib_def library_new_def custom_paths
        tree_simps is_ok_def)
  show "test_register_round_trip sy 31"
    unfolding test_register_round_trip_def test_tree(2) Let_def registered_tree[OF s(1)]
    using ls res load un s(2) by (simp add: path_exists_def custom_paths)
  have "sniff_format (as_bytes ''not-a-wave'') = Inl UnsupportedFormat"
    by (simp add: sniff_format_def as_bytes_def)
  then show "test_rejects_unsupported sy now"
    by (simp add: test_rejects_unsupported_def register_sound_def MAX_CUSTOM_SOUND_BYTES_def)
  show "test_unregister_all_variants"
    unfolding test_unregister_all_variants_def test_tree(3) Let_def
    by (simp add: unregister_sound_def test_lib_def library_new_def test_paths tree_simps)
qed

section \<open>\<open>audio/decoded.rs\<close>\<close>

text \<open>The sine of the tests only enters as a sequence of samples.\<close>

definition test_decodes_mono :: "(bytes, 'f, 'd, 'p) symphonia_api \<Rightarrow> (nat \<Rightarrow> i16) \<Rightarrow> bool" where
  "test_decodes_mono sy tone =
     with_sound (unwrap_sound (from_bytes_decode sy (synth_tone_wav 44100 1 4410 tone) (Some ''wav''))) (\<lambda>sound.
       ds_channels sound = 1 \<and> ds_sample_rate sound = 44100 \<and> ds_frames sound = 4410 \<and>
       length (ds_samples sound) = 4410)"

definition test_decodes_stereo :: "(bytes, 'f, 'd, 'p) symphonia_api \<Rightarrow> (nat \<Rightarrow> i16) \<Rightarrow> bool" where
  "test_decodes_stereo sy tone =
     with_sound (unwrap_sound (from_bytes_decode sy (synth_tone_wav 48000 2 480 tone) (Some ''wav''))) (\<lambda>sound.
       ds_channels sound = 2 \<and> ds_sample_rate sound = 48000 \<and> ds_frames sound = 480 \<and>
       length (ds_samples sound) = 960)"

definition test_rejects_garbage :: "(bytes, 'f, 'd, 'p) symphonia_api \<Rightarrow> bool" where
  "test_rejects_garbage sy =
     (case from_bytes_decode sy (as_bytes ''not audio'') (Some ''wav'') of Some (Inl _) \<Rightarrow> True | _ \<Rightarrow> False)"

lemma decode_tone:
  assumes "wav_decoder sy" "ch \<in> {1, 2}" "0 < sr" "sr < 2 ^ 20" "0 < n" "n < 2 ^ 22"
  shows "\<exists>s. from_bytes_decode sy (synth_tone_wav sr ch n tone) (Some ''wav'') = Some (Inr s) \<and>
    ds_channels s = ch \<and> ds_sample_rate s = sr \<and> ds_frames s = n \<and> length (ds_samples s) = n * ch"
proof -
  let ?pcm = "concat (map (\<lambda>i. replicate ch (tone i)) [0..<n])"
  have len: "length ?pcm = n * ch" by (simp add: length_concat o_def sum_list_triv)
  have ch: "0 < ch" "ch \<le> 2" using assms(2) by auto
  have "n * ch \<le> n * 2" using ch(2) by simp
  also have "\<dots> < 2 ^ 24" using assms(6) by simp
  finally have small: "n * ch < 2 ^ 24" .
  then have "n * ch < 16777216" by simp
  then have "n * ch * 2 + 36 < 4294967296" by linarith
  then have "n * ch * 2 + 36 < 2 ^ 32" by simp
  then have "synth_tone_wav sr ch n tone = pcm_wav sr ch ?pcm" by (rule synth_tone_pcm)
  moreover have "?pcm \<noteq> []" using len ch(1) assms(5) by (metis length_0_conv mult_is_0 neq0_conv)
  moreover have "length ?pcm mod ch = 0" "length ?pcm < 2 ^ 24" unfolding len using small by simp_all
  ultimately have "from_bytes_decode sy (synth_tone_wav sr ch n tone) (Some ''wav'') =
      Some (Inr \<lparr>ds_samples = map i16_f32 ?pcm, ds_channels = ch, ds_sample_rate = sr\<rparr>)"
    using wav_decoder.from_bytes_pcm[OF assms(1-4)] by simp
  moreover have "n * ch div ch = n" using ch(1) by simp
  ultimately show ?thesis using len by (simp add: ds_frames_def)
qed

lemma decoded_unit_tests:
  assumes "wav_decoder sy"
  shows "test_decodes_mono sy tone" "test_decodes_stereo sy tone" "test_rejects_garbage sy"
proof -
  show "test_decodes_mono sy tone"
    using decode_tone[OF assms, of 1 44100 4410 tone] by (auto simp: test_decodes_mono_def unwrap_sound_def)
  show "test_decodes_stereo sy tone"
    using decode_tone[OF assms, of 2 48000 480 tone] by (auto simp: test_decodes_stereo_def unwrap_sound_def)
  show "test_rejects_garbage sy"
    using wav_decoder.from_bytes_short[OF assms, of "as_bytes ''not audio''" "Some ''wav''"]
    by (auto simp: test_rejects_garbage_def)
qed

section \<open>\<open>audio/cpal_audio.rs\<close>\<close>

definition silent_sound :: "(bytes, 'f, 'd, 'p) symphonia_api \<Rightarrow> nat \<Rightarrow> nat \<Rightarrow> nat \<Rightarrow> decoded_sound option" where
  "silent_sound sy channels sample_rate frames =
     unwrap_sound (from_bytes_decode sy (silent_wav channels sample_rate frames) (Some ''wav''))"

text \<open>The sounds of the tests: finite, at 48 kHz, mono.\<close>

definition mono_48k :: "nat \<Rightarrow> decoded_sound \<Rightarrow> bool" where
  "mono_48k frames s \<longleftrightarrow> source_ok s \<and> ds_sample_rate s = 48000 \<and> ds_channels s = 1 \<and> ds_frames s = frames"

definition shared_with_playback :: "playback \<Rightarrow> shared" where
  "shared_with_playback pb = \<lparr>sh_playback = Some pb, sh_device_lost = False\<rparr>"

definition from_start :: "decoded_sound \<Rightarrow> volume_profile \<Rightarrow> playback" where
  "from_start s v = \<lparr>pb_sound = s, pb_profile = v, pb_frames_played = 0, pb_cursor_frames = FFin 0, pb_finished = False\<rparr>"

definition test_silence_when_idle :: bool where
  "test_silence_when_idle \<longleftrightarrow>
     (case fill_f32 shared_new (replicate 8 (FFin 1)) 2 48000 of
        Some (out, _) \<Rightarrow> list_all (\<lambda>s. s = FFin 0) out | None \<Rightarrow> False)"

definition test_non_repeating_clears :: "(bytes, 'f, 'd, 'p) symphonia_api \<Rightarrow> bool" where
  "test_non_repeating_clears sy = with_sound (silent_sound sy 1 48000 4) (\<lambda>sound.
     (case profile_new (FFin 1) Immediate False of
        Inl _ \<Rightarrow> False
      | Inr profile \<Rightarrow>
          (case fill_f32 (shared_with_playback (from_start sound profile)) (replicate 16 (FFin 0)) 1 48000 of
             Some (_, sh) \<Rightarrow> sh_playback sh = None | None \<Rightarrow> False)))"

definition test_repeating_wraps :: "(bytes, 'f, 'd, 'p) symphonia_api \<Rightarrow> bool" where
  "test_repeating_wraps sy = with_sound (silent_sound sy 1 48000 4) (\<lambda>sound.
     (case profile_new (FFin 1) Immediate True of
        Inl _ \<Rightarrow> False
      | Inr profile \<Rightarrow>
          (case fill_f32 (shared_with_playback (from_start sound profile)) (replicate 20 (FFin 0)) 1 48000 of
             Some (_, sh) \<Rightarrow>
               (case sh_playback sh of
                  Some pb \<Rightarrow> \<not> pb_finished pb \<and> fl_le (pb_cursor_frames pb) (FFin 4) \<and> 20 \<le> pb_frames_played pb
                | None \<Rightarrow> False)
           | None \<Rightarrow> False)))"

definition test_mono_upmix :: "(bytes, 'f, 'd, 'p) symphonia_api \<Rightarrow> bool" where
  "test_mono_upmix sy = with_sound (silent_sound sy 1 48000 8) (\<lambda>sound.
     (case profile_new (FFin 1) Immediate False of
        Inl _ \<Rightarrow> False
      | Inr profile \<Rightarrow>
          (case fill_f32 (shared_with_playback (from_start sound profile)) (replicate 8 (FFin 0)) 2 48000 of
             Some (out, _) \<Rightarrow> list_all (\<lambda>f. f ! 0 = f ! 1) (chunks 2 out) | None \<Rightarrow> False)))"

lemma f32_val_small_rat: "representable 24 (-149) x \<Longrightarrow> \<bar>x\<bar> < 1 \<Longrightarrow> f32_val x"
proof -
  have "(1 :: rat) \<le> 2 powi 128" using powi_mono2[of 0 128] by simp
  then show "representable 24 (-149) x \<Longrightarrow> \<bar>x\<bar> < 1 \<Longrightarrow> f32_val x" unfolding f32_val_def by linarith
qed

lemma silent_48k:
  assumes "wav_decoder sy" "0 < n" "n < 2 ^ 24"
  shows "\<exists>s. silent_sound sy 1 48000 n = Some s \<and> mono_48k n s \<and> ds_samples s = replicate n (FFin (16383 / 32768))"
proof -
  let ?s = "\<lparr>ds_samples = map i16_f32 (replicate n 16383), ds_channels = 1, ds_sample_rate = 48000\<rparr>"
  have "silent_wav 1 48000 n = pcm_wav 48000 1 (replicate n 16383)"
    using assms(3) silent_pcm[of n 1 48000] by simp
  moreover have "from_bytes_decode sy (pcm_wav 48000 1 (replicate n 16383)) (Some ''wav'') = Some (Inr ?s)"
    using assms(2,3) by (intro wav_decoder.from_bytes_pcm[OF assms(1)]) simp_all
  ultimately have s: "silent_sound sy 1 48000 n = Some ?s" by (simp add: silent_sound_def unwrap_sound_def)
  have v: "i16_f32 16383 = FFin (16383 / 32768)" by (simp add: i16_f32_def)
  have "representable 24 (-149) (16383 / 32768)"
    unfolding representable_def by (rule exI[of _ 16383], rule exI[of _ "-15"]) (simp add: power_int_def power_one_over)
  then have "f32_val (16383 / 32768)" by (rule f32_val_small_rat) simp
  then have "\<exists>y. FFin (16383 / 32768) = FFin y \<and> f32_val y" by blast
  then have "mono_48k n ?s"
    using assms(2,3) by (simp add: mono_48k_def source_ok_def sound_wf_def ds_frames_def v list_all_iff del: fl.inject)
  with s v show ?thesis by simp
qed

text \<open>Played frames are counted.\<close>

lemma fill_frame_played:
  assumes "fill_frame r pb f = Some (f', pb')" "\<not> pb_finished pb'"
    and "ds_frames (pb_sound pb) \<noteq> 0" "ds_channels (pb_sound pb) \<noteq> 0"
  shows "\<not> pb_finished pb \<and> pb_sound pb' = pb_sound pb \<and> pb_frames_played pb' = u64_saturating_inc (pb_frames_played pb)"
  using assms by (auto simp: fill_frame_def Let_def split: if_splits option.splits)

lemma fill_frames_played:
  "fill_frames r pb fs = Some (fs', pb') \<Longrightarrow> \<not> pb_finished pb' \<Longrightarrow> ds_frames (pb_sound pb) \<noteq> 0 \<Longrightarrow>
    ds_channels (pb_sound pb) \<noteq> 0 \<Longrightarrow> pb_frames_played pb + length fs < 2 ^ 64 \<Longrightarrow>
    pb_frames_played pb' = pb_frames_played pb + length fs"
proof (induction fs arbitrary: pb fs')
  case (Cons f fs)
  then obtain f1 pb1 fs1 where 1: "fill_frame r pb f = Some (f1, pb1)" "fill_frames r pb1 fs = Some (fs1, pb')"
    by (auto split: option.splits)
  have "\<not> pb_finished pb1"
  proof
    assume "pb_finished pb1"
    with fill_frames_done[OF this] 1(2) Cons.prems(2) show False by simp
  qed
  from fill_frame_played[OF 1(1) this Cons.prems(3,4)] Cons.IH[OF 1(2)] Cons.prems
  show ?case by (simp add: u64_saturating_inc_def)
qed simp

lemma chunks_concat: "list_all (\<lambda>f. length f = n) fss \<Longrightarrow> 0 < n \<Longrightarrow> chunks n (concat fss) = fss"
proof (induction fss)
  case (Cons f fss)
  then obtain x xs where f: "f = x # xs" by (cases f) auto
  have "take n (f @ concat fss) = f" "drop n (f @ concat fss) = concat fss" using Cons.prems by simp_all
  with Cons f show ?case by (simp del: take_Suc_Cons drop_Suc_Cons)
qed simp

lemma full_profile: "profile_new (FFin 1) Immediate False = Inr full_volume"
  by (simp add: profile_new_iff unit_range_def full_volume_def)

lemma start_playing: "playing_at s 0 (from_start s full_volume)"
  by (simp add: from_start_def playing_at_def pb_ok_def)

lemma shared_sel: "sh_playback (shared_with_playback pb) = Some pb"
  by (simp add: shared_with_playback_def)

text \<open>A full-volume playback from the start into a buffer of \<open>n\<close> frames.\<close>

lemma start_fill:
  assumes "mono_48k f s" "length out = n * dc" "0 < dc"
  shows "\<exists>sh'. fill_f32 (shared_with_playback (from_start s full_volume)) out dc 48000 =
      Some (concat (map (source_frame s dc) [0..<n]), sh') \<and> (f < n \<longrightarrow> sh_playback sh' = None)"
proof -
  have s: "source_ok s" "2 \<le> ds_sample_rate s" "ds_sample_rate s < 2 ^ 32" "ds_sample_rate s = 48000" "ds_frames s = f"
    using assms(1) by (simp_all add: mono_48k_def)
  from fill_f32_exact[OF s(1-3) shared_sel start_playing le0 assms(2,3)] show ?thesis
    unfolding s(4,5) add_0 by auto
qed

lemma silence_when_idle: "test_silence_when_idle"
proof -
  have "list_all (\<lambda>s. s = FFin 0) (map (\<lambda>_. FFin 0) xs)" for xs :: "f32 list" by (induction xs) simp_all
  then show ?thesis by (simp add: test_silence_when_idle_def fill_f32_def shared_new_def silence_def del: map_replicate)
qed

lemma non_repeating_clears: "wav_decoder sy \<Longrightarrow> test_non_repeating_clears sy"
proof -
  assume "wav_decoder sy"
  from silent_48k[OF this, of 4] obtain s where snd: "silent_sound sy 1 48000 4 = Some s" and s: "mono_48k 4 s" by auto
  have l: "length (replicate 16 (FFin 0)) = 16 * 1" by simp
  obtain o' sh where "fill_f32 (shared_with_playback (from_start s full_volume)) (replicate 16 (FFin 0)) 1 48000 = Some (o', sh)"
    "sh_playback sh = None"
    using start_fill[OF s l] by auto
  then show ?thesis unfolding test_non_repeating_clears_def snd with_sound.simps full_profile by simp
qed

lemma mono_upmix: "wav_decoder sy \<Longrightarrow> test_mono_upmix sy"
proof -
  assume "wav_decoder sy"
  from silent_48k[OF this, of 8] obtain s where snd: "silent_sound sy 1 48000 8 = Some s" and s: "mono_48k 8 s" by auto
  have l: "length (replicate 8 (FFin 0)) = 4 * 2" by simp
  obtain sh where fill: "fill_f32 (shared_with_playback (from_start s full_volume)) (replicate 8 (FFin 0)) 2 48000 =
      Some (concat (map (source_frame s 2) [0..<4]), sh)"
    using start_fill[OF s l] by auto
  have ch: "chunks 2 (concat (map (source_frame s 2) xs)) = map (source_frame s 2) xs" for xs
    by (rule chunks_concat) (simp_all add: list_all_iff source_frame_def)
  have "source_frame s 2 i ! 0 = source_frame s 2 i ! 1" for i
    using s by (simp add: source_frame_def mono_48k_def)
  then have "list_all (\<lambda>f. f ! 0 = f ! 1) (map (source_frame s 2) xs)" for xs by (simp add: list_all_iff)
  then show ?thesis unfolding test_mono_upmix_def snd with_sound.simps full_profile sum.case fill option.case prod.case ch by blast
qed

lemma repeating_wraps: "wav_decoder sy \<Longrightarrow> test_repeating_wraps sy"
proof -
  assume "wav_decoder sy"
  from silent_48k[OF this, of 4] obtain s where snd: "silent_sound sy 1 48000 4 = Some s" and s: "mono_48k 4 s" by auto
  let ?v = "\<lparr>vp_target = FFin 1, vp_ramp = Immediate, vp_repeat = True\<rparr>"
  let ?fs = "chunks 1 (replicate 20 (FFin 0))"
  have prof: "profile_new (FFin 1) Immediate True = Inr ?v" by (simp add: profile_new_iff unit_range_def)
  have start: "looping_at s 0 (from_start s ?v)" by (simp add: from_start_def looping_at_def pb_ok_def)
  have rate: "source_ok s" "2 \<le> ds_sample_rate s" "ds_sample_rate s < 2 ^ 32" "ds_sample_rate s = 48000" "ds_frames s = 4"
    "ds_channels s = 1" using s by (simp_all add: mono_48k_def)
  have l: "length (replicate 20 (FFin 0)) = 20 * 1" by simp
  have ch: "list_all (\<lambda>f. length f = 1) ?fs" "length ?fs = 20" using chunks_exact[OF l zero_less_one] by blast+
  obtain fs pb' k' where f: "fill_frames 48000 (from_start s ?v) ?fs = Some (fs, pb')" "looping_at s k' pb'"
    using looping_frames[OF rate(1-3) start ch(1)] unfolding rate(4) by blast
  have "pb_frames_played pb' = 0 + length ?fs"
    using fill_frames_played[OF f(1)] f(2) rate(5,6) ch(2) by (simp add: looping_at_def from_start_def)
  then have "pb_frames_played pb' = 20" using ch(2) by simp
  moreover have "\<not> pb_finished pb'" "vp_repeat (pb_profile pb')" "fl_le (pb_cursor_frames pb') (FFin 4)"
    using f(2) rate(5) by (simp_all add: looping_at_def)
  moreover have "fill_f32 (shared_with_playback (from_start s ?v)) (replicate 20 (FFin 0)) 1 48000 =
      Some (concat fs, (shared_with_playback (from_start s ?v))\<lparr>sh_playback := Some pb'\<rparr>)"
    using calculation(2) f(1) unfolding fill_f32_def shared_sel by simp
  ultimately show ?thesis unfolding test_repeating_wraps_def snd with_sound.simps prof by simp
qed

text \<open>The ramp test: one second of constant amplitude, ramped over two seconds.\<close>

definition lit_0_01 :: rat where "lit_0_01 = 10737418 / 2 ^ 30"

definition fl_abs :: "fl \<Rightarrow> fl" where
  "fl_abs x = (case x of FFin r \<Rightarrow> FFin \<bar>r\<bar> | FInf _ \<Rightarrow> FInf False | FNaN \<Rightarrow> FNaN)"

definition test_linear_ramp :: "(bytes, 'f, 'd, 'p) symphonia_api \<Rightarrow> bool" where
  "test_linear_ramp sy = (let frames = 48000 in with_sound (silent_sound sy 1 48000 frames) (\<lambda>sound.
      case bind_r (ramp_linear (dur_from_secs 2)) (\<lambda>r. profile_new (FFin 1) r False) of
        Inl _ \<Rightarrow> False
      | Inr profile \<Rightarrow>
          (case fill_f32 (shared_with_playback (from_start sound profile)) (replicate frames (FFin 0)) 1 48000 of
             Some (out, _) \<Rightarrow>
               (let first = fl_abs (out ! 0); last = fl_abs (out ! (frames - 1)) in
                fl_lt first (FFin lit_0_01) \<and> fl_lt (FFin lit_0_1) last \<and>
                fl_lt (fl_mul f32_round first (FFin 10)) last)
           | None \<Rightarrow> False)))"

lemma concat_singletons: "concat (map (\<lambda>i. [h i]) xs) = map h xs"
  by (induction xs) simp_all

lemma start_scaled:
  assumes "mono_48k n s" "profile_ok v" "\<not> vp_repeat v"
  shows "\<exists>sh'. fill_f32 (shared_with_playback (from_start s v)) (replicate n (FFin 0)) 1 48000 =
    Some (map (\<lambda>i. fl_mul f32_round (ds_samples s ! i) (frame_volume 48000 v i)) [0..<n], sh')"
proof -
  have s: "source_ok s" "2 \<le> ds_sample_rate s" "ds_sample_rate s < 2 ^ 32" "ds_sample_rate s = 48000"
    "ds_frames s = n" "ds_channels s = 1" using assms(1) by (simp_all add: mono_48k_def)
  let ?fs = "chunks 1 (replicate n (FFin 0))"
  have ch: "list_all (\<lambda>f. length f = 1) ?fs" "length ?fs = n"
    using chunks_exact[of "replicate n (FFin 0)" n 1] by simp_all
  have "profile_at s v 0 (from_start s v)" using assms(3) by (simp add: profile_at_def from_start_def)
  from profile_frames[OF s(1) assms(2) s(2,3) this le0 ch(1)] obtain pb' where
    f: "fill_frames 48000 (from_start s v) ?fs = Some (map (scaled_frame s v 1) [0..<n], pb')"
    unfolding s(4) ch(2) by auto
  have "scaled_frame s v 1 i = [fl_mul f32_round (ds_samples s ! i) (frame_volume 48000 v i)]" if "i < n" for i
    using that s(4-6) by (simp add: scaled_frame_def source_frame_def)
  then have "map (scaled_frame s v 1) [0..<n] =
      map (\<lambda>i. [fl_mul f32_round (ds_samples s ! i) (frame_volume 48000 v i)]) [0..<n]" by (intro map_cong) simp_all
  note f2 = f[unfolded this]
  show ?thesis unfolding fill_f32_def shared_sel option.case f2 prod.case concat_singletons by simp
qed

lemma half_val64: "f64_val (1 / 2)"
proof -
  have "representable 53 (-1074) (1 / 2)"
    unfolding representable_def by (intro exI[of _ 1] exI[of _ "-1"]) (simp add: power_int_def)
  moreover have "(2 :: rat) powi (-1) < 2 powi 1024" by (rule power_int_strict_increasing) simp_all
  then have "\<bar>1 / 2 :: rat\<bar> < 2 powi 1024" by (simp add: power_int_minus)
  ultimately show ?thesis unfolding f64_val_def by blast
qed

lemma half_second: "elapsed 48000 24000 = 500000000"
proof -
  have n: "f64_of_nat 24000 = FFin 24000" "f64_of_nat 48000 = FFin 48000"
    using f64_of_nat_exact[of 24000] f64_of_nat_exact[of 48000] by simp_all
  have "fl_max (FFin 48000) (FFin 1) = FFin 48000" by (simp add: fl_max_def fl_lt_def)
  then have d: "fl_div f64_round (f64_of_nat 24000) (fl_max (f64_of_nat 48000) (FFin 1)) = FFin (1 / 2)"
    unfolding n using f64_round_val[OF half_val64] by simp
  have r: "round_half_even (1 / 2 * 1000000000) = 500000000" using round_half_even_int[of 500000000] by simp
  show ?thesis unfolding elapsed_def d dur_from_secs_f64_def fl.case r Let_def by simp
qed

lemma half_second_f32: "as_secs_f32 500000000 = FFin (1 / 2)"
proof -
  have "representable 24 (-149) 500000000"
    unfolding representable_def by (rule exI[of _ 1953125], rule exI[of _ 8]) simp
  then have "f32_val 500000000" unfolding f32_val_def by simp
  from f32_round_val[OF this] have "f32_of_nat 500000000 = FFin 500000000" by (simp add: f32_of_nat_def)
  then show ?thesis
    using f32_round_val[OF half_val] f32_of_nat_small[of 0] by (simp add: as_secs_parts nano_part_def)
qed

lemma lower_vals: "f32_val (1 / 4)" "f32_val (7 / 64)"
proof -
  have "representable 24 (-149) (1 / 4)"
    unfolding representable_def by (rule exI[of _ 1], rule exI[of _ "-2"]) (simp add: power_int_def power_one_over)
  then show "f32_val (1 / 4)" by (rule f32_val_small_rat) simp
  have "representable 24 (-149) (7 / 64)"
    unfolding representable_def by (rule exI[of _ 7], rule exI[of _ "-6"]) (simp add: power_int_def power_one_over)
  then show "f32_val (7 / 64)" by (rule f32_val_small_rat) simp
qed

lemma linear_ramp:
  assumes "wav_decoder sy" shows "test_linear_ramp sy"
proof -
  define a :: rat where "a = 16383 / 32768"
  obtain s where snd: "silent_sound sy 1 48000 48000 = Some s" and s: "mono_48k 48000 s"
    and samples: "ds_samples s = replicate 48000 (FFin a)"
    using silent_48k[OF assms, of 48000] unfolding a_def by auto
  let ?v = "\<lparr>vp_target = FFin 1, vp_ramp = Linear (dur_from_secs 2), vp_repeat = False\<rparr>"
  have lin: "ramp_linear (dur_from_secs 2) = Inr (Linear (dur_from_secs 2))"
    by (simp add: ramp_linear_def MIN_RAMP_def MAX_RAMP_def dur_from_secs_def)
  then have v: "profile_ok ?v" "\<not> vp_repeat ?v"
    unfolding profile_ok_def ramp_ok_def by (auto simp: unit_range_def)
  have prof: "bind_r (ramp_linear (dur_from_secs 2)) (\<lambda>r. profile_new (FFin 1) r False) = Inr ?v"
    by (simp add: lin profile_new_iff unit_range_def)
  obtain sh' where fill: "fill_f32 (shared_with_playback (from_start s ?v)) (replicate 48000 (FFin 0)) 1 48000 =
      Some (map (\<lambda>i. fl_mul f32_round (ds_samples s ! i) (frame_volume 48000 ?v i)) [0..<48000], sh')"
    using start_scaled[OF s v] by blast
  have smp: "ds_samples s ! 0 = FFin a" "ds_samples s ! 47999 = FFin a"
    unfolding samples by (rule nth_replicate; simp)+
  have two: "as_secs_f32 (dur_from_secs 2) = FFin 2" using as_secs_whole[of 2] by simp
  have one: "unit_range (FFin 1)" by (simp add: unit_range_def)
  have zero: "frame_volume 48000 ?v 0 = FFin 0"
    using elapsed_whole[of 48000 0] f32_round_val[OF f32_val_0]
    by (simp add: frame_volume_def dur_from_secs_def[of 0] gain_linear[OF one two] ramp_frac_def as_secs_f32_0 two clamp_fin)
  have "ramp_frac (dur_from_secs 2) 500000000 = FFin (1 / 4)"
    using f32_round_val[OF lower_vals(1)] by (simp add: ramp_frac_def half_second_f32 two clamp_fin)
  then have quarter: "frame_volume 48000 ?v 24000 = FFin (1 / 4)"
    using f32_round_val[OF lower_vals(1)]
    by (simp add: frame_volume_def half_second gain_linear[OF one two] clamp_fin)
  have "fl_le (frame_volume 48000 ?v 24000) (frame_volume 48000 ?v 47999)"
    using v(1) by (intro volume_mono) simp_all
  then obtain g where g: "frame_volume 48000 ?v 47999 = FFin g" "1 / 4 \<le> g"
    using volume_unit[OF v(1), of 48000 47999] by (auto simp: quarter unit_range_def)
  have "12 / 25 * (1 / 4) \<le> a * g" using g(2) by (intro mult_mono) (simp_all add: a_def)
  then have "fl_le (f32_round (7 / 64)) (f32_round (a * g))" by (intro f32_round_mono) simp_all
  then have low: "fl_le (FFin (7 / 64)) (f32_round (a * g))" using f32_round_val[OF lower_vals(2)] by simp
  have below: "fl_lt (FFin x) (fl_abs (f32_round (a * g)))" if "x < 7 / 64" for x
    using low that by (cases "f32_round (a * g)") (auto simp: fl_abs_def fl_lt_def)
  have first: "fl_mul f32_round (FFin a) (FFin 0) = FFin 0" using f32_round_val[OF f32_val_0] by simp
  have nth: "map h [0..<48000] ! 0 = h 0" "map h [0..<48000] ! (48000 - 1) = h 47999" for h :: "nat \<Rightarrow> f32"
    by simp_all
  have "fl_lt (FFin 0) (FFin lit_0_01)" by (simp add: fl_lt_def lit_0_01_def)
  moreover have "fl_lt (FFin lit_0_1) (fl_abs (f32_round (a * g)))" by (rule below) (simp add: lit_0_1_def)
  moreover have "fl_lt (fl_mul f32_round (FFin 0) (FFin 10)) (fl_abs (f32_round (a * g)))"
    using below[of 0] f32_round_val[OF f32_val_0] by simp
  moreover have "fl_abs (FFin 0) = FFin 0" by (simp add: fl_abs_def)
  ultimately show ?thesis
    unfolding test_linear_ramp_def Let_def snd with_sound.simps prof sum.case fill option.case prod.case nth smp zero g(1) first fl_mul.simps(1)
    by (simp add: f32_round_val[OF f32_val_0])
qed

end
