(* ===== verification/Integration.thy ===== *)
theory Integration
  imports Alarm_Service
begin

text \<open>
  The integration tests of \<open>src/alarm-daemon/tests\<close> as runs of the service: each script's bus calls in
  order, \<open>start\<close> and \<open>stop\<close> as process starts on one database file, and the replies it compares.  What
  \<open>setup.sh install\<close> puts in place is a snapshot of the sound directory; the shell, \<open>busctl\<close> and the
  polling for the bus name are not modelled.
\<close>

section \<open>The test session\<close>

definition sound_dir :: path where
  "sound_dir = ''/h/.local/share/helm/sounds''"

definition installed_fs :: fs where
  "installed_fs =
     \<lparr>fs_metadata = (\<lambda>p. if p \<in> {sound_dir @ ''/casualty.wav'', sound_dir @ ''/collision.wav'',
          sound_dir @ ''/klaxon.wav'', sound_dir @ ''/surface.wav''} then Inr 1000 else Inl ''ENOENT''),
      fs_read_dir = (\<lambda>d. if d = sound_dir
        then Inr [Inr ''surface.wav'', Inr ''casualty.wav'', Inr ''klaxon.wav'', Inr ''collision.wav'']
        else Inl ''ENOENT'')\<rparr>"

definition session_env :: environment where
  "session_env =
     [''ALARM_DAEMON_BUS'' \<mapsto> ''session'', ''ALARM_DAEMON_DB_PATH'' \<mapsto> ''/tmp/t.redb'',
      ''ALARM_DAEMON_SOUND_DIR'' \<mapsto> sound_dir, ''ALARM_DAEMON_CUSTOM_SOUND_DIR'' \<mapsto> ''/h/.local/share/helm/custom-sounds'']"

definition test_call :: "nat \<Rightarrow> string \<Rightarrow> bus_arg \<Rightarrow> (fake_event list, unit) svc_event" where
  "test_call now m arg =
     SCall \<lparr>ce_fs = installed_fs, ce_clk = int now, ce_now = now, ce_cancelled = False, ce_emit_ok = True\<rparr> m arg"

text \<open>\<open>start\<close> on a fresh database, then the events of the script; a later \<open>stop\<close> and \<open>start\<close> is one
  restart.\<close>

definition session :: "environment \<Rightarrow> (fake_event list, unit) svc_event list \<Rightarrow> (bus_error + bus_reply) list option" where
  "session env evs =
     (case run mem_api demo_boot env 0 Map.empty of
        (_, _, Some c) \<Rightarrow> map_option fst (svc_run mem_api fake_ops demo_sym evs c)
      | (_, _, None) \<Rightarrow> None)"

definition restart_at :: "environment \<Rightarrow> int \<Rightarrow> (fake_event list, unit) svc_event" where
  "restart_at env clk = SRestart demo_boot env clk"

section \<open>The tests\<close>

definition test_dbus_surface :: bool where
  "test_dbus_surface \<longleftrightarrow>
     (case session session_env
        [test_call 1 ''Status'' NoArg, test_call 2 ''CurrentSound'' NoArg,
         test_call 3 ''Arm'' (StrArg ''builtin:collision''),
         test_call 4 ''Status'' NoArg, test_call 5 ''CurrentSound'' NoArg, test_call 6 ''ListSounds'' NoArg,
         test_call 7 ''Snooze'' (U32Arg 1), test_call 8 ''Status'' NoArg,
         test_call 9 ''Dismiss'' NoArg, test_call 10 ''Status'' NoArg, test_call 11 ''CurrentSound'' NoArg] of
        Some [s1, c1, a, s2, c2, Inr (StrsReply sounds), z, s3, d, s4, c3] \<Rightarrow>
          s1 = Inr (BoolReply False) \<and> c1 = Inr (StrReply []) \<and> a = Inr UnitReply \<and>
          s2 = Inr (BoolReply True) \<and> c2 = Inr (StrReply ''builtin:collision'') \<and>
          {''builtin:collision'', ''builtin:casualty'', ''builtin:klaxon'', ''builtin:surface''} \<subseteq> set sounds \<and>
          z = Inr UnitReply \<and> s3 = Inr (BoolReply True) \<and> d = Inr UnitReply \<and>
          s4 = Inr (BoolReply False) \<and> c3 = Inr (StrReply [])
      | _ \<Rightarrow> False)"

definition test_persistence_restart :: bool where
  "test_persistence_restart \<longleftrightarrow>
     session session_env
       [test_call 1 ''Arm'' (StrArg ''builtin:collision''), test_call 2 ''Status'' NoArg,
        test_call 3 ''CurrentSound'' NoArg,
        restart_at session_env 4,
        test_call 5 ''Status'' NoArg, test_call 6 ''CurrentSound'' NoArg, test_call 7 ''Disarm'' NoArg,
        test_call 8 ''CurrentSound'' NoArg,
        restart_at session_env 9,
        test_call 10 ''Status'' NoArg, test_call 11 ''CurrentSound'' NoArg] =
     Some [Inr UnitReply, Inr (BoolReply True), Inr (StrReply ''builtin:collision''),
           Inr (BoolReply True), Inr (StrReply ''builtin:collision''), Inr UnitReply, Inr (StrReply []),
           Inr (BoolReply False), Inr (StrReply [])]"

text \<open>The demo waits eight seconds after \<open>Arm\<close> and after \<open>Snooze\<close>: the trigger wakes at its deadline,
  five seconds after the call, and plays.\<close>

definition test_demo_flow :: bool where
  "test_demo_flow \<longleftrightarrow>
     (let sec = 1000000000; env = session_env(''ALARM_DAEMON_TRIGGER_DELAY_MS'' \<mapsto> ''5000'') in
      session env
        [test_call sec ''Arm'' (StrArg ''builtin:collision''),
         STask (EWake (6 * sec) 0), STask (ERun 0 (\<lambda>_. Inr ())),
         test_call (9 * sec) ''Snooze'' (U32Arg 5),
         STask (EWake (14 * sec) 1), STask (ERun 1 (\<lambda>_. Inr ())),
         test_call (17 * sec) ''Dismiss'' NoArg, test_call (18 * sec) ''Status'' NoArg,
         test_call (19 * sec) ''CurrentSound'' NoArg] =
      Some [Inr UnitReply, Inr UnitReply, Inr UnitReply, Inr (BoolReply False), Inr (StrReply [])])"

section \<open>They pass\<close>

definition test_lib_dirs :: sound_library where
  "test_lib_dirs = \<lparr>builtin_dir = sound_dir, custom_dir = ''/h/.local/share/helm/custom-sounds''\<rparr>"

lemma session_env_simps:
  assumes "env = session_env \<or> env = session_env(''ALARM_DAEMON_TRIGGER_DELAY_MS'' \<mapsto> ''5000'')"
  shows "bus_from_env env = Inr Session" "db_path env k = ''/tmp/t.redb''" "library_from_env env = test_lib_dirs"
  using assms
  by (auto simp: session_env_def bus_from_env_def env_var_def bus_parse_def db_path_def library_from_env_def
      library_new_def test_lib_dirs_def rust_str_def sound_dir_def)

lemma installed_resolve: "resolve_path installed_fs test_lib_dirs ''builtin:collision'' = Inr (sound_dir @ ''/collision.wav'')"
  by code_simp

lemma installed_list: "list_sounds installed_fs test_lib_dirs =
    Inr (map (\<lambda>n. summary Builtin n 1000) [''casualty'', ''collision'', ''klaxon'', ''surface''])"
  by code_simp

lemma session_run:
  assumes "env = session_env \<or> env = session_env(''ALARM_DAEMON_TRIGGER_DELAY_MS'' \<mapsto> ''5000'')"
    and "list_all (event_ok ''/tmp/t.redb'') evs"
  shows "session env evs = Some (fst (alarm_run evs \<lparr>al_lib = test_lib_dirs, al_armed = False, al_sound = None\<rparr>))"
proof -
  note e = session_env_simps[OF assms(1)]
  have "connect demo_boot Session = Inr ()" by (simp add: connect_def demo_boot_def bind_r_def map_err_def)
  moreover have b: "b_create_dir_all demo_boot p = Inr ()" "b_spawn_audio demo_boot = Inr []" for p
    by (simp_all add: demo_boot_def)
  ultimately obtain tr r c where run: "run mem_api demo_boot env 0 Map.empty = (tr, r, Some c)"
    "d_inner (c_daemon c) = state_disarmed"
    using run_succeeds[OF mem.redb_reliable_axioms e(1) empty_disk_state b _, of 0] by blast
  obtain d rec w' where np: "new_persistent mem_api 0 (from_path ''/tmp/t.redb'') Map.empty = (Inr (d, rec), w')"
    "\<exists>player. c = control_new env d w' test_lib_dirs player"
    using run_served[OF run(1)] e by auto
  have "synced mem_view ''/tmp/t.redb'' (d, w')"
    using mem.restart_synced[OF empty_disk_state[of "''/tmp/t.redb''"], of 0] np(1) by auto
  then have "svc_inv mem_view ''/tmp/t.redb'' c" using np(2) run(2) by (auto simp: svc_inv_def control_new_def)
  from mem.svc_run_refines[OF this assms(2), of fake_ops demo_sym] clock_disarmed[OF run(2)] np(2)
  show ?thesis by (auto simp: session_def run(1) control_new_def)
qed

lemma test_call_ok: "event_ok path (test_call now m arg) \<longleftrightarrow>
    (case arg of StrArg sid \<Rightarrow> rust_str sid \<and> length sid \<le> 65535 | _ \<Rightarrow> True)"
  by (simp add: test_call_def)

lemma restart_ok:
  "env = session_env \<or> env = session_env(''ALARM_DAEMON_TRIGGER_DELAY_MS'' \<mapsto> ''5000'') \<Longrightarrow>
    event_ok ''/tmp/t.redb'' (restart_at env clk)"
  unfolding restart_at_def demo_boot_ok by (simp add: session_env_simps)

lemma alarm_steps:
  "alarm_step (test_call now m arg) a = (case alarm_call installed_fs m arg a of (r, a') \<Rightarrow> ([r], a'))"
  "alarm_step (restart_at env clk :: (fake_event list, unit) svc_event) a = ([], a\<lparr>al_lib := library_from_env env\<rparr>)"
  "alarm_step (STask e) a = ([], a)"
  by (simp_all add: alarm_step_def test_call_def restart_at_def)

lemmas run_alarm = session_run test_call_ok restart_ok alarm_steps alarm_call_def select_sound_def
  installed_resolve session_env_simps rust_str_def

lemma dbus_surface: "test_dbus_surface"
  unfolding test_dbus_surface_def
  by (simp add: run_alarm installed_list summary_def sound_id_def source_prefix_def)

lemma persistence_restart: "test_persistence_restart"
  unfolding test_persistence_restart_def by (simp add: run_alarm)

lemma demo_flow: "test_demo_flow"
  unfolding test_demo_flow_def Let_def by (simp add: run_alarm)

end
