(* ===== verification/Spec2Isabelle.thy ===== *)
theory Spec2Isabelle
  imports Alarm_Prelude Daemon Sounds Audio_Player Playback Playback_Rates Worker Audio_Service Control
    Control_Types Interleaving Startup Client Registration Introspect Ramps Alarm_Service Ringing
    Concurrent_Rings Serial_Calls End_To_End Client_Example Conformance_Audio Integration
begin

text \<open>
  \<^bold>\<open>Verification of alarm-daemon.\<close>

  The repository holds a D-Bus alarm service (\<open>src/alarm-daemon\<close>) and its client library
  (\<open>src/alarm-daemon-client\<close>).  A client arms the alarm with a sound id; the control object
  resolves the id to a file, records the armed state in memory and on disk, and spawns a task that
  sleeps and then decodes and plays the file.  \<open>Snooze\<close>, \<open>Disarm\<close> and \<open>Dismiss\<close> cancel it.  After a
  restart the state is read back from the database.

  \<^bold>\<open>Theories and the code they model.\<close>
  \<^item> \<open>Alarm_Prelude\<close>: machine integers, byte order, UTF-8 validity, \<open>Result\<close> combinators, environment
    variables, durations and the wall clock, as the Rust standard library defines them.
  \<^item> \<open>Persisted_Codec\<close>: the payload format of \<open>daemon/persistence/mod.rs\<close> (\<open>encode_state\<close>,
    \<open>decode_state\<close> and their parts).  Round trips for the current and the legacy layout, exact
    rejection, and the truncation of over-long ids.
  \<^item> \<open>Paths\<close>: \<open>std::path\<close> as far as the code uses it, and a file system snapshot.
  \<^item> \<open>Persistence\<close>: the database handle (\<open>load\<close>, \<open>save\<close>, \<open>lock_db\<close>, \<open>evaluate_recovery\<close>).  redb is not
    part of the repository; its calls are the record \<open>redb_api\<close>, its documented behaviour the
    locales \<open>redb_contract\<close> (any call may fail) and \<open>redb_reliable\<close> (no call fails), interpreted on
    an in-memory database.  The locale \<open>state_store\<close> is what the daemon relies on.
  \<^item> \<open>Daemon\<close>: \<open>daemon/alarm_daemon.rs\<close> and its data types.  \<open>transition_to\<close> is the composition of the
    swap under the write lock and the write behind it.  The locale \<open>alarm_device\<close> is what the
    control object relies on.
  \<^item> \<open>Sounds\<close>: the sound library of \<open>audio/sounds.rs\<close>.  \<open>File_System\<close> and \<open>Registration\<close>: its registration
    code (compiled for tests only) over a file system that can change; the calls are the record
    \<open>fs_api\<close>, their laws the locale \<open>file_system\<close>, interpreted on a directory tree in memory.
  \<^item> \<open>Floats\<close>, \<open>Profile\<close>, \<open>Decoded\<close>, \<open>Audio_Types\<close>: binary floating point with rounding to nearest
    even, volume profiles and gain (\<open>audio/profile.rs\<close>), decoding (\<open>audio/decoded.rs\<close>) over an
    interface of symphonia, audio errors (\<open>audio/error.rs\<close>).
  \<^item> \<open>Audio_Player\<close>, \<open>Playback\<close>, \<open>Worker\<close>: the trait \<open>AlarmAudio\<close> as the locale \<open>alarm_audio\<close> with its two
    implementations, the sample callback \<open>fill_f32\<close>, and the worker thread of
    \<open>audio/cpal_audio.rs\<close> as a state machine interleaved with the callbacks of the stream.
    \<open>Playback_Rates\<close>: unequal sample rates and repeating sounds, with the rounding errors of the
    position.  \<open>Ramps\<close>: volume ramps during playback, with rounding shown to be monotone.
    \<open>Audio_Service\<close>: handle, channel, worker thread, \<open>Drop\<close> and the scratch buffer.
  \<^item> \<open>Control\<close>: the D-Bus object of \<open>ipc/control.rs\<close>, every method and the trigger task, as a state
    machine whose events are whole calls and task steps.  \<open>Control_Types\<close>: the typing invariant of
    its reachable states.
  \<^item> \<open>Interleaving\<close>: the same methods as sequences of atomic actions that overlap.  \<open>Serial_Calls\<close>: calls
    that do not overlap, with trigger tasks between their actions.  \<open>Concurrent_Rings\<close>: every sound is
    traced back to the call that asked for it.
  \<^item> \<open>Startup\<close>: \<open>main.rs\<close>, \<open>config.rs\<close>, \<open>logging.rs\<close>, \<open>systemd.rs\<close>; the trace of a start.
  \<^item> \<open>Client\<close>: \<open>alarm-daemon-client/src/client.rs\<close> over a bus, from the connection to the replies; the
    locale \<open>control_service\<close> is what it relies on, interpreted on the control object.
  \<^item> \<open>Alarm_Service\<close>: bus calls, trigger tasks and process restarts through all of \<open>run\<close> as one state
    machine, and the alarm clock it refines.  \<open>Ringing\<close>: the same with timer ticks, and a clock with one
    timer and one sound device that it refines.  \<open>End_To_End\<close>: from process start and client to the buffers of
    the sound device.  \<open>Client_Example\<close>: the program \<open>examples/basic.rs\<close>.
  \<^item> \<open>Introspect\<close>: the extraction of \<open>tests/introspect_xml.rs\<close> over the events of an XML reader, the static
    schema of \<open>data/dbus\<close>, and its agreement with the control object.
  \<^item> \<open>Conformance\<close>, \<open>Conformance_Audio\<close>: the unit tests of the repository as boolean definitions, proved of
    the model; \<open>Wav_Files\<close>: the files they build, with the locale \<open>wav_decoder\<close> interpreted on a reader
    of such files.  \<open>Integration\<close>: the scripts of the integration tests as runs of the service.

  \<^bold>\<open>State.\<close>  \<open>control\<close> is the struct \<open>Control\<close> together with the disk, the list of all spawned trigger
  tasks (a \<open>JoinHandle\<close> is an index into it) and the signals sent so far.  A task is sleeping, past
  its sleep (from then on \<open>abort\<close> no longer reaches it), finished or aborted.  Errors are values:
  each \<open>?\<close> and early return is a branch.  Clocks, the file system and the outcomes of system calls are
  arguments.

  \<^bold>\<open>What is shown.\<close> Called one at a time, the methods keep at most one pending
  trigger, \<open>Disarm\<close> leaves nothing that can fire, an armed alarm fires, and the signals
  follow the status exactly. Memory and disk never hold a state nobody asked for and no sound is
  played that no call asked for, under any interleaving and any failures; calls that take turns
  never orphan a trigger, and on a disk that works they leave memory and disk in agreement and make
  restarts invisible. The payload format round-trips. The audio callback reproduces the source exactly at equal rates, never panics
  and never amplifies; decoding is exact and returns; the worker recovers a lost device. Every
  one-shot sound ends at any pair of rates, a repeating one never does; channel and worker thread
  refine the player the control object is modelled with, and joining the thread returns; after a
  client has armed the alarm the device gets silence until the deadline, then the frames of the
  selected file, and silence again after the client has disarmed it. Reachable control objects are
  well-typed, a registered sound is listed, resolved and loaded, and the shipped schema describes
  the object. Startup reports readiness only when everything is up. On a disk that works, the whole
  service, restarts included, answers every call as an alarm clock that has only a selected sound,
  and drives the device as a clock with one timer: an armed alarm rings once, at the first tick from
  its deadline on; a ramp scales the source by a gain that never falls; the example program succeeds
  whenever the library lists a sound. Further theorems pin down where the code departs from its
  documentation: overlapping calls can orphan a trigger, reorder writes or undo a
  \<open>Disarm\<close>; a restored alarm never fires and one that has fired is reported as missed;
  a failed write is not repeated; sound names may be absolute paths; an early stream error is lost.

  \<^bold>\<open>Loops and bounds.\<close>  All loops are structural recursion except the packet loop of the decoder, a
  partial function that is shown to return for every container with finitely many packets.  The
  two zeros of IEEE arithmetic are one value.  The callback theorem assumes a device rate of at
  least 2 Hz: below that, \<open>Duration::from_secs_f64\<close> could overflow after \<open>2 ^ 64\<close> frames.

  \<^bold>\<open>Not modelled.\<close>  The internals of tokio, zbus, redb, symphonia, cpal and quick-xml; log records; cpal's
  conversion to the sample type of the device, which is a parameter.  Of the tests: the shell around
  the integration tests (\<open>setup.sh\<close>, \<open>busctl\<close>, file locks, the tests that only install files, the
  process \<open>introspect_xml.rs\<close> starts), the unit test that only calls the two notification helpers, and
  the error text compared in \<open>rejects_unknown_value\<close>.  Code compiled for tests only (linear ramps,
  registration, the recording player) is modelled.
\<close>

section \<open>Restarts of the whole object\<close>

text \<open>C33: a restored alarm never fires by itself.  When the daemon restarts with an armed state on
  disk, the control object reports armed, but it has no trigger: whatever time passes, no task
  event changes anything until a client calls a method.\<close>

theorem restored_alarm_never_fires:
  assumes "redb_reliable api view"
    and "disk_state (stored view path w) = Some (state_armed (Some sid) t)"
  shows "\<exists>d rec w'. new_persistent api clk (from_path path) w = (Inr (d, rec), w') \<and>
    (let c = control_new env d w' lib player in
     control_status c \<and> control_current_sound c = sid
     \<and> (\<forall>evs. list_all task_event evs \<longrightarrow> ctl_run api aud sy evs c = c))"
proof -
  obtain d rec w' where np: "new_persistent api clk (from_path path) w = (Inr (d, rec), w')"
    "d_inner d = state_armed (Some sid) t"
    using redb_reliable.restart_synced[OF assms] by blast
  let ?c = "control_new env d w' lib player"
  have "\<forall>i. \<not> sleeping ?c i \<and> \<not> running ?c i"
    by (simp add: sleeping_def running_def control_new_def)
  then have "\<forall>evs. list_all task_event evs \<longrightarrow> ctl_run api aud sy evs ?c = ?c"
    by (simp add: quiescent_run)
  moreover have "control_status ?c" "control_current_sound ?c = sid"
    using np(2) by (simp_all add: control_status_def control_current_sound_def daemon_status_def
        daemon_current_sound_def control_new_def)
  ultimately show ?thesis using np(1) by (simp add: Let_def)
qed

text \<open>A disk that holds an armed state, for the witness.\<close>

definition armed_disk :: mem_disk where
  "armed_disk =
     Map.empty(''/s'' \<mapsto> Map.empty(STATE_TABLE \<mapsto> Map.empty(STATE_KEY \<mapsto>
       encode_state (to_persisted (state_armed (Some ''builtin:horn'') (Some 9))))))"

lemma armed_disk_state:
  "disk_state (stored mem_view ''/s'' armed_disk) = Some (state_armed (Some ''builtin:horn'') (Some 9))"
  by (simp add: armed_disk_def stored_def mem_view_def mem_tables_def lookup_bytes_def sound_storable_armed rust_str_def)

theorem restored_alarm_never_fires_witness:
  "\<exists>d rec w'. new_persistent mem_api 0 (from_path ''/s'') armed_disk = (Inr (d, rec), w') \<and>
    control_status (control_new (\<lambda>_. None) d w' demo_lib ([] :: fake_event list))"
  using restored_alarm_never_fires[OF mem.redb_reliable_axioms armed_disk_state,
      of 0 "\<lambda>_. None" demo_lib "[] :: fake_event list" fake_ops demo_sym]
  by (auto simp: Let_def)

text \<open>C34: an alarm that has fired is reported as missed.  Firing changes neither the state nor the
  disk, so after a successful \<open>Arm\<close>, whatever its trigger task did since (playing the sound
  included), a restart at or after the recorded fire time reports \<open>missed_while_down\<close>.\<close>

theorem fired_alarm_reported_missed:
  assumes "redb_reliable api view" and "synced view path (c_daemon c, c_disk c)"
    and "resolve_path (ce_fs ce) (c_sounds c) sid = Inr p" and "\<not> ce_cancelled ce"
    and "rust_str sid" and "length sid \<le> 65535"
    and "control_arm api aud ce sid c = (r, c1)" and "list_all task_event evs"
    and "i64_le (fire_at (ce_clk ce) (c_trigger_delay c)) (unix_now_ms clk)"
  shows "\<exists>d w'. new_persistent api clk (from_path path) (c_disk (ctl_run api aud sy evs c1))
    = (Inr (d, \<lparr>missed_while_down = True\<rparr>), w')"
proof -
  let ?st = "state_armed (Some sid) (Some (fire_at (ce_clk ce) (c_trigger_delay c)))"
  note ok = arm_ok[OF assms(3), of api aud, unfolded assms(7) fst_conv snd_conv]
  obtain t where tr: "transition_to api False ?st (c_daemon c, c_disk c) = (t, c_daemon c1, c_disk c1)"
    using ok(7) assms(4) by (auto simp: arm_with_sound_def)
  have "synced view path (c_daemon c1, c_disk c1)"
    using redb_reliable.transition_synced[OF assms(1,2) _ tr] assms(5,6) by (simp add: sound_storable_armed)
  then have "disk_state (stored view path (c_disk c1)) = Some ?st" using ok(2) by (simp add: synced_def)
  moreover have "c_disk (ctl_run api aud sy evs c1) = c_disk c1" using assms(8) by (simp add: task_run_fields)
  ultimately obtain d rec w' where
    np: "new_persistent api clk (from_path path) (c_disk (ctl_run api aud sy evs c1)) = (Inr (d, rec), w')"
    "d_inner d = ?st"
    using redb_reliable.restart_synced[OF assms(1)] by metis
  have "rec = evaluate_recovery clk (to_persisted ?st)"
    using new_persistent_recovery[OF np(1)] np(2) by simp
  then have "rec = \<lparr>missed_while_down = True\<rparr>"
    using assms(9) by (simp add: evaluate_recovery_def to_persisted_def)
  with np(1) show ?thesis by blast
qed

theorem fired_alarm_reported_missed_witness:
  "let c1 = snd (control_arm mem_api fake_ops demo_env ''builtin:horn'' demo_control);
       c2 = ctl_run mem_api fake_ops demo_sym [EWake 3000000100 0, ERun 0 (\<lambda>_. Inr ())] c1
   in \<exists>d w'. new_persistent mem_api 9000000000 (from_path ''/s'') (c_disk c2)
        = (Inr (d, \<lparr>missed_while_down = True\<rparr>), w')"
proof -
  obtain r c1 where arm: "control_arm mem_api fake_ops demo_env ''builtin:horn'' demo_control = (r, c1)"
    by (cases "control_arm mem_api fake_ops demo_env ''builtin:horn'' demo_control")
  have "c_trigger_delay demo_control = 3000000000" "ce_clk demo_env = 7000000"
    by (simp_all add: demo_control_def control_new_def trigger_delay_from_env_def env_var_def
        DEFAULT_TRIGGER_DELAY_def dur_from_secs_def demo_env_def)
  then have late: "i64_le (fire_at (ce_clk demo_env) (c_trigger_delay demo_control)) (unix_now_ms 9000000000)"
    using fire_at_sint[of 7000000 3000000000] sint_unix_now_ms[of 9000000000]
    by (simp add: i64_le_def i64_max_def)
  show ?thesis
    using fired_alarm_reported_missed[OF mem.redb_reliable_axioms demo_synced demo_arm _ _ _ arm _ late,
        of "[EWake 3000000100 0, ERun 0 (\<lambda>_. Inr ())]" demo_sym] arm
    by (simp add: rust_str_def)
qed

end
